(* ===== verification/Prelude.thy ===== *)
theory Prelude
  imports Main "HOL-Library.Word" "HOL-Library.Sublist"
begin

section \<open>Shared vocabulary: errors, results, effects\<close>

text \<open>
  What every component of the development shares: Go's error values, the result types of
  functions that return \<^verbatim>\<open>(T, error)\<close>, the state-passing type of functions that run
  external programs, and the rewrite rules that carry the component proofs.

  Go strings and byte slices are both byte sequences and both are modelled as \<^typ>\<open>string\<close>
  (a \<^typ>\<open>char\<close> of HOL is one byte). Unsigned machine integers keep their width.
\<close>

type_synonym uint64 = "64 word"
type_synonym uint32 = "32 word"
type_synonym uint16 = "16 word"
type_synonym uint8 = "8 word"

named_theorems res_simps \<open>rewrite rules for results, error wrapping and effects\<close>
named_theorems str_simps \<open>rewrite rules for the modelled string library\<close>

subsection \<open>Error values\<close>

text \<open>
  An error made by \<^verbatim>\<open>fmt.Errorf\<close> or \<^verbatim>\<open>errors.New\<close> is kept as its format string and its
  arguments, unrendered; \<open>Wrapf\<close> is a format that ends in \<^verbatim>\<open>%w\<close> together with the error
  it wraps. \<open>ExitError\<close> is \<^verbatim>\<open>gitutil.ExitError\<close>; the other constructors are errors that the
  code recognises with \<^verbatim>\<open>errors.Is\<close>, \<^verbatim>\<open>errors.As\<close> or \<^verbatim>\<open>os.IsNotExist\<close>. \<open>Panic\<close> is a Go
  panic: it is not an error value, but it leaves a function early and is never wrapped.
\<close>

datatype fmtarg = FStr string | FNat nat | FInt int

datatype goerr =
    Errorf string "fmtarg list"
  | Wrapf string "fmtarg list" goerr
  | ExitError int string
  | Sentinel string
  | NotExist string
  | RateLimitError int
  | AbuseRateLimitError "int option"
  | Panic string

fun errors_Is :: "goerr \<Rightarrow> goerr \<Rightarrow> bool" where
  "errors_Is (Wrapf f a e) t = (Wrapf f a e = t \<or> errors_Is e t)"
| "errors_Is e t = (e = t)"

fun errors_As_ExitError :: "goerr \<Rightarrow> int option" where
  "errors_As_ExitError (ExitError c m) = Some c"
| "errors_As_ExitError (Wrapf f a e) = errors_As_ExitError e"
| "errors_As_ExitError _ = None"

fun is_panic :: "goerr \<Rightarrow> bool" where
  "is_panic (Panic m) = True"
| "is_panic _ = False"

fun wrap_err :: "string \<Rightarrow> fmtarg list \<Rightarrow> goerr \<Rightarrow> goerr" where
  "wrap_err f a (Panic m) = Panic m"
| "wrap_err f a e = Wrapf f a e"

lemma is_panic_wrap_err [simp]: "is_panic (wrap_err f a e) = is_panic e"
  by (cases e) auto

lemma wrap_err_not_panic: "\<not> is_panic e \<Longrightarrow> wrap_err f a e = Wrapf f a e"
  by (cases e) auto

lemma errors_Is_Sentinel_wrap [simp]:
  "errors_Is (wrap_err f a e) (Sentinel s) = errors_Is e (Sentinel s)"
  by (cases e) auto

lemma errors_As_ExitError_wrap [simp]:
  "errors_As_ExitError (wrap_err f a e) = errors_As_ExitError e"
  by (cases e) auto

subsection \<open>Pure results\<close>

type_synonym 'a res = "goerr + 'a"

definition rbind :: "'a res \<Rightarrow> ('a \<Rightarrow> 'b res) \<Rightarrow> 'b res" where
  "rbind r f = (case r of Inl e \<Rightarrow> Inl e | Inr x \<Rightarrow> f x)"

definition rwrap :: "string \<Rightarrow> fmtarg list \<Rightarrow> 'a res \<Rightarrow> 'a res" where
  "rwrap f a r = (case r of Inl e \<Rightarrow> Inl (wrap_err f a e) | Inr x \<Rightarrow> Inr x)"

fun res_map :: "('a \<Rightarrow> 'b res) \<Rightarrow> 'a list \<Rightarrow> 'b list res" where
  "res_map f [] = Inr []"
| "res_map f (x # xs) = rbind (f x) (\<lambda>y. rbind (res_map f xs) (\<lambda>ys. Inr (y # ys)))"

lemma rbind_simps [simp, res_simps]:
  "rbind (Inl e) f = Inl e"
  "rbind (Inr x) f = f x"
  by (simp_all add: rbind_def)

lemma rwrap_simps [simp, res_simps]:
  "rwrap f a (Inl e) = Inl (wrap_err f a e)"
  "rwrap f a (Inr x) = Inr x"
  by (simp_all add: rwrap_def)

lemma rbind_Inr_iff [res_simps]:
  "rbind r f = Inr y \<longleftrightarrow> (\<exists>x. r = Inr x \<and> f x = Inr y)"
  by (cases r) auto

lemma rbind_Inl_iff [res_simps]:
  "rbind r f = Inl e \<longleftrightarrow> r = Inl e \<or> (\<exists>x. r = Inr x \<and> f x = Inl e)"
  by (cases r) auto

lemma rwrap_Inr_iff [simp, res_simps]: "rwrap f a r = Inr y \<longleftrightarrow> r = Inr y"
  by (cases r) auto

lemma rbind_cong [fundef_cong]:
  "r = r' \<Longrightarrow> (\<And>x. r' = Inr x \<Longrightarrow> f x = f' x) \<Longrightarrow> rbind r f = rbind r' f'"
  by (cases r') auto

lemma res_map_Inr_iff:
  "res_map f xs = Inr ys \<longleftrightarrow> list_all2 (\<lambda>x y. f x = Inr y) xs ys"
  by (induction xs arbitrary: ys) (auto simp: rbind_Inr_iff list_all2_Cons1)

lemma res_map_length: "res_map f xs = Inr ys \<Longrightarrow> length ys = length xs"
  by (simp add: res_map_Inr_iff list_all2_lengthD)

lemma res_map_all_Inr: "(\<And>x. x \<in> set xs \<Longrightarrow> f x = Inr (g x)) \<Longrightarrow> res_map f xs = Inr (map g xs)"
  by (induction xs) auto

lemma res_map_append:
  "res_map f (xs @ ys) = rbind (res_map f xs) (\<lambda>as. rbind (res_map f ys) (\<lambda>bs. Inr (as @ bs)))"
proof (induction xs)
  case Nil
  show ?case by (cases "res_map f ys") auto
next
  case (Cons x xs)
  show ?case
    by (cases "f x"; cases "res_map f xs"; cases "res_map f ys") (auto simp: Cons.IH)
qed

subsection \<open>Effects\<close>

text \<open>
  A function that runs programs or touches files takes the state of the outside world and
  returns its result with the new state: \<open>('w, 'a) io\<close>. \<open>ebind\<close> is Go's
  \<^verbatim>\<open>x, err := m(); if err != nil { return err }\<close>, \<open>ewrap\<close> the same with \<^verbatim>\<open>fmt.Errorf\<close>
  around the error, \<open>elift\<close> a pure call inside an effectful function.
\<close>

type_synonym ('w, 'a) io = "'w \<Rightarrow> 'a res \<times> 'w"

definition eret :: "'a \<Rightarrow> ('w, 'a) io" where
  "eret x w = (Inr x, w)"

definition efail :: "goerr \<Rightarrow> ('w, 'a) io" where
  "efail e w = (Inl e, w)"

definition elift :: "'a res \<Rightarrow> ('w, 'a) io" where
  "elift r w = (r, w)"

definition ebind :: "('w, 'a) io \<Rightarrow> ('a \<Rightarrow> ('w, 'b) io) \<Rightarrow> ('w, 'b) io" where
  "ebind m f w = (case m w of (Inl e, w') \<Rightarrow> (Inl e, w') | (Inr x, w') \<Rightarrow> f x w')"

definition ewrap :: "string \<Rightarrow> fmtarg list \<Rightarrow> ('w, 'a) io \<Rightarrow> ('w, 'a) io" where
  "ewrap f a m w = (case m w of (r, w') \<Rightarrow> (rwrap f a r, w'))"

text \<open>\<open>etry\<close> hands a function's result, error included, to the code that inspects it.\<close>

definition etry :: "('w, 'a) io \<Rightarrow> ('a res \<Rightarrow> ('w, 'b) io) \<Rightarrow> ('w, 'b) io" where
  "etry m f w = (case m w of (r, w') \<Rightarrow> f r w')"

fun emap :: "('a \<Rightarrow> ('w, 'b) io) \<Rightarrow> 'a list \<Rightarrow> ('w, 'b list) io" where
  "emap f [] = eret []"
| "emap f (x # xs) = ebind (f x) (\<lambda>y. ebind (emap f xs) (\<lambda>ys. eret (y # ys)))"

lemma eret_apply [simp, res_simps]: "eret x w = (Inr x, w)"
  by (simp add: eret_def)

lemma efail_apply [simp, res_simps]: "efail e w = (Inl e, w)"
  by (simp add: efail_def)

lemma elift_apply [simp, res_simps]: "elift r w = (r, w)"
  by (simp add: elift_def)

lemma ebind_Inl: "m w = (Inl e, w') \<Longrightarrow> ebind m f w = (Inl e, w')"
  by (simp add: ebind_def)

lemma ebind_Inr: "m w = (Inr x, w') \<Longrightarrow> ebind m f w = f x w'"
  by (simp add: ebind_def)

lemma ebind_eret [simp]: "ebind (eret x) f w = f x w"
  by (simp add: ebind_def)

lemma ebind_efail [simp]: "ebind (efail e) f w = (Inl e, w)"
  by (simp add: ebind_def)

lemma ebind_elift: "ebind (elift r) f w = (case r of Inl e \<Rightarrow> (Inl e, w) | Inr x \<Rightarrow> f x w)"
  by (simp add: ebind_def split: sum.splits)

lemma ewrap_apply: "m w = (r, w') \<Longrightarrow> ewrap f a m w = (rwrap f a r, w')"
  by (simp add: ewrap_def)

lemma ewrap_Inr [res_simps]: "ewrap f a m w = (Inr x, w') \<longleftrightarrow> m w = (Inr x, w')"
  by (auto simp: ewrap_def split: prod.splits)

lemma ewrap_Inl: "ewrap f a m w = (Inl e, w') \<longleftrightarrow> (\<exists>e'. m w = (Inl e', w') \<and> e = wrap_err f a e')"
  by (cases "m w"; cases "fst (m w)") (auto simp: ewrap_def)

lemma etry_apply: "m w = (r, w') \<Longrightarrow> etry m f w = f r w'"
  by (simp add: etry_def)

lemma ebind_Inr_iff [res_simps]:
  "ebind m f w = (Inr y, w'') \<longleftrightarrow> (\<exists>x w'. m w = (Inr x, w') \<and> f x w' = (Inr y, w''))"
  by (auto simp: ebind_def split: prod.splits sum.splits)

lemma ebind_Inl_iff [res_simps]:
  "ebind m f w = (Inl e, w'') \<longleftrightarrow>
     m w = (Inl e, w'') \<or> (\<exists>x w'. m w = (Inr x, w') \<and> f x w' = (Inl e, w''))"
  by (auto simp: ebind_def split: prod.splits sum.splits)

text \<open>
  A read-only effect leaves the state as it was. Every query of the repository is one, under
  the contract of the \<^verbatim>\<open>git\<close> commands it runs; the property composes.
\<close>

definition pure_at :: "('w, 'a) io \<Rightarrow> 'w \<Rightarrow> bool" where
  "pure_at m w \<longleftrightarrow> snd (m w) = w"

named_theorems pure_intros \<open>introduction rules for read-only effects\<close>

lemma pure_at_eret [pure_intros, simp]: "pure_at (eret x) w"
  by (simp add: pure_at_def)

lemma pure_at_efail [pure_intros, simp]: "pure_at (efail e) w"
  by (simp add: pure_at_def)

lemma pure_at_elift [pure_intros, simp]: "pure_at (elift r) w"
  by (simp add: pure_at_def)

lemma pure_at_ebind [pure_intros]:
  "pure_at m w \<Longrightarrow> (\<And>x. fst (m w) = Inr x \<Longrightarrow> pure_at (f x) w) \<Longrightarrow> pure_at (ebind m f) w"
  by (auto simp: pure_at_def ebind_def split: prod.splits sum.splits)

lemma pure_at_ewrap [pure_intros]: "pure_at m w \<Longrightarrow> pure_at (ewrap f a m) w"
  by (auto simp: pure_at_def ewrap_def split: prod.splits)

lemma pure_at_etry [pure_intros]:
  "pure_at m w \<Longrightarrow> (\<And>r. fst (m w) = r \<Longrightarrow> pure_at (f r) w) \<Longrightarrow> pure_at (etry m f) w"
  by (auto simp: pure_at_def etry_def split: prod.splits)

lemma pure_at_emap [pure_intros]:
  "(\<And>x. x \<in> set xs \<Longrightarrow> pure_at (f x) w) \<Longrightarrow> pure_at (emap f xs) w"
  by (induction xs) (auto intro!: pure_intros)

lemma pure_atD: "pure_at m w \<Longrightarrow> m w = (fst (m w), w)"
  by (metis pure_at_def prod.collapse)

lemma pure_at_result: "pure_at m w \<Longrightarrow> m w = (r, w') \<Longrightarrow> w' = w"
  by (simp add: pure_at_def)

lemma fst_ebind_pure:
  "pure_at m w \<Longrightarrow> fst (ebind m f w) = (case fst (m w) of Inl e \<Rightarrow> Inl e | Inr x \<Rightarrow> fst (f x w))"
  by (auto simp: pure_at_def ebind_def split: prod.splits sum.splits)

lemma fst_ewrap: "fst (ewrap f a m w) = rwrap f a (fst (m w))"
  by (simp add: ewrap_def split: prod.splits)

text \<open>
  What a successful run leaves: \<open>post m w Q\<close> says that if \<open>m\<close> returns a value from \<open>w\<close>, the
  value and the state it leaves satisfy \<open>Q\<close>. The rules push it through a composition.
\<close>

named_theorems post_simps \<open>postconditions of composed effects\<close>

definition post :: "('w, 'a) io \<Rightarrow> 'w \<Rightarrow> ('a \<Rightarrow> 'w \<Rightarrow> bool) \<Rightarrow> bool" where
  "post m w Q \<longleftrightarrow> (\<forall>x w'. m w = (Inr x, w') \<longrightarrow> Q x w')"

lemma postD: "post m w Q \<Longrightarrow> m w = (Inr x, w') \<Longrightarrow> Q x w'"
  by (simp add: post_def)

lemma postI: "(\<And>x w'. m w = (Inr x, w') \<Longrightarrow> Q x w') \<Longrightarrow> post m w Q"
  by (simp add: post_def)

lemma post_mono: "post m w P \<Longrightarrow> (\<And>x w'. P x w' \<Longrightarrow> Q x w') \<Longrightarrow> post m w Q"
  by (simp add: post_def)

lemma post_eret [post_simps]: "post (eret x) w Q \<longleftrightarrow> Q x w"
  by (simp add: post_def)

lemma post_efail [post_simps]: "post (efail e) w Q \<longleftrightarrow> True"
  by (simp add: post_def)

lemma post_elift [post_simps]: "post (elift r) w Q \<longleftrightarrow> (\<forall>x. r = Inr x \<longrightarrow> Q x w)"
  by (simp add: post_def)

lemma post_ebind [post_simps]: "post (ebind m f) w Q \<longleftrightarrow> post m w (\<lambda>x w'. post (f x) w' Q)"
  by (auto simp: post_def ebind_Inr_iff)

lemma post_ewrap [post_simps]: "post (ewrap f a m) w Q \<longleftrightarrow> post m w Q"
  by (simp add: post_def ewrap_Inr)

lemma post_etry [post_simps]: "post (etry m f) w Q \<longleftrightarrow> (case m w of (r, w') \<Rightarrow> post (f r) w' Q)"
  by (simp add: etry_def post_def split: prod.splits)

subsection \<open>Lists\<close>

text \<open>Consecutive elements of a list related pairwise; the shape of every chain rule.\<close>

fun chained :: "('a \<Rightarrow> 'a \<Rightarrow> bool) \<Rightarrow> 'a list \<Rightarrow> bool" where
  "chained R [] = True"
| "chained R [x] = True"
| "chained R (x # y # zs) = (R x y \<and> chained R (y # zs))"

lemma chained_iff_nth:
  "chained R xs \<longleftrightarrow> (\<forall>i. Suc i < length xs \<longrightarrow> R (xs ! i) (xs ! Suc i))"
proof (induction R xs rule: chained.induct)
  case (3 R x y zs)
  have "(\<forall>i. Suc i < length (x # y # zs) \<longrightarrow> R ((x # y # zs) ! i) ((x # y # zs) ! Suc i)) \<longleftrightarrow>
        R x y \<and> (\<forall>i. Suc i < length (y # zs) \<longrightarrow> R ((y # zs) ! i) ((y # zs) ! Suc i))"
    by (auto simp: nth_Cons split: nat.splits)
  with 3 show ?case by simp
qed simp_all

lemma chained_Cons: "chained R (x # xs) \<longleftrightarrow> (xs = [] \<or> R x (hd xs) \<and> chained R xs)"
  by (cases xs) auto

lemma chained_append:
  "chained R (xs @ ys) \<longleftrightarrow>
     chained R xs \<and> chained R ys \<and> (xs \<noteq> [] \<longrightarrow> ys \<noteq> [] \<longrightarrow> R (last xs) (hd ys))"
  by (induction xs) (auto simp: chained_Cons)

lemma chained_mono: "chained R xs \<Longrightarrow> (\<And>x y. R x y \<Longrightarrow> S x y) \<Longrightarrow> chained S xs"
  by (induction R xs rule: chained.induct) auto

lemma chained_trans:
  assumes "chained R xs" and tr: "\<And>a b c. R a b \<Longrightarrow> R b c \<Longrightarrow> R a c"
  shows "sorted_wrt R xs"
  using assms(1)
proof (induction xs)
  case (Cons x xs)
  then have IH: "sorted_wrt R xs" by (cases xs) auto
  show ?case
  proof (cases xs)
    case (Cons y zs)
    with \<open>chained R (x # xs)\<close> have "R x y" by simp
    with IH Cons show ?thesis by (auto intro: tr)
  qed simp
qed simp

end
