(* ===== verification/Go_Strings.thy ===== *)
theory Go_Strings
  imports Prelude
begin

section \<open>The string functions the program uses\<close>

text \<open>
  Go's \<^verbatim>\<open>strings\<close> package, as far as the sources call it: searching, cutting, splitting,
  trimming and replacing on byte strings, with the lemmas about lines and fields that the
  parsers rely on. \<open>TrimSpace\<close> removes every code point \<^verbatim>\<open>unicode.IsSpace\<close> accepts, given by
  its UTF-8 bytes. \<open>ToLower\<close> lowers ASCII letters; on a string with bytes above 127 it keeps
  those bytes, where Go maps the letters they encode (the one caller goes on to reject such
  a string whatever they map to).
\<close>

abbreviation nl :: char where "nl \<equiv> CHR 0x0A"
abbreviation cr :: char where "cr \<equiv> CHR 0x0D"
abbreviation tab :: char where "tab \<equiv> CHR 0x09"
abbreviation sp :: char where "sp \<equiv> CHR 0x20"

abbreviation HasPrefix :: "string \<Rightarrow> string \<Rightarrow> bool" where
  "HasPrefix s p \<equiv> prefix p s"

abbreviation HasSuffix :: "string \<Rightarrow> string \<Rightarrow> bool" where
  "HasSuffix s p \<equiv> suffix p s"

definition TrimPrefix :: "string \<Rightarrow> string \<Rightarrow> string" where
  "TrimPrefix s p = (if HasPrefix s p then drop (length p) s else s)"

definition CutPrefix :: "string \<Rightarrow> string \<Rightarrow> string option" where
  "CutPrefix s p = (if HasPrefix s p then Some (drop (length p) s) else None)"

fun Index :: "string \<Rightarrow> string \<Rightarrow> nat option" where
  "Index [] sub = (if sub = [] then Some 0 else None)"
| "Index (c # t) sub = (if prefix sub (c # t) then Some 0 else map_option Suc (Index t sub))"

text \<open>\<^verbatim>\<open>strings.Cut\<close>: the text before and after the first separator, and whether there is one.\<close>

definition Cut :: "string \<Rightarrow> string \<Rightarrow> string \<times> string \<times> bool" where
  "Cut s sep = (case Index s sep of
       Some i \<Rightarrow> (take i s, drop (i + length sep) s, True)
     | None \<Rightarrow> (s, [], False))"

text \<open>\<^verbatim>\<open>strings.Split\<close> and \<^verbatim>\<open>strings.SplitN\<close> for a separator of one byte.\<close>

fun Split :: "string \<Rightarrow> char \<Rightarrow> string list" where
  "Split [] c = [[]]"
| "Split (x # xs) c =
     (if x = c then [] # Split xs c
      else (case Split xs c of [] \<Rightarrow> [[x]] | l # ls \<Rightarrow> (x # l) # ls))"

fun SplitN :: "string \<Rightarrow> char \<Rightarrow> nat \<Rightarrow> string list" where
  "SplitN s c 0 = []"
| "SplitN s c (Suc 0) = [s]"
| "SplitN s c (Suc (Suc n)) =
     (case Cut s [c] of (a, b, True) \<Rightarrow> a # SplitN b c (Suc n) | _ \<Rightarrow> [s])"

fun Join :: "string list \<Rightarrow> string \<Rightarrow> string" where
  "Join [] sep = []"
| "Join [x] sep = x"
| "Join (x # y # zs) sep = x @ sep @ Join (y # zs) sep"

definition ContainsRune :: "string \<Rightarrow> char \<Rightarrow> bool" where
  "ContainsRune s c \<longleftrightarrow> c \<in> set s"

definition ContainsAny :: "string \<Rightarrow> string \<Rightarrow> bool" where
  "ContainsAny s cs \<longleftrightarrow> list_ex (\<lambda>c. c \<in> set cs) s"

definition TrimRight :: "string \<Rightarrow> string \<Rightarrow> string" where
  "TrimRight s cutset = rev (dropWhile (\<lambda>c. c \<in> set cutset) (rev s))"

definition Trim :: "string \<Rightarrow> string \<Rightarrow> string" where
  "Trim s cutset = TrimRight (dropWhile (\<lambda>c. c \<in> set cutset) s) cutset"

definition lower_char :: "char \<Rightarrow> char" where
  "lower_char c = (if of_char c \<ge> (65::nat) \<and> of_char c \<le> (90::nat)
                   then char_of (of_char c + (32::nat)) else c)"

definition ToLower :: "string \<Rightarrow> string" where
  "ToLower s = map lower_char s"

text \<open>\<^verbatim>\<open>strings.ReplaceAll(s, "\r\n", "\n")\<close>.\<close>

fun ReplaceCRLF :: "string \<Rightarrow> string" where
  "ReplaceCRLF (c # d # s) =
     (if c = cr \<and> d = nl then nl # ReplaceCRLF s else c # ReplaceCRLF (d # s))"
| "ReplaceCRLF s = s"

text \<open>The UTF-8 encodings of the code points with the property \<^verbatim>\<open>White_Space\<close>.\<close>

definition space_runes :: "string list" where
  "space_runes =
     [[tab], [nl], [CHR 0x0B], [CHR 0x0C], [cr], [sp],
      [CHR 0xC2, CHR 0x85], [CHR 0xC2, CHR 0xA0], [CHR 0xE1, CHR 0x9A, CHR 0x80]]
     @ map (\<lambda>i. [CHR 0xE2, CHR 0x80, char_of (0x80 + i)]) [0..<11]
     @ [[CHR 0xE2, CHR 0x80, CHR 0xA8], [CHR 0xE2, CHR 0x80, CHR 0xA9],
        [CHR 0xE2, CHR 0x80, CHR 0xAF], [CHR 0xE2, CHR 0x81, CHR 0x9F],
        [CHR 0xE3, CHR 0x80, CHR 0x80]]"

lemma space_runes_nonempty: "r \<in> set space_runes \<Longrightarrow> r \<noteq> []"
  by (auto simp: space_runes_def)

function trim_left_runes :: "string list \<Rightarrow> string \<Rightarrow> string" where
  "trim_left_runes rs s =
     (case find (\<lambda>r. r \<noteq> [] \<and> prefix r s) rs of
        Some r \<Rightarrow> trim_left_runes rs (drop (length r) s)
      | None \<Rightarrow> s)"
  by pat_completeness auto
termination
proof (relation "measure (\<lambda>(rs, s). length s)")
  fix rs s and r :: string
  assume "find (\<lambda>r. r \<noteq> [] \<and> prefix r s) rs = Some r"
  then have "r \<noteq> []" "prefix r s" by (auto simp: find_Some_iff)
  then show "((rs, drop (length r) s), rs, s) \<in> measure (\<lambda>(rs, s). length s)"
    by (auto simp: prefix_def)
qed simp

declare trim_left_runes.simps [simp del]

definition TrimSpace :: "string \<Rightarrow> string" where
  "TrimSpace s =
     rev (trim_left_runes (map rev space_runes) (rev (trim_left_runes space_runes s)))"

subsection \<open>Searching and cutting\<close>

lemma Index_Some_prefix: "Index s sub = Some i \<Longrightarrow> i \<le> length s \<and> prefix sub (drop i s)"
  by (induction s arbitrary: i) (auto split: if_splits)

lemma Index_None_iff: "Index s sub = None \<longleftrightarrow> \<not> sublist sub s"
  by (induction s) (auto simp: sublist_Cons_right)

lemma Index_char_None: "Index s [c] = None \<longleftrightarrow> c \<notin> set s"
  by (induction s) auto

lemma Index_char_append: "c \<notin> set xs \<Longrightarrow> Index (xs @ c # ys) [c] = Some (length xs)"
  by (induction xs) auto

lemma Index_char_Some:
  "Index s [c] = Some i \<Longrightarrow> i < length s \<and> s ! i = c \<and> c \<notin> set (take i s)"
  by (induction s arbitrary: i) (auto split: if_splits)

text \<open>The first occurrence: the text before it has none that ends at or before the hit.\<close>

lemma Index_append_first:
  "(\<And>j. j < length xs \<Longrightarrow> \<not> prefix sub (drop j xs @ sub @ ys)) \<Longrightarrow>
   Index (xs @ sub @ ys) sub = Some (length xs)"
proof (induction xs)
  case Nil
  then show ?case
    by (cases "sub @ ys") (auto simp: prefix_def, metis append_Cons prefix_def prefixI)
next
  case (Cons x xs)
  have "\<not> prefix sub (x # xs @ sub @ ys)" using Cons.prems [of 0] by simp
  moreover have "Index (xs @ sub @ ys) sub = Some (length xs)"
    using Cons.prems [of "Suc _"] by (intro Cons.IH) auto
  ultimately show ?case by simp
qed

lemma Index_Some_least: "Index s sub = Some i \<Longrightarrow> j < i \<Longrightarrow> \<not> prefix sub (drop j s)"
proof (induction s arbitrary: i j)
  case (Cons c t)
  then show ?case by (cases j) (auto split: if_splits)
qed (auto split: if_splits)

lemma Cut_char: "c \<notin> set xs \<Longrightarrow> Cut (xs @ c # ys) [c] = (xs, ys, True)"
  by (simp add: Cut_def Index_char_append)

lemma Cut_char_absent: "c \<notin> set s \<Longrightarrow> Cut s [c] = (s, [], False)"
  by (simp add: Cut_def Index_char_None [THEN iffD2])

lemma Cut_char_True: "Cut s [c] = (a, b, True) \<longleftrightarrow> s = a @ c # b \<and> c \<notin> set a"
proof
  assume *: "Cut s [c] = (a, b, True)"
  then obtain i where i: "Index s [c] = Some i" and ab: "a = take i s" "b = drop (Suc i) s"
    by (auto simp: Cut_def split: option.splits)
  from Index_char_Some [OF i] ab show "s = a @ c # b \<and> c \<notin> set a"
    by (auto simp: id_take_nth_drop)
qed (auto simp: Cut_char)

lemma Cut_char_False: "Cut s [c] = (a, b, False) \<longleftrightarrow> a = s \<and> b = [] \<and> c \<notin> set s"
proof (cases "c \<in> set s")
  case True
  then obtain i where "Index s [c] = Some i" using Index_char_None [of s c] by auto
  with True show ?thesis by (simp add: Cut_def)
next
  case False
  then show ?thesis by (auto simp: Cut_char_absent)
qed

lemma TrimPrefix_append [simp, str_simps]: "TrimPrefix (p @ s) p = s"
  by (simp add: TrimPrefix_def)

lemma CutPrefix_append [simp, str_simps]: "CutPrefix (p @ s) p = Some s"
  by (simp add: CutPrefix_def)

lemma CutPrefix_Some_iff: "CutPrefix s p = Some t \<longleftrightarrow> s = p @ t"
  by (auto simp: CutPrefix_def prefix_def)

subsection \<open>Splitting and joining lines\<close>

lemma Split_nonempty [simp]: "Split s c \<noteq> []"
  by (induction s) (auto split: list.splits)

lemma Split_absent: "c \<notin> set s \<Longrightarrow> Split s c = [s]"
  by (induction s) auto

lemma Split_append: "c \<notin> set xs \<Longrightarrow> Split (xs @ c # ys) c = xs # Split ys c"
  by (induction xs) (auto split: list.splits)

lemma Join_Cons: "ls \<noteq> [] \<Longrightarrow> Join (l # ls) sep = l @ sep @ Join ls sep"
  by (cases ls) auto

lemma Join_Split: "Join (Split s c) [c] = s"
proof (induction s)
  case (Cons x xs)
  show ?case
  proof (cases "Split xs c")
    case (Cons l ls)
    have j: "Join (l # ls) [c] = xs" using Cons.IH Cons by simp
    have "Join ((x # l) # ls) [c] = x # Join (l # ls) [c]" by (cases ls) auto
    with j Cons show ?thesis by (simp add: Join_Cons)
  qed simp
qed simp

lemma Split_Join: "ls \<noteq> [] \<Longrightarrow> (\<And>l. l \<in> set ls \<Longrightarrow> c \<notin> set l) \<Longrightarrow> Split (Join ls [c]) c = ls"
  by (induction ls "[c]" rule: Join.induct) (auto simp: Split_absent Split_append)

lemma Split_no_sep: "l \<in> set (Split s c) \<Longrightarrow> c \<notin> set l"
  by (induction s arbitrary: l) (auto split: if_splits list.splits)

lemma Split_set: "l \<in> set (Split s c) \<Longrightarrow> x \<in> set l \<Longrightarrow> x \<in> set s"
proof (induction s arbitrary: l)
  case (Cons a s)
  obtain m ms where "Split s c = m # ms" by (cases "Split s c") auto
  with Cons show ?case by (fastforce split: if_splits)
qed simp

lemma Split_eq_iff:
  "Split s c = ls \<longleftrightarrow> ls \<noteq> [] \<and> (\<forall>l\<in>set ls. c \<notin> set l) \<and> s = Join ls [c]"
  by (metis Join_Split Split_Join Split_no_sep Split_nonempty)

lemma SplitN_3:
  "c \<notin> set a \<Longrightarrow> c \<notin> set b \<Longrightarrow> SplitN (a @ c # b @ c # d) c 3 = [a, b, d]"
  by (simp add: numeral_3_eq_3 Cut_char)

lemma SplitN_3_iff:
  "SplitN s c 3 = [a, b, d] \<longleftrightarrow> s = a @ c # b @ c # d \<and> c \<notin> set a \<and> c \<notin> set b"
proof
  assume "SplitN s c 3 = [a, b, d]"
  then show "s = a @ c # b @ c # d \<and> c \<notin> set a \<and> c \<notin> set b"
    by (auto simp: numeral_3_eq_3 Cut_char_True split: prod.splits bool.splits)
qed (simp add: SplitN_3)

subsection \<open>Trimming\<close>

lemma TrimRight_last: "s \<noteq> [] \<Longrightarrow> last s \<notin> set cs \<Longrightarrow> TrimRight s cs = s"
  by (cases s rule: rev_cases) (auto simp: TrimRight_def)

lemma TrimRight_fixed_iff: "TrimRight s cs = s \<longleftrightarrow> s = [] \<or> last s \<notin> set cs"
proof (cases s rule: rev_cases)
  case (snoc ys y)
  have "length (dropWhile (\<lambda>c. c \<in> set cs) (rev ys)) \<le> length ys"
    by (metis length_dropWhile_le length_rev)
  then have "y \<in> set cs \<Longrightarrow> length (TrimRight s cs) < length s"
    using snoc by (simp add: TrimRight_def)
  then have "y \<in> set cs \<Longrightarrow> TrimRight s cs \<noteq> s" by auto
  with snoc show ?thesis by (auto simp: TrimRight_last)
qed (simp add: TrimRight_def)

lemma trim_left_runes_fixed:
  "(\<And>r. r \<in> set rs \<Longrightarrow> r \<noteq> [] \<Longrightarrow> \<not> prefix r s) \<Longrightarrow> trim_left_runes rs s = s"
  by (subst trim_left_runes.simps) (auto simp: find_Some_iff split: option.splits)

definition is_space_edge :: "char \<Rightarrow> bool" where
  "is_space_edge c \<longleftrightarrow> (\<exists>r\<in>set space_runes. hd r = c \<or> last r = c)"

lemma trim_right_fixed:
  assumes "s \<noteq> []" "\<not> is_space_edge (last s)"
  shows "trim_left_runes (map rev space_runes) (rev s) = rev s"
proof (rule trim_left_runes_fixed)
  fix r assume "r \<in> set (map rev space_runes)" "r \<noteq> []"
  then obtain q where q: "q \<in> set space_runes" "r = rev q" "q \<noteq> []" by auto
  show "\<not> prefix r (rev s)"
  proof
    assume "prefix r (rev s)"
    then have "suffix q s" using q by (simp add: suffix_to_prefix)
    then have "last s = last q" using q(3) by (auto simp: suffix_def)
    with q(1) assms(2) show False by (auto simp: is_space_edge_def)
  qed
qed

text \<open>A string whose first and last bytes begin and end no space is left alone.\<close>

lemma TrimSpace_fixed:
  assumes "s = [] \<or> \<not> is_space_edge (hd s) \<and> \<not> is_space_edge (last s)"
  shows "TrimSpace s = s"
proof (cases "s = []")
  case True
  then show ?thesis by (simp add: TrimSpace_def trim_left_runes_fixed)
next
  case False
  with assms have h: "\<not> is_space_edge (hd s)" "\<not> is_space_edge (last s)" by auto
  have l: "trim_left_runes space_runes s = s"
  proof (rule trim_left_runes_fixed)
    fix r assume "r \<in> set space_runes" "r \<noteq> []"
    with h(1) False show "\<not> prefix r s" by (auto simp: is_space_edge_def prefix_def)
  qed
  have "trim_left_runes (map rev space_runes) (rev s) = rev s" by (rule trim_right_fixed [OF False h(2)])
  with l show ?thesis by (simp add: TrimSpace_def)
qed

lemma trim_left_runes_step:
  assumes "[c] \<in> set rs" "\<And>r. r \<in> set rs \<Longrightarrow> hd r = c \<Longrightarrow> r = [c]"
  shows "trim_left_runes rs (c # s) = trim_left_runes rs s"
proof -
  let ?P = "\<lambda>r. r \<noteq> [] \<and> prefix r (c # s)"
  have P: "?P r \<longleftrightarrow> r = [c]" if "r \<in> set rs" for r
  proof
    assume "?P r"
    then have "hd r = c" by (cases r) auto
    with that show "r = [c]" by (rule assms(2))
  qed auto
  have "find ?P rs \<noteq> None" using assms(1) by (auto simp: find_None_iff)
  then obtain r where r: "find ?P rs = Some r" by auto
  then have "r \<in> set rs" "?P r" by (auto simp: find_Some_iff)
  with P have "r = [c]" by blast
  with r show ?thesis by (subst trim_left_runes.simps) simp
qed

lemma space_edge_char:
  "is_space_edge c \<longleftrightarrow> of_char c \<in> {9, 10, 11, 12, 13, 32, 0xC2, 0x85, 0xA0, 0xE1, 0x80, 0xE2,
     0x81, 0x82, 0x83, 0x84, 0x86, 0x87, 0x88, 0x89, 0x8A, 0xA8, 0xA9, 0xAF, 0x9F, 0xE3 :: nat}"
proof -
  have "is_space_edge c \<longleftrightarrow> c \<in> set (map hd space_runes) \<union> set (map last space_runes)"
    by (auto simp: is_space_edge_def)
  also have "\<dots> \<longleftrightarrow> of_char c \<in> (of_char ` (set (map hd space_runes) \<union> set (map last space_runes)) :: nat set)"
    by (auto simp: of_char_eq_iff)
  also have "(of_char ` (set (map hd space_runes) \<union> set (map last space_runes)) :: nat set) =
    {9, 10, 11, 12, 13, 32, 0xC2, 0x85, 0xA0, 0xE1, 0x80, 0xE2,
     0x81, 0x82, 0x83, 0x84, 0x86, 0x87, 0x88, 0x89, 0x8A, 0xA8, 0xA9, 0xAF, 0x9F, 0xE3}"
    by (simp add: space_runes_def upt_rec [of _ "11"]) auto
  finally show ?thesis .
qed

lemma space_rune_last_nl: "q \<in> set space_runes \<Longrightarrow> last q = nl \<Longrightarrow> q = [nl]"
proof -
  have "list_all (\<lambda>q. last q = nl \<longrightarrow> q = [nl]) space_runes" by code_simp
  then show "q \<in> set space_runes \<Longrightarrow> last q = nl \<Longrightarrow> q = [nl]" by (simp add: list_all_iff)
qed

text \<open>A line that starts with no white space and ends in a byte of none loses only its newline.\<close>

lemma TrimSpace_line:
  assumes "s \<noteq> []" "\<forall>r\<in>set space_runes. \<not> prefix r s" "\<not> is_space_edge (last s)"
  shows "TrimSpace (s @ [nl]) = s"
proof -
  have l: "trim_left_runes space_runes (s @ [nl]) = s @ [nl]"
  proof (rule trim_left_runes_fixed)
    fix r assume r: "r \<in> set space_runes" "r \<noteq> []"
    show "\<not> prefix r (s @ [nl])"
    proof
      assume "prefix r (s @ [nl])"
      with r(1) assms(2) have "r = s @ [nl]" by auto
      with space_rune_last_nl [OF r(1)] assms(1) show False by simp
    qed
  qed
  have hd_nl: "r = [nl]" if "r \<in> set (map rev space_runes)" "hd r = nl" for r
  proof -
    from that obtain q where q: "q \<in> set space_runes" "r = rev q" by auto
    with that(2) have "last q = nl" using space_runes_nonempty [OF q(1)] by (simp add: hd_rev)
    with q(1) have "q = [nl]" by (rule space_rune_last_nl)
    with q show ?thesis by simp
  qed
  have "trim_left_runes (map rev space_runes) (nl # rev s) = trim_left_runes (map rev space_runes) (rev s)"
  proof (rule trim_left_runes_step)
    show "[nl] \<in> set (map rev space_runes)" by (simp add: space_runes_def)
  qed (rule hd_nl)
  also have "\<dots> = rev s" by (rule trim_right_fixed [OF assms(1,3)])
  finally show ?thesis using l by (simp add: TrimSpace_def)
qed

lemma TrimSpace_newline:
  assumes "s \<noteq> []" "\<not> is_space_edge (hd s)" "\<not> is_space_edge (last s)"
  shows "TrimSpace (s @ [nl]) = s"
proof (rule TrimSpace_line [OF assms(1) _ assms(3)])
  show "\<forall>r\<in>set space_runes. \<not> prefix r s"
  proof
    fix r assume r: "r \<in> set space_runes"
    with space_runes_nonempty assms(1,2) show "\<not> prefix r s" by (cases r; cases s) (auto simp: is_space_edge_def)
  qed
qed

subsection \<open>Case and line endings\<close>

lemma ReplaceCRLF_no_cr: "cr \<notin> set s \<Longrightarrow> ReplaceCRLF s = s"
  by (induction s rule: ReplaceCRLF.induct) auto

lemma set_ReplaceCRLF: "set (ReplaceCRLF s) \<subseteq> set s"
  by (induction s rule: ReplaceCRLF.induct) auto

end
