(* ===== verification/Go_Encoding.thy ===== *)
theory Go_Encoding
  imports Go_Strings
begin

section \<open>Number and text encodings\<close>

text \<open>
  \<^verbatim>\<open>encoding/binary\<close> (big-endian), \<^verbatim>\<open>encoding/hex\<close>, \<^verbatim>\<open>encoding/base64\<close> (\<^verbatim>\<open>StdEncoding\<close>),
  \<^verbatim>\<open>strconv.FormatUint\<close> in base ten and the \<^verbatim>\<open>%08x\<close> verb, as functions on byte strings, with
  the round trips the key and signature formats rest on.
\<close>

abbreviation byte_of :: "nat \<Rightarrow> char" where "byte_of n \<equiv> char_of n"
abbreviation byte_val :: "char \<Rightarrow> nat" where "byte_val c \<equiv> of_char c"

lemma byte_val_bound [simp]: "byte_val c < 256"
  by (metis mod_less_divisor of_char_mod_256 zero_less_numeral)

lemma byte_of_val [simp]: "byte_of (byte_val c) = c"
  by simp

lemma byte_val_of: "n < 256 \<Longrightarrow> byte_val (byte_of n) = n"
  by simp

subsection \<open>Big-endian integers\<close>

text \<open>\<open>be_bytes n v\<close> is the low \<open>n\<close> bytes of \<open>v\<close>, most significant first.\<close>

fun be_bytes :: "nat \<Rightarrow> nat \<Rightarrow> string" where
  "be_bytes 0 v = []"
| "be_bytes (Suc n) v = be_bytes n (v div 256) @ [byte_of (v mod 256)]"

fun be_val :: "nat \<Rightarrow> string \<Rightarrow> nat" where
  "be_val acc [] = acc"
| "be_val acc (c # cs) = be_val (256 * acc + byte_val c) cs"

definition PutUint16 :: "uint16 \<Rightarrow> string" where
  "PutUint16 v = be_bytes 2 (unat v)"

definition PutUint32 :: "uint32 \<Rightarrow> string" where
  "PutUint32 v = be_bytes 4 (unat v)"

definition PutUint64 :: "uint64 \<Rightarrow> string" where
  "PutUint64 v = be_bytes 8 (unat v)"

definition Uint64 :: "string \<Rightarrow> uint64" where
  "Uint64 b = of_nat (be_val 0 (take 8 b))"

definition Uint32 :: "string \<Rightarrow> uint32" where
  "Uint32 b = of_nat (be_val 0 (take 4 b))"

lemma length_be_bytes [simp]: "length (be_bytes n v) = n"
  by (induction n arbitrary: v) auto

lemma be_val_append: "be_val acc (xs @ ys) = be_val (be_val acc xs) ys"
  by (induction xs arbitrary: acc) auto

lemma be_val_bytes: "be_val acc (be_bytes n v) = acc * 256 ^ n + v mod 256 ^ n"
proof (induction n arbitrary: v)
  case (Suc n)
  have "be_val acc (be_bytes (Suc n) v) =
        256 * (acc * 256 ^ n + v div 256 mod 256 ^ n) + v mod 256"
    by (simp add: be_val_append Suc.IH)
  also have "\<dots> = acc * 256 ^ Suc n + v mod 256 ^ Suc n"
    by (simp add: mod_mult2_eq algebra_simps)
  finally show ?case .
qed simp

lemma length_Put [simp]:
  "length (PutUint16 a) = 2" "length (PutUint32 b) = 4" "length (PutUint64 c) = 8"
  by (simp_all add: PutUint16_def PutUint32_def PutUint64_def)

lemma be_val_PutUint16: "be_val 0 (PutUint16 v) = unat v"
proof -
  have "unat v < 2 ^ LENGTH(16)" by (rule unsigned_less)
  then show ?thesis by (simp add: PutUint16_def be_val_bytes)
qed

lemma Uint64_Put [simp]: "Uint64 (PutUint64 v @ rest) = v"
proof -
  have "unat v < 2 ^ LENGTH(64)" by (rule unsigned_less)
  then show ?thesis by (simp add: Uint64_def PutUint64_def be_val_bytes)
qed

lemma Uint64_Put_whole [simp]: "Uint64 (PutUint64 v) = v"
  using Uint64_Put [of v "[]"] by simp

lemma Uint32_Put [simp]: "Uint32 (PutUint32 v @ rest) = v"
proof -
  have "unat v < 2 ^ LENGTH(32)" by (rule unsigned_less)
  then show ?thesis by (simp add: Uint32_def PutUint32_def be_val_bytes)
qed

subsection \<open>Decimal\<close>

fun decimal :: "nat \<Rightarrow> string" where
  "decimal n = (if n < 10 then [byte_of (48 + n)] else decimal (n div 10) @ [byte_of (48 + n mod 10)])"

declare decimal.simps [simp del]

definition FormatUint10 :: "uint64 \<Rightarrow> string" where
  "FormatUint10 v = decimal (unat v)"

definition Itoa :: "int \<Rightarrow> string" where
  "Itoa i = (if i < 0 then CHR ''-'' # decimal (nat (- i)) else decimal (nat i))"

definition is_digit :: "char \<Rightarrow> bool" where
  "is_digit c \<longleftrightarrow> 48 \<le> byte_val c \<and> byte_val c \<le> 57"

fun dec_val :: "nat \<Rightarrow> string \<Rightarrow> nat" where
  "dec_val acc [] = acc"
| "dec_val acc (c # cs) = dec_val (10 * acc + (byte_val c - 48)) cs"

lemma dec_val_append: "dec_val acc (xs @ ys) = dec_val (dec_val acc xs) ys"
  by (induction xs arbitrary: acc) auto

lemma decimal_nonempty [simp]: "decimal n \<noteq> []"
  by (subst decimal.simps) simp

lemma decimal_digits: "c \<in> set (decimal n) \<Longrightarrow> is_digit c"
proof (induction n rule: decimal.induct)
  case (1 n)
  have d: "is_digit (byte_of (48 + k))" if "k < 10" for k
    using that by (simp add: is_digit_def)
  show ?case
  proof (cases "n < 10")
    case True
    with 1 d show ?thesis by (subst (asm) decimal.simps) simp
  next
    case False
    with "1.prems" have "c \<in> set (decimal (n div 10)) \<or> c = byte_of (48 + n mod 10)"
      by (subst (asm) decimal.simps) auto
    with "1.IH" [OF False] d [of "n mod 10"] show ?thesis by auto
  qed
qed

lemma dec_val_decimal: "dec_val 0 (decimal n) = n"
proof (induction n rule: decimal.induct)
  case (1 n)
  have v: "byte_val (byte_of (48 + k)) - 48 = k" if "k < 10" for k
    using that by simp
  show ?case
  proof (cases "n < 10")
    case True
    then show ?thesis by (subst decimal.simps) (simp add: v)
  next
    case False
    then have "dec_val 0 (decimal n) = 10 * (n div 10) + (byte_val (byte_of (48 + n mod 10)) - 48)"
      by (subst decimal.simps) (simp add: dec_val_append "1.IH")
    also have "\<dots> = n" by (subst v) auto
    finally show ?thesis .
  qed
qed

lemma decimal_inject [simp]: "decimal m = decimal n \<longleftrightarrow> m = n"
  by (metis dec_val_decimal)

subsection \<open>Hexadecimal\<close>

definition hex_digit :: "nat \<Rightarrow> char" where
  "hex_digit n = (if n < 10 then byte_of (48 + n) else byte_of (87 + n))"

text \<open>\<^verbatim>\<open>hex.DecodeString\<close> accepts digits of either case, two to a byte.\<close>

definition from_hex_char :: "char \<Rightarrow> nat option" where
  "from_hex_char c =
     (let v = byte_val c in
      if 48 \<le> v \<and> v \<le> 57 then Some (v - 48)
      else if 97 \<le> v \<and> v \<le> 102 then Some (v - 87)
      else if 65 \<le> v \<and> v \<le> 70 then Some (v - 55)
      else None)"

fun hex_DecodeString :: "string \<Rightarrow> string option" where
  "hex_DecodeString [] = Some []"
| "hex_DecodeString [c] = None"
| "hex_DecodeString (c # d # s) =
     (case (from_hex_char c, from_hex_char d) of
        (Some a, Some b) \<Rightarrow> map_option (\<lambda>r. byte_of (16 * a + b) # r) (hex_DecodeString s)
      | _ \<Rightarrow> None)"

definition lower_hex_char :: "char \<Rightarrow> bool" where
  "lower_hex_char c \<longleftrightarrow> (48 \<le> byte_val c \<and> byte_val c \<le> 57) \<or> (97 \<le> byte_val c \<and> byte_val c \<le> 102)"

lemma hex_DecodeString_Some_iff:
  "hex_DecodeString s \<noteq> None \<longleftrightarrow> even (length s) \<and> (\<forall>c\<in>set s. from_hex_char c \<noteq> None)"
  by (induction s rule: hex_DecodeString.induct) (auto split: option.splits)

lemma lower_char_fixed_iff: "lower_char c = c \<longleftrightarrow> \<not> (65 \<le> byte_val c \<and> byte_val c \<le> 90)"
proof -
  have "byte_of (byte_val c + 32) \<noteq> c" if "byte_val c \<le> 90"
  proof
    assume "byte_of (byte_val c + 32) = c"
    then have "byte_val (byte_of (byte_val c + 32)) = byte_val c" by simp
    with that show False by simp
  qed
  then show ?thesis by (auto simp: lower_char_def)
qed

lemma ToLower_fixed_iff: "ToLower s = s \<longleftrightarrow> (\<forall>c\<in>set s. lower_char c = c)"
  by (induction s) (auto simp: ToLower_def)

lemma lower_hex_char_iff:
  "lower_hex_char c \<longleftrightarrow> lower_char c = c \<and> from_hex_char c \<noteq> None"
  by (auto simp: lower_char_fixed_iff lower_hex_char_def from_hex_char_def Let_def)

lemma lower_hex_char_hex_digit: "n < 16 \<Longrightarrow> lower_hex_char (hex_digit n)"
  by (auto simp: lower_hex_char_def hex_digit_def)

text \<open>\<^verbatim>\<open>fmt.Sprintf("%08x", v)\<close> for a 32-bit value: eight lower-case digits.\<close>

fun hex_digits :: "nat \<Rightarrow> nat \<Rightarrow> string" where
  "hex_digits 0 v = []"
| "hex_digits (Suc n) v = hex_digits n (v div 16) @ [hex_digit (v mod 16)]"

definition Sprintf08x :: "uint32 \<Rightarrow> string" where
  "Sprintf08x v = hex_digits 8 (unat v)"

lemma set_hex_digits: "c \<in> set (hex_digits n v) \<Longrightarrow> lower_hex_char c"
  by (induction n arbitrary: v) (auto simp: lower_hex_char_hex_digit)

lemma set_Sprintf08x: "c \<in> set (Sprintf08x v) \<Longrightarrow> lower_hex_char c"
  by (simp add: Sprintf08x_def set_hex_digits)

subsection \<open>Base64\<close>

definition b64_char :: "nat \<Rightarrow> char" where
  "b64_char n = (if n < 26 then byte_of (65 + n) else if n < 52 then byte_of (71 + n)
                 else if n < 62 then byte_of (n - 4) else if n = 62 then CHR ''+'' else CHR ''/'')"

definition b64_val :: "char \<Rightarrow> nat option" where
  "b64_val c =
     (let v = byte_val c in
      if 65 \<le> v \<and> v \<le> 90 then Some (v - 65)
      else if 97 \<le> v \<and> v \<le> 122 then Some (v - 71)
      else if 48 \<le> v \<and> v \<le> 57 then Some (v + 4)
      else if c = CHR ''+'' then Some 62 else if c = CHR ''/'' then Some 63 else None)"

abbreviation pad :: char where "pad \<equiv> CHR ''=''"

fun b64_encode :: "string \<Rightarrow> string" where
  "b64_encode [] = []"
| "b64_encode [a] =
     [b64_char (byte_val a div 4), b64_char (byte_val a mod 4 * 16), pad, pad]"
| "b64_encode [a, b] =
     [b64_char (byte_val a div 4), b64_char (byte_val a mod 4 * 16 + byte_val b div 16),
      b64_char (byte_val b mod 16 * 4), pad]"
| "b64_encode (a # b # c # s) =
     b64_char (byte_val a div 4) # b64_char (byte_val a mod 4 * 16 + byte_val b div 16)
     # b64_char (byte_val b mod 16 * 4 + byte_val c div 64) # b64_char (byte_val c mod 64)
     # b64_encode s"

text \<open>
  \<^verbatim>\<open>StdEncoding.DecodeString\<close> skips carriage returns and newlines, wants padding in the last
  group only and ignores the unused bits before it.
\<close>

fun b64_groups :: "string \<Rightarrow> string option" where
  "b64_groups [] = Some []"
| "b64_groups (p # q # r # t # s) =
     (case (b64_val p, b64_val q) of
        (Some a, Some b) \<Rightarrow>
          (if r = pad then (if t = pad \<and> s = [] then Some [byte_of (4 * a + b div 16)] else None)
           else (case b64_val r of
             None \<Rightarrow> None
           | Some c \<Rightarrow>
               (if t = pad
                then (if s = [] then Some [byte_of (4 * a + b div 16), byte_of (b mod 16 * 16 + c div 4)]
                      else None)
                else (case b64_val t of
                  None \<Rightarrow> None
                | Some d \<Rightarrow> map_option
                    (\<lambda>u. byte_of (4 * a + b div 16) # byte_of (b mod 16 * 16 + c div 4)
                         # byte_of (c mod 4 * 64 + d) # u) (b64_groups s)))))
      | _ \<Rightarrow> None)"
| "b64_groups _ = None"

definition b64_decode :: "string \<Rightarrow> string option" where
  "b64_decode s = b64_groups (filter (\<lambda>c. c \<noteq> nl \<and> c \<noteq> cr) s)"

lemma b64_val_char: "n < 64 \<Longrightarrow> b64_val (b64_char n) = Some n"
  by (auto simp: b64_val_def b64_char_def Let_def)

lemma b64_char_neq:
  assumes "n < 64"
  shows "b64_char n \<noteq> pad \<and> b64_char n \<noteq> nl \<and> b64_char n \<noteq> cr \<and> b64_char n \<noteq> sp"
proof -
  have "b64_val pad = None" "b64_val nl = None" "b64_val cr = None" "b64_val sp = None"
    by (simp_all add: b64_val_def)
  with b64_val_char [OF assms] show ?thesis by (metis option.distinct(1))
qed

text \<open>The bit regrouping of three bytes into four six-bit digits, on numbers.\<close>

lemma six_bit_bounds:
  fixes a b :: nat
  assumes "a < 256" "b < 256"
  shows "a div 4 < 64" "a mod 4 * 16 < 64" "a mod 16 * 4 < 64" "a mod 64 < 64"
    "a mod 4 * 16 + b div 16 < 64" "a mod 16 * 4 + b div 64 < 64"
proof -
  have m: "a mod 4 < 4" "a mod 16 < 16" by simp_all
  have d: "b div 16 < 16" "b div 64 < 4" using assms(2) by (simp_all add: less_mult_imp_div_less)
  show "a div 4 < 64" using assms(1) by (simp add: less_mult_imp_div_less)
  show "a mod 4 * 16 < 64" "a mod 16 * 4 < 64" "a mod 64 < 64" using m by simp_all
  show "a mod 4 * 16 + b div 16 < 64" "a mod 16 * 4 + b div 64 < 64" using m d by linarith+
qed

lemma six_bit_regroup:
  fixes a b c :: nat
  assumes "b < 256" "c < 256"
  shows "4 * (a div 4) + (a mod 4 * 16 + b div 16) div 16 = a"
    "(a mod 4 * 16 + b div 16) mod 16 * 16 + (b mod 16 * 4 + c div 64) div 4 = b"
    "(b mod 16 * 4 + c div 64) mod 4 * 64 + c mod 64 = c"
proof -
  have d: "b div 16 < 16" "c div 64 < 4" using assms by (simp_all add: less_mult_imp_div_less)
  have 1: "(a mod 4 * 16 + b div 16) div 16 = a mod 4" "(a mod 4 * 16 + b div 16) mod 16 = b div 16"
    using d by simp_all
  have 2: "(b mod 16 * 4 + c div 64) div 4 = b mod 16" "(b mod 16 * 4 + c div 64) mod 4 = c div 64"
    using d by simp_all
  show "4 * (a div 4) + (a mod 4 * 16 + b div 16) div 16 = a" by (simp add: 1)
  show "(a mod 4 * 16 + b div 16) mod 16 * 16 + (b mod 16 * 4 + c div 64) div 4 = b"
    using d(1) by (simp add: 1 2)
  show "(b mod 16 * 4 + c div 64) mod 4 * 64 + c mod 64 = c" using d(2) by (simp add: 2)
qed

lemmas byte_digit_bounds [simp] = six_bit_bounds [OF byte_val_bound byte_val_bound]
lemmas byte_regroup = six_bit_regroup [OF byte_val_bound byte_val_bound]

lemma b64_encode_chars: "c \<in> set (b64_encode s) \<Longrightarrow> c = pad \<or> (\<exists>n<64. c = b64_char n)"
proof (induction s rule: b64_encode.induct)
  case (2 a)
  then show ?case using byte_digit_bounds by fastforce
next
  case (3 a b)
  then show ?case using byte_digit_bounds by fastforce
next
  case (4 a b d s)
  then consider "c = b64_char (byte_val a div 4)"
    | "c = b64_char (byte_val a mod 4 * 16 + byte_val b div 16)"
    | "c = b64_char (byte_val b mod 16 * 4 + byte_val d div 64)"
    | "c = b64_char (byte_val d mod 64)" | "c \<in> set (b64_encode s)"
    by auto
  then show ?case using byte_digit_bounds 4 by cases blast+
qed simp

lemma b64_encode_no_ws:
  "c \<in> set (b64_encode s) \<Longrightarrow> c \<noteq> nl \<and> c \<noteq> cr \<and> c \<noteq> sp"
  using b64_encode_chars [of c s] b64_char_neq by auto

lemma byte_of_eqI: "n = byte_val c \<Longrightarrow> byte_of n = c"
  by simp

lemma b64_groups_encode: "b64_groups (b64_encode s) = Some s"
proof (induction s rule: b64_encode.induct)
  case (2 a)
  have "byte_of (4 * (byte_val a div 4) + byte_val a mod 4 * 16 div 16) = a"
    by (rule byte_of_eqI) simp
  then show ?case by (simp add: b64_val_char del: char_of_mod_256)
next
  case (3 a b)
  have "byte_of (4 * (byte_val a div 4) + (byte_val a mod 4 * 16 + byte_val b div 16) div 16) = a"
    by (rule byte_of_eqI) (rule byte_regroup(1))
  moreover have "byte_of ((byte_val a mod 4 * 16 + byte_val b div 16) mod 16 * 16
                          + byte_val b mod 16 * 4 div 4) = b"
    using six_bit_regroup(2) [of "byte_val b" 0 "byte_val a"] by (intro byte_of_eqI) simp
  ultimately show ?case by (simp only: b64_encode.simps b64_groups.simps)
      (simp add: b64_val_char b64_char_neq)
next
  case (4 a b c s)
  have "byte_of (4 * (byte_val a div 4) + (byte_val a mod 4 * 16 + byte_val b div 16) div 16) = a"
    and "byte_of ((byte_val a mod 4 * 16 + byte_val b div 16) mod 16 * 16
         + (byte_val b mod 16 * 4 + byte_val c div 64) div 4) = b"
    and "byte_of ((byte_val b mod 16 * 4 + byte_val c div 64) mod 4 * 64 + byte_val c mod 64) = c"
    by (rule byte_of_eqI, rule byte_regroup)+
  with 4 show ?case by (simp only: b64_encode.simps b64_groups.simps b64_val_char byte_digit_bounds
        option.case b64_char_neq [THEN conjunct1] if_False option.map prod.case)
qed simp

lemma b64_decode_encode [simp]: "b64_decode (b64_encode s) = Some s"
proof -
  have "filter (\<lambda>c. c \<noteq> nl \<and> c \<noteq> cr) (b64_encode s) = b64_encode s"
    using b64_encode_no_ws by (intro filter_True) blast
  then show ?thesis by (simp add: b64_decode_def b64_groups_encode)
qed

text \<open>A text codec loses nothing: what it encodes it decodes. Locale for its clients.\<close>

locale text_codec =
  fixes enc :: "'a \<Rightarrow> string" and dec :: "string \<Rightarrow> 'a option"
  assumes dec_enc: "dec (enc x) = Some x"
begin

lemma enc_inject: "enc x = enc y \<longleftrightarrow> x = y"
  by (metis dec_enc option.inject)

lemma dec_enc_eq: "s = enc x \<Longrightarrow> dec s = Some y \<Longrightarrow> x = y"
  by (simp add: dec_enc)

end

interpretation b64: text_codec b64_encode b64_decode
  by unfold_locales (rule b64_decode_encode)

end
