(* ===== verification/Kms_Signer.thy ===== *)
theory Kms_Signer
  imports Go_Encoding
begin

unbundle bit_operations_syntax

section \<open>Keys, primitives and the KMS signer (\<^verbatim>\<open>internal/note/kms.go\<close>, signing)\<close>

text \<open>
  The cryptographic primitives (SHA-256, Ed25519, ML-DSA-44) and the Cloud KMS client are
  parameters. What the program does with them is modelled: the integrity checks around a
  remote signature (CRC32C in both directions) and the check of the signature against the
  cached public key. The checksum is computed, not assumed.
\<close>

datatype pubkey = EdPub string | MldsaPub string | OtherPub string

text \<open>What a \<^verbatim>\<open>crypto.Signer\<close> holds: a local seed, or a handle to a KMS key with its cached public key.\<close>

datatype signing_key = EdPriv string | MldsaPriv string | KmsKey string pubkey

record sign_response =
  sr_Signature :: string
  sr_VerifiedDataCrc32C :: bool
  sr_SignatureCrc32C :: "int option"

datatype kms_algorithm = EC_SIGN_ED25519 | PQ_SIGN_ML_DSA_44 | OTHER_ALGORITHM string

datatype kms_format = FORMAT_UNSPECIFIED | NIST_PQC | OTHER_FORMAT string

text \<open>\<open>pk_Data\<close> and its checksum are the \<^verbatim>\<open>PublicKey\<close> field of the response, which may be nil.\<close>

record public_key_response =
  pk_Pem :: string
  pk_Format :: kms_format
  pk_Data :: "(string \<times> int option) option"

record 'w crypto =
  sha256 :: "string \<Rightarrow> string"
  ed25519_Public :: "string \<Rightarrow> string"
  ed25519_Sign :: "string \<Rightarrow> string \<Rightarrow> string"
  ed25519_Verify :: "string \<Rightarrow> string \<Rightarrow> string \<Rightarrow> bool"
  ed25519_GenerateKey :: "('w, string) io"
  mldsa_NewPrivateKey :: "string \<Rightarrow> string res"
  mldsa_Public :: "string \<Rightarrow> string"
  mldsa_Sign :: "string \<Rightarrow> string \<Rightarrow> string res"
  mldsa_Verify :: "string \<Rightarrow> string \<Rightarrow> string \<Rightarrow> unit res"
  mldsa_NewPublicKey :: "string \<Rightarrow> string res"
  mldsa_GenerateKey :: "('w, string) io"
  NewKeyManagementClient :: "('w, unit) io"
  AsymmetricSign :: "string \<Rightarrow> string \<Rightarrow> int \<Rightarrow> ('w, sign_response) io"
  GetCryptoKeyVersion :: "string \<Rightarrow> ('w, kms_algorithm) io"
  GetPublicKey :: "string \<Rightarrow> kms_format \<Rightarrow> ('w, public_key_response) io"
  pem_Decode :: "string \<Rightarrow> string option"
  ParsePKIXPublicKey :: "string \<Rightarrow> pubkey res"
  time_Now_Unix :: "'w \<Rightarrow> int \<times> 'w"

subsection \<open>CRC32C\<close>

text \<open>\<^verbatim>\<open>crc32.Checksum\<close> with the Castagnoli polynomial, bit by bit.\<close>

definition crc_poly :: uint32 where
  "crc_poly = 0x82F63B78"

definition crc_bit :: "uint32 \<Rightarrow> uint32" where
  "crc_bit c = (if bit c 0 then drop_bit 1 c XOR crc_poly else drop_bit 1 c)"

definition crc_byte :: "uint32 \<Rightarrow> char \<Rightarrow> uint32" where
  "crc_byte c b = (crc_bit ^^ 8) (c XOR of_nat (byte_val b))"

definition crc32c :: "string \<Rightarrow> uint32" where
  "crc32c s = NOT (fold (\<lambda>b c. crc_byte c b) s (NOT 0))"

subsection \<open>\<^verbatim>\<open>kmsSigner.Sign\<close>\<close>

definition kmsSigner_Sign :: "'w crypto \<Rightarrow> string \<Rightarrow> pubkey \<Rightarrow> string \<Rightarrow> ('w, string) io" where
  "kmsSigner_Sign C resourceName pub message =
     (let digest = message; crc = crc32c digest in
      ebind (ewrap ''KMS AsymmetricSign: %w'' [] (AsymmetricSign C resourceName digest (uint crc)))
        (\<lambda>resp.
          if \<not> sr_VerifiedDataCrc32C resp then
            efail (Errorf ''KMS AsymmetricSign: request corrupted in transit'' [])
          else case sr_SignatureCrc32C resp of
            None \<Rightarrow> efail (Panic ''invalid memory address or nil pointer dereference'')
          | Some respCRC \<Rightarrow>
          if uint (crc32c (sr_Signature resp)) \<noteq> respCRC then
            efail (Errorf ''KMS AsymmetricSign: response corrupted in transit'' [])
          else
            case pub of
              EdPub p \<Rightarrow>
                (if \<not> ed25519_Verify C p digest (sr_Signature resp) then
                   efail (Errorf ''KMS AsymmetricSign: signature does not verify against cached public key'' [])
                 else eret (sr_Signature resp))
            | MldsaPub p \<Rightarrow>
                ebind (elift (rwrap ''KMS AsymmetricSign: signature does not verify against cached public key: %w''
                         [] (mldsa_Verify C p digest (sr_Signature resp))))
                  (\<lambda>_. eret (sr_Signature resp))
            | OtherPub t \<Rightarrow> efail (Errorf ''unsupported KMS public key type: %T'' [FStr t])))"

text \<open>\<^verbatim>\<open>crypto.Signer.Sign\<close>, dispatched on what the signer is.\<close>

definition signer_Sign :: "'w crypto \<Rightarrow> signing_key \<Rightarrow> string \<Rightarrow> ('w, string) io" where
  "signer_Sign C key message =
     (case key of
        EdPriv seed \<Rightarrow> eret (ed25519_Sign C seed message)
      | MldsaPriv seed \<Rightarrow> elift (mldsa_Sign C seed message)
      | KmsKey resourceName pub \<Rightarrow> kmsSigner_Sign C resourceName pub message)"

text \<open>\<^verbatim>\<open>crypto.Signer.Public\<close>: of a KMS key, the public key cached from KMS.\<close>

definition signer_Public :: "'w crypto \<Rightarrow> signing_key \<Rightarrow> pubkey" where
  "signer_Public C key =
     (case key of
        EdPriv seed \<Rightarrow> EdPub (ed25519_Public C seed)
      | MldsaPriv seed \<Rightarrow> MldsaPub (mldsa_Public C seed)
      | KmsKey resourceName pub \<Rightarrow> pub)"

text \<open>A KMS signature that is returned verifies under the cached key and arrived intact.\<close>

definition verifies :: "'w crypto \<Rightarrow> pubkey \<Rightarrow> string \<Rightarrow> string \<Rightarrow> bool" where
  "verifies C pub msg sig =
     (case pub of EdPub p \<Rightarrow> ed25519_Verify C p msg sig
      | MldsaPub p \<Rightarrow> mldsa_Verify C p msg sig = Inr () | OtherPub t \<Rightarrow> False)"

lemma kmsSigner_Sign_Inr_iff:
  "kmsSigner_Sign C r pub msg w = (Inr sig, w') \<longleftrightarrow>
     (\<exists>resp. AsymmetricSign C r msg (uint (crc32c msg)) w = (Inr resp, w') \<and>
        sr_VerifiedDataCrc32C resp \<and> sr_SignatureCrc32C resp = Some (uint (crc32c (sr_Signature resp))) \<and>
        sig = sr_Signature resp \<and> verifies C pub msg sig)"
proof -
  have "kmsSigner_Sign C r pub msg w = (Inr sig, w') \<longleftrightarrow>
     (\<exists>resp w1. AsymmetricSign C r msg (uint (crc32c msg)) w = (Inr resp, w1) \<and> w' = w1 \<and>
        sr_VerifiedDataCrc32C resp \<and> sr_SignatureCrc32C resp = Some (uint (crc32c (sr_Signature resp))) \<and>
        sig = sr_Signature resp \<and> verifies C pub msg sig)"
    unfolding kmsSigner_Sign_def Let_def ebind_Inr_iff ewrap_Inr
    by (rule ex_cong1)+ (cases pub; auto simp: verifies_def ebind_elift split: sum.splits option.splits)
  then show ?thesis by metis
qed

subsection \<open>What the checksum detects\<close>

text \<open>Each step of the checksum is invertible, so two strings that differ in one byte never agree.\<close>

lemma crc_bit_top: "bit (crc_bit c) 31 \<longleftrightarrow> bit c 0"
proof -
  have "bit crc_poly 31" by (simp add: crc_poly_def bit_iff_odd)
  moreover have "\<not> bit (drop_bit 1 c) 31" using bit_imp_le_length [of c 32] by (auto simp: bit_drop_bit_eq)
  ultimately show ?thesis by (simp add: crc_bit_def bit_xor_iff)
qed

lemma crc_bit_inj: "crc_bit c = crc_bit d \<Longrightarrow> c = d"
proof -
  assume h: "crc_bit c = crc_bit d"
  with crc_bit_top [of c] crc_bit_top [of d] have b: "bit c 0 \<longleftrightarrow> bit d 0" by simp
  have "drop_bit 1 c = drop_bit 1 d"
  proof (cases "bit c 0")
    case True
    with h b have "drop_bit 1 c XOR crc_poly = drop_bit 1 d XOR crc_poly" by (simp add: crc_bit_def)
    then have "(drop_bit 1 c XOR crc_poly) XOR crc_poly = (drop_bit 1 d XOR crc_poly) XOR crc_poly" by simp
    then show ?thesis by (simp add: xor.assoc)
  qed (use h b in \<open>simp add: crc_bit_def\<close>)
  then have "bit c (Suc n) \<longleftrightarrow> bit d (Suc n)" for n by (metis bit_drop_bit_eq comp_apply plus_1_eq_Suc)
  with b show "c = d" by (intro bit_eqI) (metis not0_implies_Suc)
qed

lemma crc_byte_inj: "crc_byte c b = crc_byte d b' \<Longrightarrow> c XOR of_nat (byte_val b) = d XOR of_nat (byte_val b')"
proof -
  have "inj crc_bit" by (rule injI) (rule crc_bit_inj)
  then have "inj (crc_bit ^^ 8)" by (rule inj_fn)
  then show "crc_byte c b = crc_byte d b' \<Longrightarrow> ?thesis" by (simp add: crc_byte_def inj_eq)
qed

lemma crc_byte_state: "crc_byte c b = crc_byte d b \<longleftrightarrow> c = d"
proof
  assume "crc_byte c b = crc_byte d b"
  from crc_byte_inj [OF this] have "(c XOR of_nat (byte_val b)) XOR of_nat (byte_val b) = (d XOR of_nat (byte_val b)) XOR of_nat (byte_val b)"
    by (rule arg_cong)
  then show "c = d" by (simp add: xor.assoc)
qed simp

lemma crc_byte_data: "crc_byte c b = crc_byte c b' \<longleftrightarrow> b = b'"
proof
  assume "crc_byte c b = crc_byte c b'"
  from crc_byte_inj [OF this] have "c XOR (c XOR of_nat (byte_val b)) = c XOR (c XOR of_nat (byte_val b'))" by simp
  then have "(of_nat (byte_val b) :: uint32) = of_nat (byte_val b')" by (simp flip: xor.assoc)
  then have "unat (of_nat (byte_val b) :: uint32) = unat (of_nat (byte_val b') :: uint32)" by simp
  moreover have "byte_val b < 256" "byte_val b' < 256" by simp_all
  ultimately have "byte_val b = byte_val b'" by (simp add: unat_of_nat)
  then show "b = b'" by simp
qed simp

lemma fold_crc_state: "fold (\<lambda>b c. crc_byte c b) s c = fold (\<lambda>b c. crc_byte c b) s d \<longleftrightarrow> c = d"
  by (induction s arbitrary: c d) (simp_all add: crc_byte_state)

lemma crc32c_one_byte: "crc32c (a @ x # b) = crc32c (a @ y # b) \<longleftrightarrow> x = y"
  by (simp add: crc32c_def fold_crc_state crc_byte_data)
end
