(* ===== verification/Note.thy ===== *)
theory Note
  imports Kms_Signer
begin

section \<open>Signed notes and keys (\<^verbatim>\<open>internal/note/note.go\<close>)\<close>

text \<open>
  The C2SP signed-note format: keys and their text encodings, signing and cosigning a body,
  appending a signature, splitting a note, verifying a line. The theorems are the round
  trips of the three encodings (signature line, verifier key, private key) and the
  guards on roles and algorithms.
\<close>

type_synonym SigType = char

definition Ed25519Origin :: SigType where "Ed25519Origin = CHR 0x01"
definition Ed25519Cosigner :: SigType where "Ed25519Cosigner = CHR 0x04"
definition MLDSA44 :: SigType where "MLDSA44 = CHR 0x06"

lemmas SigType_defs = Ed25519Origin_def Ed25519Cosigner_def MLDSA44_def

datatype KeyRole = RoleOrigin | RoleCosigner

definition cosignatureV1Prefix :: string where
  "cosignatureV1Prefix = ''cosignature/v1''"

text \<open>The em dash, in UTF-8, and a space.\<close>

definition SigPrefix :: string where
  "SigPrefix = [CHR 0xE2, CHR 0x80, CHR 0x94, sp]"

definition ed25519PubKeySize :: nat where "ed25519PubKeySize = 32"
definition ed25519SigSize :: nat where "ed25519SigSize = 64"
definition ed25519SeedSize :: nat where "ed25519SeedSize = 32"
definition mldsa44PubKeySize :: nat where "mldsa44PubKeySize = 1312"
definition mldsa44SeedSize :: nat where "mldsa44SeedSize = 32"

record Signer =
  s_Name :: string
  s_SigType :: SigType
  s_Role :: KeyRole
  s_hash :: string
  s_signer :: signing_key
  s_pub :: pubkey
  s_seed :: string

definition b64_DecodeString :: "string \<Rightarrow> string res" where
  "b64_DecodeString s = (case b64_decode s of Some b \<Rightarrow> Inr b | None \<Rightarrow> Inl (Errorf ''illegal base64 data'' []))"

subsection \<open>Keys\<close>

definition pubKeyBytes :: "pubkey \<Rightarrow> string res" where
  "pubKeyBytes pub =
     (case pub of EdPub k \<Rightarrow> Inr k | MldsaPub k \<Rightarrow> Inr k
      | OtherPub t \<Rightarrow> Inl (Panic (''unsupported public key type: '' @ t)))"

definition keyHash :: "'w crypto \<Rightarrow> string \<Rightarrow> string \<Rightarrow> char \<Rightarrow> string" where
  "keyHash C name pubBytes typeByte = take 4 (sha256 C ((name @ [nl]) @ [typeByte] @ pubBytes))"

definition newEd25519Signer :: "'w crypto \<Rightarrow> string \<Rightarrow> string \<Rightarrow> SigType \<Rightarrow> KeyRole \<Rightarrow> Signer" where
  "newEd25519Signer C name seed sigType role =
     \<lparr>s_Name = name, s_SigType = sigType, s_Role = role,
      s_hash = keyHash C name (ed25519_Public C seed) sigType,
      s_signer = EdPriv seed, s_pub = EdPub (ed25519_Public C seed), s_seed = seed\<rparr>"

definition newMLDSA44Signer :: "'w crypto \<Rightarrow> string \<Rightarrow> string \<Rightarrow> KeyRole \<Rightarrow> Signer" where
  "newMLDSA44Signer C name seed role =
     \<lparr>s_Name = name, s_SigType = MLDSA44, s_Role = role,
      s_hash = keyHash C name (mldsa_Public C seed) MLDSA44,
      s_signer = MldsaPriv seed, s_pub = MldsaPub (mldsa_Public C seed), s_seed = seed\<rparr>"

definition GenerateKey :: "'w crypto \<Rightarrow> string \<Rightarrow> SigType \<Rightarrow> KeyRole \<Rightarrow> ('w, Signer) io" where
  "GenerateKey C name sigType role =
     (if sigType = Ed25519Origin \<or> sigType = Ed25519Cosigner then
        ebind (ed25519_GenerateKey C) (\<lambda>seed. eret (newEd25519Signer C name seed sigType role))
      else if sigType = MLDSA44 then
        ebind (mldsa_GenerateKey C) (\<lambda>seed. eret (newMLDSA44Signer C name seed role))
      else efail (Errorf ''unsupported signature type: 0x%02x'' [FNat (byte_val sigType)]))"

definition NewSigner :: "'w crypto \<Rightarrow> string \<Rightarrow> string \<Rightarrow> SigType \<Rightarrow> KeyRole \<Rightarrow> Signer res" where
  "NewSigner C name seed sigType role =
     (if sigType = Ed25519Origin \<or> sigType = Ed25519Cosigner then
        if length seed \<noteq> ed25519SeedSize then
          Inl (Errorf ''invalid Ed25519 seed size: got %d, want %d'' [FNat (length seed), FNat ed25519SeedSize])
        else Inr (newEd25519Signer C name seed sigType role)
      else if sigType = MLDSA44 then
        if length seed \<noteq> mldsa44SeedSize then
          Inl (Errorf ''invalid ML-DSA-44 seed size: got %d, want %d'' [FNat (length seed), FNat mldsa44SeedSize])
        else rbind (rwrap ''creating ML-DSA-44 key: %w'' [] (mldsa_NewPrivateKey C seed))
               (\<lambda>priv. Inr (newMLDSA44Signer C name priv role))
      else Inl (Errorf ''unsupported signature type: 0x%02x'' [FNat (byte_val sigType)]))"

definition FormatVKey :: "'w crypto \<Rightarrow> string \<Rightarrow> pubkey \<Rightarrow> SigType \<Rightarrow> string res" where
  "FormatVKey C name pub sigType =
     rbind (pubKeyBytes pub) (\<lambda>pubBytes.
       Inr (name @ ''+'' @ Sprintf08x (Uint32 (keyHash C name pubBytes sigType)) @ ''+''
            @ b64_encode (sigType # pubBytes)))"

definition VKey :: "'w crypto \<Rightarrow> Signer \<Rightarrow> string res" where
  "VKey C s = FormatVKey C (s_Name s) (s_pub s) (s_SigType s)"

definition SKey :: "Signer \<Rightarrow> string res" where
  "SKey s =
     (if length (s_seed s) = 0 then Inl (Errorf ''signer %q has no local key material'' [FStr (s_Name s)])
      else Inr (''PRIVATE+KEY+'' @ s_Name s @ ''+'' @ Sprintf08x (Uint32 (s_hash s)) @ ''+''
                @ b64_encode (s_SigType s # s_seed s)))"

definition Seed :: "Signer \<Rightarrow> string" where
  "Seed s = s_seed s"

definition ParseVKey :: "'w crypto \<Rightarrow> string \<Rightarrow> (string \<times> SigType \<times> pubkey) res" where
  "ParseVKey C vkey =
     (let parts = SplitN vkey (CHR ''+'') 3 in
      if length parts \<noteq> 3 then Inl (Errorf ''invalid vkey: %q'' [FStr vkey])
      else
        rbind (rwrap ''invalid vkey base64: %w'' [] (b64_DecodeString (parts ! 2))) (\<lambda>data.
          if length data < 1 then Inl (Errorf ''empty vkey data'' [])
          else
            let sigType = data ! 0; keyData = drop 1 data in
            if sigType = Ed25519Origin \<or> sigType = Ed25519Cosigner then
              if length keyData \<noteq> ed25519PubKeySize then
                Inl (Errorf ''invalid Ed25519 public key size: got %d, want %d''
                       [FNat (length keyData), FNat ed25519PubKeySize])
              else Inr (parts ! 0, sigType, EdPub keyData)
            else if sigType = MLDSA44 then
              if length keyData \<noteq> mldsa44PubKeySize then
                Inl (Errorf ''invalid ML-DSA-44 public key size: got %d, want %d''
                       [FNat (length keyData), FNat mldsa44PubKeySize])
              else rbind (rwrap ''parsing ML-DSA-44 public key: %w'' [] (mldsa_NewPublicKey C keyData))
                     (\<lambda>pub. Inr (parts ! 0, sigType, MldsaPub pub))
            else Inl (Errorf ''unsupported key type: 0x%02x'' [FNat (byte_val sigType)])))"

definition ReadKeyData :: "'w crypto \<Rightarrow> string \<Rightarrow> KeyRole \<Rightarrow> Signer res" where
  "ReadKeyData C data role =
     (let skey = TrimSpace data in
      case CutPrefix skey ''PRIVATE+KEY+'' of
        None \<Rightarrow> Inl (Errorf ''not a private key: want %q'' [FStr ''PRIVATE+KEY+<name>+<hash>+<base64>''])
      | Some rest \<Rightarrow>
        let parts = SplitN rest (CHR ''+'') 3 in
        if length parts \<noteq> 3 then Inl (Errorf ''malformed private key: want %q'' [FStr ''PRIVATE+KEY+<name>+<hash>+<base64>''])
        else
          let name = parts ! 0 in
          if name = [] then Inl (Errorf ''malformed private key: no name'' [])
          else
            rbind (rwrap ''decoding private key: %w'' [] (b64_DecodeString (parts ! 2))) (\<lambda>key.
              if length key < 2 then Inl (Errorf ''malformed private key: no key material'' [])
              else
                let sigType = key ! 0; seed = drop 1 key in
                rbind (if sigType = Ed25519Origin then
                         if role \<noteq> RoleOrigin
                         then Inl (Errorf ''key %q is an origin key, not a cosigner key'' [FStr name])
                         else Inr ()
                       else if sigType = Ed25519Cosigner then
                         if role \<noteq> RoleCosigner
                         then Inl (Errorf ''key %q is a cosigner key, not an origin key'' [FStr name])
                         else Inr ()
                       else if sigType = MLDSA44 then Inr ()
                       else Inl (Errorf ''unsupported signature type: 0x%02x'' [FNat (byte_val sigType)]))
                  (\<lambda>_. rbind (NewSigner C name seed sigType role) (\<lambda>signer.
                    let want = Sprintf08x (Uint32 (s_hash signer)) in
                    if parts ! 1 \<noteq> want then
                      Inl (Errorf ''key hash %s does not match key %q: want %s''
                             [FStr (parts ! 1), FStr name, FStr want])
                    else Inr signer))))"

text \<open>\<^verbatim>\<open>ReadKeyFile\<close>, the contents of the file being given by \<open>read_file\<close>.\<close>

definition ReadKeyFile :: "'w crypto \<Rightarrow> (string \<Rightarrow> ('w, string) io) \<Rightarrow> string \<Rightarrow> KeyRole \<Rightarrow> ('w, Signer) io" where
  "ReadKeyFile C read_file path role = ebind (read_file path) (\<lambda>data. elift (ReadKeyData C data role))"

subsection \<open>Notes\<close>

definition ExtractBody :: "string \<Rightarrow> string res" where
  "ExtractBody note =
     (case Index note ([nl, nl] @ SigPrefix) of
        None \<Rightarrow> Inl (Errorf ''no signatures found in note'' [])
      | Some idx \<Rightarrow> Inr (take (idx + 1) note))"

definition ParseSignedNote :: "string \<Rightarrow> (string \<times> string list) res" where
  "ParseSignedNote data =
     rbind (ExtractBody data) (\<lambda>body.
       let rest = drop (length body + 1) data in
       Inr (body, filter (\<lambda>line. HasPrefix line SigPrefix) (Split rest nl)))"

definition AppendSignature :: "string \<Rightarrow> string \<Rightarrow> string" where
  "AppendSignature signedNote sigLine =
     (let n = (if HasSuffix signedNote [nl] then signedNote else signedNote @ [nl])
      in n @ sigLine @ [nl])"

definition sig_line :: "string \<Rightarrow> string \<Rightarrow> string" where
  "sig_line name raw = SigPrefix @ name @ [sp] @ b64_encode raw"

definition Sign :: "'w crypto \<Rightarrow> string \<Rightarrow> Signer \<Rightarrow> ('w, string) io" where
  "Sign C body signer =
     (if s_Role signer \<noteq> RoleOrigin then efail (Errorf ''Sign requires an origin key, got cosigner'' [])
      else
        let body = (if HasSuffix body [nl] then body else body @ [nl]) in
        if s_SigType signer \<noteq> Ed25519Origin then
          efail (Errorf (''unsupported origin signature type: 0x%02x '' @
                ''(a plain note signature is Ed25519; an ML-DSA-44 key signs a '' @
                ''tlog-checkpoint, via SignTlogCheckpoint)'') [FNat (byte_val (s_SigType signer))])
        else
          ebind (ewrap ''Ed25519 sign: %w'' [] (signer_Sign C (s_signer signer) body)) (\<lambda>sig.
            let raw = s_hash signer @ sig; line = sig_line (s_Name signer) raw
            in eret (body @ [nl] @ line @ [nl])))"

definition ed25519CosignMessage :: "uint64 \<Rightarrow> string \<Rightarrow> string" where
  "ed25519CosignMessage timestamp body =
     cosignatureV1Prefix @ [nl] @ ''time '' @ FormatUint10 timestamp @ [nl] @ body"

definition Cosign :: "'w crypto \<Rightarrow> string \<Rightarrow> Signer \<Rightarrow> ('w, string) io" where
  "Cosign C signedNote signer =
     (if s_Role signer \<noteq> RoleCosigner then efail (Errorf ''Cosign requires a cosigner key, got origin'' [])
      else
        ebind (elift (rwrap ''extracting body: %w'' [] (ExtractBody signedNote))) (\<lambda>body.
          if s_SigType signer \<noteq> Ed25519Cosigner then
            efail (Errorf (''unsupported cosigner signature type: 0x%02x '' @
                ''(this construction is Ed25519; an ML-DSA-44 key cosigns a '' @
                ''tlog-checkpoint, via CosignTlogCheckpoint)'') [FNat (byte_val (s_SigType signer))])
          else
            (\<lambda>w. case time_Now_Unix C w of (now, w1) \<Rightarrow>
              (let timestamp = of_int now in
               ebind (ewrap ''Ed25519 cosign: %w'' []
                        (signer_Sign C (s_signer signer) (ed25519CosignMessage timestamp body)))
                 (\<lambda>sig. let raw = s_hash signer @ PutUint64 timestamp @ sig
                        in eret (sig_line (s_Name signer) raw)) w1))))"

definition DecodeSigLine :: "string \<Rightarrow> string res" where
  "DecodeSigLine line =
     (if \<not> HasPrefix line SigPrefix then Inl (Errorf ''not a signature line'' [])
      else
        let rest = TrimPrefix line SigPrefix in
        case Index rest [sp] of
          None \<Rightarrow> Inl (Errorf ''invalid signature line'' [])
        | Some i \<Rightarrow> b64_DecodeString (drop (i + 1) rest))"

text \<open>Slicing \<^verbatim>\<open>raw[4:]\<close> comes after the length check, so it never panics.\<close>

definition VerifySignature :: "'w crypto \<Rightarrow> string \<Rightarrow> string \<Rightarrow> pubkey \<Rightarrow> SigType \<Rightarrow> unit res" where
  "VerifySignature C body sigLine pub sigType =
     rbind (DecodeSigLine sigLine) (\<lambda>raw.
       if sigType \<noteq> Ed25519Origin then
         Inl (Errorf ''unsupported origin signature type: 0x%02x'' [FNat (byte_val sigType)])
       else if length raw < 4 + ed25519SigSize then Inl (Errorf ''Ed25519 signature too short'' [])
       else case pub of
         EdPub edPub \<Rightarrow>
           if \<not> ed25519_Verify C edPub body (drop 4 raw) then
             Inl (Errorf ''signature verification failed'' [])
           else Inr ()
       | _ \<Rightarrow> Inl (Errorf ''expected Ed25519 public key'' []))"

definition VerifyCosignature :: "'w crypto \<Rightarrow> string \<Rightarrow> string \<Rightarrow> pubkey \<Rightarrow> SigType \<Rightarrow> unit res" where
  "VerifyCosignature C body sigLine pub sigType =
     rbind (DecodeSigLine sigLine) (\<lambda>raw.
       if sigType \<noteq> Ed25519Cosigner then
         Inl (Errorf ''unsupported cosigner signature type: 0x%02x'' [FNat (byte_val sigType)])
       else if length raw < 4 + 8 + ed25519SigSize then Inl (Errorf ''Ed25519 cosignature too short'' [])
       else case pub of
         EdPub edPub \<Rightarrow>
           let timestamp = Uint64 (take 8 (drop 4 raw)) in
           if \<not> ed25519_Verify C edPub (ed25519CosignMessage timestamp body) (drop (4 + 8) raw) then
             Inl (Errorf ''cosignature verification failed'' [])
           else Inr ()
       | _ \<Rightarrow> Inl (Errorf ''expected Ed25519 public key'' []))"

subsection \<open>Contracts of the primitives\<close>

definition ed25519_contract :: "'w crypto \<Rightarrow> bool" where
  "ed25519_contract C \<longleftrightarrow>
     (\<forall>seed msg. ed25519_Verify C (ed25519_Public C seed) msg (ed25519_Sign C seed msg) \<and>
        length (ed25519_Sign C seed msg) = ed25519SigSize \<and>
        length (ed25519_Public C seed) = ed25519PubKeySize) \<and>
     (\<forall>pub msg sig. ed25519_Verify C pub msg sig \<longrightarrow> length sig = ed25519SigSize)"

definition sha256_contract :: "'w crypto \<Rightarrow> bool" where
  "sha256_contract C \<longleftrightarrow> (\<forall>s. length (sha256 C s) = 32)"

definition mldsa_contract :: "'w crypto \<Rightarrow> bool" where
  "mldsa_contract C \<longleftrightarrow>
     (\<forall>seed. length seed = mldsa44SeedSize \<longrightarrow>
        mldsa_NewPrivateKey C seed = Inr seed \<and> length (mldsa_Public C seed) = mldsa44PubKeySize \<and>
        mldsa_NewPublicKey C (mldsa_Public C seed) = Inr (mldsa_Public C seed))"

subsection \<open>Signature lines\<close>

text \<open>A key name that can stand in a note or a key: nonempty, no plus, no space, no newline.\<close>

definition name_ok :: "string \<Rightarrow> bool" where
  "name_ok n \<longleftrightarrow> n \<noteq> [] \<and> CHR ''+'' \<notin> set n \<and> sp \<notin> set n \<and> nl \<notin> set n"

lemma b64_DecodeString_encode [simp]: "b64_DecodeString (b64_encode s) = Inr s"
  by (simp add: b64_DecodeString_def)

lemma SigPrefix_simps [simp]: "SigPrefix \<noteq> []" "nl \<notin> set SigPrefix" "hd SigPrefix \<noteq> nl"
  by (auto simp: SigPrefix_def)

lemma DecodeSigLine_sig_line: "sp \<notin> set name \<Longrightarrow> DecodeSigLine (sig_line name raw) = Inr raw"
proof -
  assume n: "sp \<notin> set name"
  have "Index (name @ sp # b64_encode raw) [sp] = Some (length name)" by (rule Index_char_append [OF n])
  then show ?thesis by (simp add: DecodeSigLine_def sig_line_def)
qed

lemma sig_line_no_nl: "nl \<notin> set name \<Longrightarrow> nl \<notin> set (sig_line name raw)"
  using b64_encode_no_ws [of nl raw] by (auto simp: sig_line_def SigPrefix_def)

subsection \<open>Splitting and extending a note\<close>

text \<open>
  A note text ends in a newline and no line of it could be taken for the start of the
  signatures: nowhere in it is a blank line followed by a signature prefix.
\<close>

definition note_sep :: string where
  "note_sep = [nl, nl] @ SigPrefix"

definition body_ok :: "string \<Rightarrow> bool" where
  "body_ok b \<longleftrightarrow> b \<noteq> [] \<and> last b = nl \<and> \<not> sublist note_sep (b @ [nl])"

lemma note_sep_overlap:
  "prefix note_sep (x @ nl # nl # y) \<Longrightarrow> x \<noteq> [] \<Longrightarrow> prefix note_sep x"
  by (auto simp: note_sep_def SigPrefix_def prefix_def append_eq_Cons_conv)

lemma Index_note_body:
  assumes "body_ok b"
  shows "Index (b @ [nl] @ SigPrefix @ rest) note_sep = Some (length b - 1)"
proof -
  obtain c where b: "b = c @ [nl]" using assms by (metis body_ok_def append_butlast_last_id)
  have "Index (c @ note_sep @ rest) note_sep = Some (length c)"
  proof (rule Index_append_first)
    fix j assume j: "j < length c"
    show "\<not> prefix note_sep (drop j c @ note_sep @ rest)"
    proof
      assume "prefix note_sep (drop j c @ note_sep @ rest)"
      then have "prefix note_sep (drop j c)"
        using j note_sep_overlap [of "drop j c" "SigPrefix @ rest"] by (simp add: note_sep_def)
      then have "sublist note_sep (drop j c @ nl # [nl])"
        by (simp add: prefix_imp_sublist sublist_append)
      moreover have "suffix (drop j c @ nl # [nl]) (b @ [nl])"
        using b by (simp add: suffix_drop)
      ultimately have "sublist note_sep (b @ [nl])"
        by (meson suffix_imp_sublist sublist_order.order_trans)
      with assms show False by (simp add: body_ok_def)
    qed
  qed
  with b show ?thesis by (simp add: note_sep_def)
qed

lemma ExtractBody_note: "body_ok b \<Longrightarrow> ExtractBody (b @ [nl] @ SigPrefix @ rest) = Inr b"
proof -
  assume b: "body_ok b"
  then have "Suc (length b - 1) = length b" by (cases b) (auto simp: body_ok_def)
  with Index_note_body [OF b, of rest] show ?thesis
    by (simp add: ExtractBody_def note_sep_def)
qed

text \<open>A note with its signature lines, in the written form.\<close>

definition note_text :: "string \<Rightarrow> string list \<Rightarrow> string" where
  "note_text body lines = body @ [nl] @ concat (map (\<lambda>l. l @ [nl]) lines)"

definition sig_lines_ok :: "string list \<Rightarrow> bool" where
  "sig_lines_ok lines \<longleftrightarrow> lines \<noteq> [] \<and> (\<forall>l\<in>set lines. HasPrefix l SigPrefix \<and> nl \<notin> set l)"

lemma ExtractBody_note_text:
  "body_ok body \<Longrightarrow> sig_lines_ok lines \<Longrightarrow> ExtractBody (note_text body lines) = Inr body"
proof -
  assume b: "body_ok body" and l: "sig_lines_ok lines"
  then obtain x xs where "lines = (SigPrefix @ x) # xs"
    by (cases lines) (auto simp: sig_lines_ok_def prefix_def)
  then show ?thesis using ExtractBody_note [OF b] by (simp add: note_text_def)
qed

lemma Split_lines: "(\<forall>l\<in>set ls. nl \<notin> set l) \<Longrightarrow> Split (concat (map (\<lambda>l. l @ [nl]) ls)) nl = ls @ [[]]"
  by (induction ls) (auto simp: Split_append)

lemma ParseSignedNote_note_text:
  "body_ok body \<Longrightarrow> sig_lines_ok lines \<Longrightarrow> ParseSignedNote (note_text body lines) = Inr (body, lines)"
  by (simp add: ParseSignedNote_def ExtractBody_note_text)
     (simp add: note_text_def Split_lines sig_lines_ok_def)

lemma AppendSignature_note_text:
  "AppendSignature (note_text body lines) line = note_text body (lines @ [line])"
proof -
  have "suffix [nl] (note_text body lines)"
    by (cases lines rule: rev_cases) (auto simp: note_text_def suffix_def)
  then show ?thesis by (simp add: AppendSignature_def note_text_def)
qed

subsection \<open>Key encodings\<close>

lemma plus_not_hex: "CHR ''+'' \<notin> set (Sprintf08x v)"
  using set_Sprintf08x [of "CHR ''+''" v] by (auto simp: lower_hex_char_def)

lemma SplitN_key:
  assumes "CHR ''+'' \<notin> set name"
  shows "SplitN (name @ CHR ''+'' # Sprintf08x h @ CHR ''+'' # d) (CHR ''+'') 3 = [name, Sprintf08x h, d]"
  using SplitN_3 [OF assms plus_not_hex, of h d] by simp

text \<open>A signer built by \<^verbatim>\<open>NewSigner\<close> or \<^verbatim>\<open>GenerateKey\<close>: its fields all follow from its name, type and seed.\<close>

definition local_signer :: "'w crypto \<Rightarrow> Signer \<Rightarrow> bool" where
  "local_signer C s \<longleftrightarrow>
     length (s_seed s) = 32 \<and>
     ((s_SigType s = Ed25519Origin \<or> s_SigType s = Ed25519Cosigner) \<and>
        s = newEd25519Signer C (s_Name s) (s_seed s) (s_SigType s) (s_Role s) \<or>
      s_SigType s = MLDSA44 \<and> s = newMLDSA44Signer C (s_Name s) (s_seed s) (s_Role s))"

lemma NewSigner_Inr_iff:
  assumes "mldsa_contract C"
  shows "NewSigner C name seed t role = Inr s \<longleftrightarrow>
           local_signer C s \<and> s_Name s = name \<and> s_seed s = seed \<and> s_SigType s = t \<and> s_Role s = role"
proof (cases "t = Ed25519Origin \<or> t = Ed25519Cosigner")
  case True
  then show ?thesis
    by (auto simp: NewSigner_def local_signer_def newEd25519Signer_def ed25519SeedSize_def SigType_defs)
next
  case False
  show ?thesis
  proof (cases "t = MLDSA44 \<and> length seed = mldsa44SeedSize")
    case True
    then have "mldsa_NewPrivateKey C seed = Inr seed" using assms by (simp add: mldsa_contract_def)
    with True False show ?thesis
      by (auto simp: NewSigner_def local_signer_def newMLDSA44Signer_def mldsa44SeedSize_def SigType_defs)
  next
    case f: False
    with False show ?thesis
      by (auto simp: NewSigner_def local_signer_def mldsa44SeedSize_def)
  qed
qed

lemma local_signer_cases [consumes 1, case_names ed25519 mldsa]:
  assumes "local_signer C s"
  obtains "s_SigType s = Ed25519Origin \<or> s_SigType s = Ed25519Cosigner"
      "s_signer s = EdPriv (s_seed s)" "s_pub s = EdPub (ed25519_Public C (s_seed s))"
      "s_hash s = keyHash C (s_Name s) (ed25519_Public C (s_seed s)) (s_SigType s)"
    | "s_SigType s = MLDSA44" "length (s_seed s) = mldsa44SeedSize"
      "s_signer s = MldsaPriv (s_seed s)" "s_pub s = MldsaPub (mldsa_Public C (s_seed s))"
      "s_hash s = keyHash C (s_Name s) (mldsa_Public C (s_seed s)) (s_SigType s)"
proof -
  from assms consider
      (a) "s_SigType s = Ed25519Origin \<or> s_SigType s = Ed25519Cosigner"
        "s = newEd25519Signer C (s_Name s) (s_seed s) (s_SigType s) (s_Role s)"
    | (b) "s_SigType s = MLDSA44" "length (s_seed s) = 32"
        "s = newMLDSA44Signer C (s_Name s) (s_seed s) (s_Role s)"
    by (auto simp: local_signer_def)
  then show ?thesis
  proof cases
    case a
    show ?thesis
      by (rule that(1)) (use a(1) in blast, (subst a(2), simp add: newEd25519Signer_def)+)
  next
    case b
    show ?thesis
      by (rule that(2)) (use b(1,2) in \<open>simp_all add: mldsa44SeedSize_def\<close>,
          (subst b(3), simp add: newMLDSA44Signer_def b(1))+)
  qed
qed

lemma local_signer_hash: "sha256_contract C \<Longrightarrow> local_signer C s \<Longrightarrow> length (s_hash s) = 4"
  by (erule local_signer_cases) (simp_all add: keyHash_def sha256_contract_def)

lemma ParseVKey_VKey:
  assumes "ed25519_contract C" "mldsa_contract C" "local_signer C s" "CHR ''+'' \<notin> set (s_Name s)"
  shows "rbind (VKey C s) (ParseVKey C) = Inr (s_Name s, s_SigType s, s_pub s)"
  using assms(3)
proof (cases rule: local_signer_cases)
  case ed25519
  have "length (ed25519_Public C (s_seed s)) = ed25519PubKeySize"
    using assms(1) by (simp add: ed25519_contract_def)
  with ed25519 assms(4) show ?thesis
    by (simp add: VKey_def FormatVKey_def pubKeyBytes_def ParseVKey_def SplitN_key Let_def)
next
  case mldsa
  have "length (mldsa_Public C (s_seed s)) = mldsa44PubKeySize"
    "mldsa_NewPublicKey C (mldsa_Public C (s_seed s)) = Inr (mldsa_Public C (s_seed s))"
    using assms(2) mldsa(2) by (simp_all add: mldsa_contract_def)
  with mldsa assms(4) show ?thesis
    by (simp add: VKey_def FormatVKey_def pubKeyBytes_def ParseVKey_def SplitN_key Let_def SigType_defs)
qed

text \<open>The role an algorithm byte admits.\<close>

definition role_allowed :: "SigType \<Rightarrow> KeyRole \<Rightarrow> bool" where
  "role_allowed t role \<longleftrightarrow>
     t = Ed25519Origin \<and> role = RoleOrigin \<or> t = Ed25519Cosigner \<and> role = RoleCosigner \<or> t = MLDSA44"

lemma b64_not_space: "c \<in> set (b64_encode s) \<Longrightarrow> \<not> is_space_edge c"
proof -
  assume "c \<in> set (b64_encode s)"
  then have "c = pad \<or> (\<exists>n<64. c = b64_char n)" by (rule b64_encode_chars)
  then have "byte_val c \<in> {43} \<union> {47..57} \<union> {61} \<union> {65..90} \<union> {97..122}"
    by (auto simp: b64_char_def split: if_splits)
  then show ?thesis unfolding space_edge_char by auto
qed

lemma TrimSpace_key:
  assumes "ws = [] \<or> ws = [nl]"
  shows "TrimSpace ((''PRIVATE+KEY+'' @ x @ b64_encode (c # k)) @ ws) = ''PRIVATE+KEY+'' @ x @ b64_encode (c # k)"
proof -
  have ne: "b64_encode (c # k) \<noteq> []" by (cases k rule: remdups_adj.cases) auto
  let ?s = "''PRIVATE+KEY+'' @ x @ b64_encode (c # k)"
  have "last ?s \<in> set (b64_encode (c # k))" using ne by simp
  then have l: "\<not> is_space_edge (last ?s)" by (rule b64_not_space)
  have h: "\<not> is_space_edge (hd ?s)" by (simp add: space_edge_char)
  from assms TrimSpace_fixed [of ?s] TrimSpace_newline [of ?s] l h show ?thesis by auto
qed

text \<open>A printed key splits back into the name, the printed hash and the encoded key.\<close>

lemma ReadKeyData_split:
  assumes "local_signer C s" "ws = [] \<or> ws = [nl]"
  shows "\<exists>data. (\<forall>role. rbind (SKey s) (\<lambda>k. ReadKeyData C (k @ ws) role) = ReadKeyData C data role) \<and>
    CutPrefix (TrimSpace data) ''PRIVATE+KEY+'' =
      Some (s_Name s @ CHR ''+'' # Sprintf08x (Uint32 (s_hash s)) @ CHR ''+'' # b64_encode (s_SigType s # s_seed s))"
proof -
  let ?k = "s_SigType s # s_seed s" and ?h = "Uint32 (s_hash s)"
  have seed: "length (s_seed s) = 32" using assms(1) by (simp add: local_signer_def)
  have "SKey s = Inr (''PRIVATE+KEY+'' @ (s_Name s @ ''+'' @ Sprintf08x ?h @ ''+'') @ b64_encode ?k)"
    using seed by (auto simp: SKey_def)
  moreover define data where
    "data = (''PRIVATE+KEY+'' @ (s_Name s @ ''+'' @ Sprintf08x ?h @ ''+'') @ b64_encode ?k) @ ws"
  ultimately have "\<forall>role. rbind (SKey s) (\<lambda>k. ReadKeyData C (k @ ws) role) = ReadKeyData C data role"
    by simp
  moreover have "CutPrefix (TrimSpace data) ''PRIVATE+KEY+'' =
      Some (s_Name s @ CHR ''+'' # Sprintf08x ?h @ CHR ''+'' # b64_encode ?k)"
    unfolding data_def TrimSpace_key [OF assms(2)] CutPrefix_append by simp
  ultimately show ?thesis by blast
qed

lemma local_signer_type:
  "local_signer C s \<Longrightarrow> s_SigType s = Ed25519Origin \<or> s_SigType s = Ed25519Cosigner \<or> s_SigType s = MLDSA44"
  by (auto simp: local_signer_def)

lemma local_signer_seed: "local_signer C s \<Longrightarrow> s_seed s \<noteq> []"
  by (auto simp: local_signer_def)

lemma ReadKeyData_SKey:
  assumes "sha256_contract C" "mldsa_contract C" "local_signer C s" "s_Name s \<noteq> []"
    "CHR ''+'' \<notin> set (s_Name s)" "ws = [] \<or> ws = [nl]"
  shows "rbind (SKey s) (\<lambda>k. ReadKeyData C (k @ ws) role) = Inr s \<longleftrightarrow>
           role = s_Role s \<and> role_allowed (s_SigType s) role"
proof -
  obtain data where read: "\<forall>role. rbind (SKey s) (\<lambda>k. ReadKeyData C (k @ ws) role) = ReadKeyData C data role"
    and cut: "CutPrefix (TrimSpace data) ''PRIVATE+KEY+'' =
      Some (s_Name s @ CHR ''+'' # Sprintf08x (Uint32 (s_hash s)) @ CHR ''+'' # b64_encode (s_SigType s # s_seed s))"
    using ReadKeyData_split [OF assms(3,6)] by blast
  have new: "NewSigner C (s_Name s) (s_seed s) (s_SigType s) role = Inr s \<longleftrightarrow> s_Role s = role"
    using NewSigner_Inr_iff [OF assms(2)] assms(3) by blast
  have "ReadKeyData C data role = Inr s \<longleftrightarrow> role_allowed (s_SigType s) role \<and>
      NewSigner C (s_Name s) (s_seed s) (s_SigType s) role = Inr s"
    unfolding ReadKeyData_def Let_def cut
    using assms(4) local_signer_type [OF assms(3)] local_signer_seed [OF assms(3)]
    by (auto simp: SplitN_key [OF assms(5)] role_allowed_def rbind_Inr_iff SigType_defs)
  with read new show ?thesis by auto
qed

lemma ReadKeyData_wrong_role:
  assumes "local_signer C s" "s_Name s \<noteq> []" "CHR ''+'' \<notin> set (s_Name s)" "ws = [] \<or> ws = [nl]"
    and "\<not> role_allowed (s_SigType s) role"
  shows "\<exists>e. rbind (SKey s) (\<lambda>k. ReadKeyData C (k @ ws) role) = Inl e"
proof -
  obtain data where read: "\<forall>role. rbind (SKey s) (\<lambda>k. ReadKeyData C (k @ ws) role) = ReadKeyData C data role"
    and cut: "CutPrefix (TrimSpace data) ''PRIVATE+KEY+'' =
      Some (s_Name s @ CHR ''+'' # Sprintf08x (Uint32 (s_hash s)) @ CHR ''+'' # b64_encode (s_SigType s # s_seed s))"
    using ReadKeyData_split [OF assms(1,4)] by blast
  have "\<exists>e. ReadKeyData C data role = Inl e"
    unfolding ReadKeyData_def Let_def cut
    using assms(2,5) local_signer_type [OF assms(1)] local_signer_seed [OF assms(1)]
    by (auto simp: SplitN_key [OF assms(3)] role_allowed_def SigType_defs)
  with read show ?thesis by simp
qed

subsection \<open>Signing and verifying\<close>

lemma sig_line_ok: "nl \<notin> set name \<Longrightarrow> sig_lines_ok [sig_line name raw]"
  using sig_line_no_nl [of name raw] by (simp add: sig_lines_ok_def sig_line_def)

lemma sig_lines_ok_snoc: "sig_lines_ok ls \<Longrightarrow> sig_lines_ok [l] \<Longrightarrow> sig_lines_ok (ls @ [l])"
  by (auto simp: sig_lines_ok_def)

lemma body_ok_newline: "body_ok body \<Longrightarrow> HasSuffix body [nl]"
  by (metis append_butlast_last_id body_ok_def suffix_def)

lemma Sign_local:
  assumes "local_signer C s" "s_Role s = RoleOrigin" "s_SigType s = Ed25519Origin" "HasSuffix body [nl]"
  shows "Sign C body s w =
    (Inr (note_text body [sig_line (s_Name s) (s_hash s @ ed25519_Sign C (s_seed s) body)]), w)"
  using assms(1)
proof (cases rule: local_signer_cases)
  case ed25519
  then show ?thesis
    by (simp add: Sign_def assms Let_def signer_Sign_def note_text_def ebind_def ewrap_def)
qed (simp add: assms SigType_defs)

lemma VerifySignature_local:
  assumes "ed25519_contract C" "sha256_contract C" "local_signer C s" "s_SigType s = Ed25519Origin"
    "sp \<notin> set (s_Name s)"
  shows "VerifySignature C body (sig_line (s_Name s) (s_hash s @ ed25519_Sign C (s_seed s) body))
           (s_pub s) (s_SigType s) = Inr ()"
  using assms(3)
proof (cases rule: local_signer_cases)
  case ed25519
  have "length (s_hash s) = 4" by (rule local_signer_hash [OF assms(2,3)])
  with ed25519 assms show ?thesis
    by (simp add: VerifySignature_def DecodeSigLine_sig_line ed25519_contract_def)
qed (simp add: assms SigType_defs)

definition cosig_raw :: "'w crypto \<Rightarrow> Signer \<Rightarrow> uint64 \<Rightarrow> string \<Rightarrow> string" where
  "cosig_raw C s t body =
     s_hash s @ PutUint64 t @ ed25519_Sign C (s_seed s) (ed25519CosignMessage t body)"

lemma Cosign_local:
  assumes "local_signer C s" "s_Role s = RoleCosigner" "s_SigType s = Ed25519Cosigner"
    "ExtractBody note = Inr body" "time_Now_Unix C w = (now, w1)"
  shows "Cosign C note s w = (Inr (sig_line (s_Name s) (cosig_raw C s (of_int now) body)), w1)"
  using assms(1)
proof (cases rule: local_signer_cases)
  case ed25519
  then show ?thesis
    by (simp add: Cosign_def assms Let_def signer_Sign_def cosig_raw_def ebind_def ewrap_def)
qed (simp add: assms SigType_defs)

lemma VerifyCosignature_local:
  assumes "ed25519_contract C" "sha256_contract C" "local_signer C s" "s_SigType s = Ed25519Cosigner"
    "sp \<notin> set (s_Name s)"
  shows "VerifyCosignature C body (sig_line (s_Name s) (cosig_raw C s t body)) (s_pub s) (s_SigType s) = Inr ()"
  using assms(3)
proof (cases rule: local_signer_cases)
  case ed25519
  have "length (s_hash s) = 4" by (rule local_signer_hash [OF assms(2,3)])
  moreover have "length (PutUint64 t) = 8" by simp
  ultimately show ?thesis using ed25519 assms
    by (simp add: VerifyCosignature_def DecodeSigLine_sig_line ed25519_contract_def cosig_raw_def Let_def)
qed (simp add: assms SigType_defs)

end
