(* ===== verification/Kms_Keys.thy ===== *)
theory Kms_Keys
  imports Note
begin

section \<open>KMS-backed signers (\<^verbatim>\<open>internal/note/kms.go\<close>, construction)\<close>

text \<open>
  How a signer is built from a Cloud KMS key version: the algorithm decides the public key's
  format and the signature type, and the role decides between the two Ed25519 types. The
  context and the client handle are not passed: the calls of the client are fields of
  \<open>crypto\<close>. A zero \<^verbatim>\<open>SigType\<close> stands for "the role decides", as in the code.
\<close>

definition kmsEd25519PublicKey :: "'w crypto \<Rightarrow> string \<Rightarrow> ('w, pubkey) io" where
  "kmsEd25519PublicKey C resourceName =
     ebind (ewrap ''fetching KMS public key: %w'' [] (GetPublicKey C resourceName FORMAT_UNSPECIFIED))
       (\<lambda>resp. case pem_Decode C (pk_Pem resp) of
          None \<Rightarrow> efail (Errorf ''failed to decode PEM public key from KMS'' [])
        | Some block \<Rightarrow>
            ebind (elift (rwrap ''parsing KMS public key: %w'' [] (ParsePKIXPublicKey C block))) (\<lambda>pub.
              case pub of
                EdPub edPub \<Rightarrow> eret (EdPub edPub)
              | _ \<Rightarrow> efail (Errorf ''KMS key is not Ed25519, got %T'' [])))"

definition kmsMLDSA44PublicKey :: "'w crypto \<Rightarrow> string \<Rightarrow> ('w, pubkey) io" where
  "kmsMLDSA44PublicKey C resourceName =
     ebind (ewrap ''fetching KMS public key: %w'' [] (GetPublicKey C resourceName NIST_PQC))
       (\<lambda>resp. case (pk_Format resp, pk_Data resp) of
          (NIST_PQC, Some (data, crc)) \<Rightarrow>
            (if (case crc of Some v \<Rightarrow> uint (crc32c data) \<noteq> v | None \<Rightarrow> False) then
               efail (Errorf ''KMS GetPublicKey: response corrupted in transit'' [])
             else
               ebind (elift (rwrap ''parsing KMS ML-DSA-44 public key: %w'' [] (mldsa_NewPublicKey C data)))
                 (\<lambda>pub. eret (MldsaPub pub)))
        | _ \<Rightarrow> efail (Errorf ''KMS returned public key format %s, want NIST_PQC'' []))"

text \<open>The result is the cached public key and the signature type, \<open>CHR 0x00\<close> where the role decides.\<close>

definition newKMSSigner :: "'w crypto \<Rightarrow> string \<Rightarrow> ('w, signing_key \<times> pubkey \<times> SigType) io" where
  "newKMSSigner C resourceName =
     ebind (ewrap ''creating KMS client: %w'' [] (NewKeyManagementClient C)) (\<lambda>_.
       ebind (ewrap ''fetching KMS key version: %w'' [] (GetCryptoKeyVersion C resourceName)) (\<lambda>alg.
         case alg of
           EC_SIGN_ED25519 \<Rightarrow>
             ebind (kmsEd25519PublicKey C resourceName) (\<lambda>pub.
               eret (KmsKey resourceName pub, pub, CHR 0x00))
         | PQ_SIGN_ML_DSA_44 \<Rightarrow>
             ebind (kmsMLDSA44PublicKey C resourceName) (\<lambda>pub.
               eret (KmsKey resourceName pub, pub, MLDSA44))
         | OTHER_ALGORITHM a \<Rightarrow>
             efail (Errorf ''unsupported KMS key algorithm %s: want EC_SIGN_ED25519 or PQ_SIGN_ML_DSA_44''
                      [FStr a])))"

definition NewKMSSigner :: "'w crypto \<Rightarrow> string \<Rightarrow> string \<Rightarrow> KeyRole \<Rightarrow> ('w, Signer) io" where
  "NewKMSSigner C name kmsResourceName role =
     ebind (newKMSSigner C (TrimPrefix kmsResourceName ''gcpkms://'')) (\<lambda>(ks, pub, keySigType).
       let sigType =
         (if keySigType = CHR 0x00
          then (case role of RoleOrigin \<Rightarrow> Ed25519Origin | RoleCosigner \<Rightarrow> Ed25519Cosigner)
          else keySigType)
       in ebind (elift (pubKeyBytes pub)) (\<lambda>pubBytes.
            eret \<lparr>s_Name = name, s_SigType = sigType, s_Role = role,
                  s_hash = keyHash C name pubBytes sigType,
                  s_signer = ks, s_pub = pub, s_seed = []\<rparr>))"

text \<open>A KMS signer's key type, role and cached key agree.\<close>

definition kms_signer :: "Signer \<Rightarrow> bool" where
  "kms_signer s \<longleftrightarrow> s_seed s = [] \<and> (\<exists>r. s_signer s = KmsKey r (s_pub s)) \<and>
     ((\<exists>k. s_pub s = EdPub k) \<and> s_SigType s = (case s_Role s of RoleOrigin \<Rightarrow> Ed25519Origin
          | RoleCosigner \<Rightarrow> Ed25519Cosigner) \<or>
      (\<exists>k. s_pub s = MldsaPub k) \<and> s_SigType s = MLDSA44)"

lemma kmsEd25519PublicKey_post: "post (kmsEd25519PublicKey C r) w (\<lambda>pub w'. \<exists>k. pub = EdPub k)"
  unfolding kmsEd25519PublicKey_def post_simps
  by (rule postI) (auto simp: post_simps split: option.split pubkey.split)

lemma kmsMLDSA44PublicKey_post: "post (kmsMLDSA44PublicKey C r) w (\<lambda>pub w'. \<exists>k. pub = MldsaPub k)"
  unfolding kmsMLDSA44PublicKey_def post_simps
  by (rule postI) (auto simp: post_simps split: option.split kms_format.split)

lemma newKMSSigner_post:
  "post (newKMSSigner C r) w (\<lambda>(ks, pub, t) w'. ks = KmsKey r pub \<and>
     ((\<exists>k. pub = EdPub k) \<and> t = CHR 0x00 \<or> (\<exists>k. pub = MldsaPub k) \<and> t = MLDSA44))"
  unfolding newKMSSigner_def post_simps
  apply (rule postI, rule postI)
  subgoal for _ _ alg
    by (cases alg) (auto simp: post_simps intro: post_mono [OF kmsEd25519PublicKey_post]
        post_mono [OF kmsMLDSA44PublicKey_post])
  done

lemma NewKMSSigner_post:
  "post (NewKMSSigner C name r role) w (\<lambda>s w'. kms_signer s \<and> s_Role s = role \<and> s_Name s = name \<and>
     (\<exists>k. pubKeyBytes (s_pub s) = Inr k \<and> s_hash s = keyHash C name k (s_SigType s)))"
  unfolding NewKMSSigner_def post_simps
  by (rule post_mono [OF newKMSSigner_post])
     (auto simp: post_simps kms_signer_def Let_def SigType_defs split: KeyRole.splits)

text \<open>Every signer, local or in KMS, carries the public key of what it signs with.\<close>

lemma signer_Public_carried: "local_signer C s \<or> kms_signer s \<Longrightarrow> s_pub s = signer_Public C (s_signer s)"
proof (elim disjE)
  assume "local_signer C s"
  then consider "s = newEd25519Signer C (s_Name s) (s_seed s) (s_SigType s) (s_Role s)"
    | "s = newMLDSA44Signer C (s_Name s) (s_seed s) (s_Role s)" unfolding local_signer_def by blast
  then show ?thesis
    by cases (metis newEd25519Signer_def newMLDSA44Signer_def Signer.simps(5,6) signer_Public_def signing_key.simps(10,11))+
qed (auto simp: kms_signer_def signer_Public_def)

end
