(* ===== verification/Merkle_Spec.thy ===== *)
theory Merkle_Spec
  imports Prelude
begin

section \<open>The RFC 6962 tree, as a specification\<close>

text \<open>
  The Merkle tree hash and the consistency proof of RFC 6962 section 2.1, over leaf hashes.
  This is what \<^verbatim>\<open>internal/tlog\<close> promises; its model is in \<open>Tlog\<close>. The locale
  \<open>tree_head\<close> states the two equations a tree head satisfies and derives what its users rely
  on: a head binds its leaves (two lists of one size with one head are equal, or exhibit
  two different inputs of the node hash with one value), and the proof that the code
  produces leads a verifier from the old head to the new one.
\<close>

text \<open>The largest power of two smaller than \<open>n\<close>, for \<open>n > 1\<close>.\<close>

fun split_point :: "nat \<Rightarrow> nat" where
  "split_point n = (if n \<le> 2 then 1 else 2 * split_point ((n + 1) div 2))"

declare split_point.simps [simp del]

lemma split_point_bounds: "2 \<le> n \<Longrightarrow> 0 < split_point n \<and> split_point n < n \<and> n \<le> 2 * split_point n"
proof (induction n rule: split_point.induct)
  case (1 n)
  show ?case
  proof (cases "n \<le> 2")
    case True
    then have "split_point n = 1" by (subst split_point.simps) simp
    with True "1.prems" show ?thesis by simp
  next
    case False
    then have IH: "0 < split_point ((n + 1) div 2)" "split_point ((n + 1) div 2) < (n + 1) div 2"
      "(n + 1) div 2 \<le> 2 * split_point ((n + 1) div 2)"
      using "1.IH" by auto
    have eq: "split_point n = 2 * split_point ((n + 1) div 2)"
      using False by (subst split_point.simps) simp
    define p where "p = split_point ((n + 1) div 2)"
    have "0 < p" "p < (n + 1) div 2" "(n + 1) div 2 \<le> 2 * p" using IH by (simp_all add: p_def)
    then have "0 < 2 * p \<and> 2 * p < n \<and> n \<le> 2 * (2 * p)" by linarith
    then show ?thesis unfolding eq p_def .
  qed
qed

lemma split_point_power: "\<exists>j. split_point n = 2 ^ j"
proof (induction n rule: split_point.induct)
  case (1 n)
  show ?case
  proof (cases "n \<le> 2")
    case True
    then show ?thesis by (subst split_point.simps) (simp add: exI [of _ 0])
  next
    case False
    with "1.IH" obtain j where "split_point ((n + 1) div 2) = 2 ^ j" by auto
    with False show ?thesis by (subst split_point.simps) (auto intro!: exI [of _ "Suc j"])
  qed
qed

text \<open>Between a split point and the size it splits, the split point stays the same.\<close>

lemma split_point_unique: "2 \<le> n \<Longrightarrow> 2 ^ j < n \<Longrightarrow> n \<le> 2 * 2 ^ j \<Longrightarrow> split_point n = 2 ^ j"
proof -
  assume n: "2 \<le> n" "2 ^ j < n" "n \<le> 2 * 2 ^ j"
  obtain i where i: "split_point n = 2 ^ i" using split_point_power by blast
  have b: "2 ^ i < n" "n \<le> 2 * 2 ^ i" using split_point_bounds [OF n(1)] i by auto
  have "(2::nat) ^ i < 2 ^ Suc j" "(2::nat) ^ j < 2 ^ Suc i" using n b by simp_all
  then have "i < Suc j" "j < Suc i" by (auto simp: power_strict_increasing_iff simp del: power_Suc)
  then show ?thesis using i by simp
qed

lemma split_point_mono_eq:
  assumes "2 \<le> n" "split_point n < m" "m \<le> n"
  shows "split_point m = split_point n"
proof -
  obtain j where j: "split_point n = 2 ^ j" using split_point_power by blast
  have "1 \<le> split_point n" "n \<le> 2 * split_point n" using split_point_bounds [OF assms(1)] by auto
  with assms j show ?thesis using split_point_unique [of m j] by simp
qed

function mth :: "(string \<Rightarrow> string \<Rightarrow> string) \<Rightarrow> string \<Rightarrow> string list \<Rightarrow> string" where
  "mth hc e [] = e"
| "mth hc e [x] = x"
| "mth hc e (x # y # zs) =
     (let k = split_point (length (x # y # zs))
      in hc (mth hc e (take k (x # y # zs))) (mth hc e (drop k (x # y # zs))))"
  by pat_completeness auto
termination
proof (relation "measure (\<lambda>(hc, e, xs). length xs)")
  fix hc :: "string \<Rightarrow> string \<Rightarrow> string" and e x y :: string and zs :: "string list" and k
  assume k: "k = split_point (length (x # y # zs))"
  have b: "0 < k \<and> k < length (x # y # zs)"
    using split_point_bounds [of "length (x # y # zs)"] unfolding k by simp
  show "((hc, e, take k (x # y # zs)), hc, e, x # y # zs) \<in> measure (\<lambda>(hc, e, xs). length xs)"
    and "((hc, e, drop k (x # y # zs)), hc, e, x # y # zs) \<in> measure (\<lambda>(hc, e, xs). length xs)"
    using b by auto
qed simp

declare mth.simps(3) [simp del]

lemma mth_split:
  "2 \<le> length xs \<Longrightarrow> k = split_point (length xs) \<Longrightarrow>
   mth hc e xs = hc (mth hc e (take k xs)) (mth hc e (drop k xs))"
  by (cases "(hc, e, xs)" rule: mth.cases) (auto simp: mth.simps(3) Let_def)

text \<open>
  The consistency proof that the tree over the first \<open>m\<close> leaves is a prefix of the tree over
  all of them (\<^verbatim>\<open>SUBPROOF\<close>; \<open>b\<close> says that the old head is known to the verifier).
\<close>

function subproof :: "(string list \<Rightarrow> string) \<Rightarrow> nat \<Rightarrow> string list \<Rightarrow> bool \<Rightarrow> string list" where
  "subproof root m xs b =
     (if m = 0 \<or> length xs \<le> m then (if b then [] else [root xs])
      else
        let k = split_point (length xs) in
        if m \<le> k then subproof root m (take k xs) b @ [root (drop k xs)]
        else subproof root (m - k) (drop k xs) False @ [root (take k xs)])"
  by pat_completeness auto
termination
proof (relation "measure (\<lambda>(root, m, xs, b). length xs)")
  fix root :: "string list \<Rightarrow> string" and m and xs :: "string list" and b :: bool and k
  assume "\<not> (m = 0 \<or> length xs \<le> m)" and k: "k = split_point (length xs)"
  then have b: "0 < k \<and> k < length xs"
    using split_point_bounds [of "length xs"] unfolding k by simp
  show "((root, m, take k xs, b), root, m, xs, b) \<in> measure (\<lambda>(root, m, xs, b). length xs)"
    and "((root, m - k, drop k xs, False), root, m, xs, b) \<in> measure (\<lambda>(root, m, xs, b). length xs)"
    using b by auto
qed simp

declare subproof.simps [simp del]

text \<open>
  What a verifier rebuilds from a proof: the old and the new head. It knows the two sizes, the
  old head and the proof, and no leaf.
\<close>

function rebuild :: "(string \<Rightarrow> string \<Rightarrow> string) \<Rightarrow> nat \<Rightarrow> nat \<Rightarrow> bool \<Rightarrow> string \<Rightarrow> string list
                     \<Rightarrow> (string \<times> string) option" where
  "rebuild hc m n b old p =
     (if m = 0 \<or> n \<le> m then
        (if b then (if p = [] then Some (old, old) else None)
         else (case p of [h] \<Rightarrow> Some (h, h) | _ \<Rightarrow> None))
      else if p = [] then None
      else
        let k = split_point n; h = last p in
        if m \<le> k then map_option (\<lambda>(o1, n1). (o1, hc n1 h)) (rebuild hc m k b old (butlast p))
        else map_option (\<lambda>(o1, n1). (hc h o1, hc h n1)) (rebuild hc (m - k) (n - k) False old (butlast p)))"
  by pat_completeness auto
termination
proof (relation "measure (\<lambda>(hc, m, n, b, old, p). n)")
  fix hc :: "string \<Rightarrow> string \<Rightarrow> string" and m n k and b :: bool and old h :: string and p :: "string list"
  assume "\<not> (m = 0 \<or> n \<le> m)" and k: "k = split_point n"
  then have b: "0 < k \<and> k < n" using split_point_bounds [of n] unfolding k by simp
  show "((hc, m, k, b, old, butlast p), hc, m, n, b, old, p) \<in> measure (\<lambda>(hc, m, n, b, old, p). n)"
    and "((hc, m - k, n - k, False, old, butlast p), hc, m, n, b, old, p)
           \<in> measure (\<lambda>(hc, m, n, b, old, p). n)"
    using b by auto
qed simp

declare rebuild.simps [simp del]

definition proof_accepted :: "(string \<Rightarrow> string \<Rightarrow> string) \<Rightarrow> nat \<Rightarrow> nat \<Rightarrow> string \<Rightarrow> string \<Rightarrow> string list \<Rightarrow> bool" where
  "proof_accepted hc m n old new p \<longleftrightarrow> rebuild hc m n True old p = Some (old, new)"

text \<open>The pairs whose node hash is taken when the head of a list is computed.\<close>

function node_pairs :: "(string list \<Rightarrow> string) \<Rightarrow> string list \<Rightarrow> (string \<times> string) set" where
  "node_pairs root xs =
     (if length xs < 2 then {}
      else let k = split_point (length xs) in
        insert (root (take k xs), root (drop k xs))
          (node_pairs root (take k xs) \<union> node_pairs root (drop k xs)))"
  by pat_completeness auto
termination
proof (relation "measure (\<lambda>(root, xs). length xs)")
  fix root :: "string list \<Rightarrow> string" and xs :: "string list" and k
  assume "\<not> length xs < 2" and k: "k = split_point (length xs)"
  then have b: "0 < k \<and> k < length xs" using split_point_bounds [of "length xs"] unfolding k by simp
  show "((root, take k xs), root, xs) \<in> measure (\<lambda>(root, xs). length xs)"
    and "((root, drop k xs), root, xs) \<in> measure (\<lambda>(root, xs). length xs)"
    using b by auto
qed simp

declare node_pairs.simps [simp del]

text \<open>Two inputs of the node hash, met while hashing two lists, with one value.\<close>

definition node_collision :: "(string \<Rightarrow> string \<Rightarrow> string) \<Rightarrow> (string list \<Rightarrow> string) \<Rightarrow> string list \<Rightarrow> string list \<Rightarrow> bool" where
  "node_collision hc root xs ys \<longleftrightarrow>
     (\<exists>a b c d. (a, b) \<in> node_pairs root xs \<and> (c, d) \<in> node_pairs root ys \<and>
        (a, b) \<noteq> (c, d) \<and> hc a b = hc c d)"

locale tree_head =
  fixes root :: "string list \<Rightarrow> string" and hc :: "string \<Rightarrow> string \<Rightarrow> string"
  assumes root_single: "root [x] = x"
    and root_split: "2 \<le> length xs \<Longrightarrow> k = split_point (length xs) \<Longrightarrow>
      root xs = hc (root (take k xs)) (root (drop k xs))"
begin

lemma head_binds_leaves:
  "length xs = length ys \<Longrightarrow> root xs = root ys \<Longrightarrow> xs = ys \<or> node_collision hc root xs ys"
proof (induction xs arbitrary: ys rule: length_induct)
  case (1 xs)
  consider "length xs = 0" | "length xs = 1" | "2 \<le> length xs" by linarith
  then show ?case
  proof cases
    case 1
    with "1.prems" show ?thesis by simp
  next
    case 2
    then obtain x y where "xs = [x]" "ys = [y]"
      using "1.prems"(1) by (metis length_0_conv length_Suc_conv One_nat_def)
    with "1.prems"(2) show ?thesis by (simp add: root_single)
  next
    case 3
    define k where "k = split_point (length xs)"
    have kb: "0 < k" "k < length xs" using split_point_bounds [OF 3] by (auto simp: k_def)
    have ky: "k = split_point (length ys)" "2 \<le> length ys" using 3 "1.prems"(1) by (auto simp: k_def)
    have px: "node_pairs root xs = insert (root (take k xs), root (drop k xs))
        (node_pairs root (take k xs) \<union> node_pairs root (drop k xs))"
      using 3 by (subst node_pairs.simps) (simp add: k_def Let_def)
    have py: "node_pairs root ys = insert (root (take k ys), root (drop k ys))
        (node_pairs root (take k ys) \<union> node_pairs root (drop k ys))"
      using ky(2) by (subst node_pairs.simps) (simp add: ky(1) Let_def)
    have eq: "hc (root (take k xs)) (root (drop k xs)) = hc (root (take k ys)) (root (drop k ys))"
      using "1.prems"(2) root_split [OF 3 k_def] root_split [OF ky(2,1)] by simp
    show ?thesis
    proof (cases "(root (take k xs), root (drop k xs)) = (root (take k ys), root (drop k ys))")
      case False
      with eq show ?thesis unfolding node_collision_def px py by blast
    next
      case True
      have "take k xs = take k ys \<or> node_collision hc root (take k xs) (take k ys)"
        using "1.IH" [rule_format, of "take k xs" "take k ys"] True kb "1.prems"(1) by simp
      moreover have "drop k xs = drop k ys \<or> node_collision hc root (drop k xs) (drop k ys)"
        using "1.IH" [rule_format, of "drop k xs" "drop k ys"] True kb "1.prems"(1) by simp
      ultimately consider "take k xs = take k ys" "drop k xs = drop k ys"
        | "node_collision hc root (take k xs) (take k ys)"
        | "node_collision hc root (drop k xs) (drop k ys)" by blast
      then show ?thesis
      proof cases
        case 1
        then show ?thesis by (metis append_take_drop_id)
      qed (auto simp: node_collision_def px py)
    qed
  qed
qed

lemma rebuild_subproof:
  "r = root \<Longrightarrow> 0 < m \<Longrightarrow> m \<le> length xs \<Longrightarrow> (b \<Longrightarrow> old = root (take m xs)) \<Longrightarrow>
   rebuild hc m (length xs) b old (subproof r m xs b) = Some (root (take m xs), root xs)"
proof (induction r m xs b rule: subproof.induct)
  case (1 r m xs b)
  note r = "1.prems"(1)
  show ?case
  proof (cases "length xs \<le> m")
    case True
    with "1.prems" show ?thesis
      by (cases b) (auto simp: subproof.simps [of root m xs] subproof.simps [of root "length xs" xs]
          rebuild.simps [of hc m] rebuild.simps [of hc "length xs"])
  next
    case False
    define k where "k = split_point (length xs)"
    have n2: "2 \<le> length xs" using False "1.prems" by simp
    then have kb: "0 < k" "k < length xs" using split_point_bounds [OF n2] by (auto simp: k_def)
    show ?thesis
    proof (cases "m \<le> k")
      case True
      have "rebuild hc m (length (take k xs)) b old (subproof root m (take k xs) b)
              = Some (root (take m (take k xs)), root (take k xs))"
        using "1.IH"(1) [OF _ k_def True] False "1.prems" True kb r by (auto simp: min_def)
      then have "rebuild hc m k b old (subproof root m (take k xs) b) = Some (root (take m xs), root (take k xs))"
        using kb True by (simp add: min_def)
      with False "1.prems" True kb root_split [OF n2 k_def] show ?thesis
        by (simp add: subproof.simps [of root m xs] rebuild.simps [of hc m "length xs"] k_def [symmetric] Let_def r)
    next
      case mk: False
      have "rebuild hc (m - k) (length (drop k xs)) False old (subproof root (m - k) (drop k xs) False)
              = Some (root (take (m - k) (drop k xs)), root (drop k xs))"
        using "1.IH"(2) [OF _ k_def mk] False "1.prems" mk kb by auto
      moreover have "root (take m xs) = hc (root (take k xs)) (root (take (m - k) (drop k xs)))"
      proof -
        have l: "length (take m xs) = m" "2 \<le> length (take m xs)" using mk kb False by auto
        have "split_point m = k" using mk False n2 by (simp add: k_def split_point_mono_eq)
        then have "root (take m xs) = hc (root (take k (take m xs))) (root (drop k (take m xs)))"
          using root_split [OF l(2), of k] l by simp
        then show ?thesis using mk by (simp add: min_def drop_take)
      qed
      ultimately show ?thesis
        using False "1.prems" mk kb root_split [OF n2 k_def]
        by (simp add: subproof.simps [of root m xs] rebuild.simps [of hc m "length xs"] k_def [symmetric] Let_def r)
    qed
  qed
qed

lemma proof_accepted_subproof:
  "0 < m \<Longrightarrow> m \<le> length xs \<Longrightarrow>
   proof_accepted hc m (length xs) (root (take m xs)) (root xs) (subproof root m xs True)"
  unfolding proof_accepted_def by (rule rebuild_subproof [OF refl]) auto

end

interpretation rfc: tree_head "mth hc e" hc for hc e
  by unfold_locales (auto intro: mth_split)

end
