(* ===== verification/Tlog.thy ===== *)
theory Tlog
  imports Merkle_Spec Go_Encoding
begin

section \<open>The Merkle tree adapter (\<^verbatim>\<open>internal/tlog\<close>)\<close>

text \<open>
  \<^verbatim>\<open>tlog.go\<close> and \<^verbatim>\<open>checkpoint.go\<close>. The tree itself is \<^verbatim>\<open>transparency-dev/merkle\<close>'s and the
  checkpoint body \<^verbatim>\<open>transparency-dev/formats\<close>'s; both are parameters (\<open>merkle_lib\<close>,
  \<open>log_lib\<close>) with contracts that state their documented behaviour operation by operation.
  The theorems show that the adapter keeps every assertion it makes (no panic), computes the
  RFC 6962 head and proof of \<open>Merkle_Spec\<close>, and refuses what is out of range.
\<close>

definition HashSize :: nat where
  "HashSize = 32"

type_synonym hash = string

definition is_hash :: "hash \<Rightarrow> bool" where
  "is_hash h \<longleftrightarrow> length h = HashSize"

subsection \<open>The library\<close>

type_synonym node_id = "uint64 \<times> uint64"  \<comment> \<open>level and index of a perfect subtree\<close>

record ('rng, 'nodes) merkle_lib =
  hasher_HashLeaf :: "string \<Rightarrow> string"
  hasher_HashChildren :: "string \<Rightarrow> string \<Rightarrow> string"
  hasher_EmptyRoot :: string
  hasher_Size :: nat
  NewEmptyRange :: "uint64 \<Rightarrow> 'rng"
  range_Append :: "(string \<Rightarrow> string \<Rightarrow> string) \<Rightarrow> 'rng \<Rightarrow> string \<Rightarrow> 'rng res"
  range_GetRootHash :: "(string \<Rightarrow> string \<Rightarrow> string) \<Rightarrow> 'rng \<Rightarrow> string res"
  proof_Consistency :: "uint64 \<Rightarrow> uint64 \<Rightarrow> 'nodes res"
  nodes_IDs :: "'nodes \<Rightarrow> node_id list"
  nodes_Rehash :: "'nodes \<Rightarrow> string list \<Rightarrow> (string \<Rightarrow> string \<Rightarrow> string) \<Rightarrow> string list res"

subsection \<open>\<^verbatim>\<open>tlog.go\<close>\<close>

text \<open>The assertion that runs at start-up.\<close>

definition hasher_guard :: "('rng, 'nodes) merkle_lib \<Rightarrow> unit res" where
  "hasher_guard L =
     (if hasher_Size L \<noteq> HashSize
      then Inl (Panic ''tlog: hasher emits %d-byte hashes, but HashSize is %d'') else Inr ())"

definition Count :: "int \<Rightarrow> uint64 res" where
  "Count n = (if n < 0 then Inl (Panic ''tlog: negative length %d'') else Inr (of_int n))"

definition toHash :: "string \<Rightarrow> hash res" where
  "toHash b = (if length b \<noteq> HashSize then Inl (Panic ''tlog: hash is %d bytes, want %d'') else Inr b)"

definition wrap :: "string list \<Rightarrow> hash list res" where
  "wrap hashes = (if length hashes = 0 then Inr [] else res_map toHash hashes)"

definition HashLeaf :: "('rng, 'nodes) merkle_lib \<Rightarrow> string \<Rightarrow> hash res" where
  "HashLeaf L data = toHash (hasher_HashLeaf L data)"

definition emptyRoot :: "('rng, 'nodes) merkle_lib \<Rightarrow> hash res" where
  "emptyRoot L = toHash (hasher_EmptyRoot L)"

text \<open>The loop of \<^verbatim>\<open>Root\<close>: an append that fails is a bug and panics.\<close>

fun append_leaves :: "('rng, 'nodes) merkle_lib \<Rightarrow> 'rng \<Rightarrow> hash list \<Rightarrow> 'rng res" where
  "append_leaves L r [] = Inr r"
| "append_leaves L r (h # hs) =
     (case range_Append L (hasher_HashChildren L) r h of
        Inl err \<Rightarrow> Inl (Panic ''tlog: appending leaf %d to an in-order range: %v'')
      | Inr r' \<Rightarrow> append_leaves L r' hs)"

definition Root :: "('rng, 'nodes) merkle_lib \<Rightarrow> hash list \<Rightarrow> hash res" where
  "Root L leaves =
     (if length leaves = 0 then emptyRoot L
      else
        rbind (append_leaves L (NewEmptyRange L 0) leaves) (\<lambda>r.
          case range_GetRootHash L (hasher_HashChildren L) r of
            Inl err \<Rightarrow> Inl (Panic ''tlog: computing root of %d leaves: %v'')
          | Inr root \<Rightarrow> toHash root))"

text \<open>
  \<^verbatim>\<open>nodeSource.hash\<close>. The bounds are 64-bit shifts, which drop what leaves the word; a slice
  whose bounds cross panics.
\<close>

definition nodeSource_hash :: "('rng, 'nodes) merkle_lib \<Rightarrow> hash list \<Rightarrow> node_id \<Rightarrow> hash res" where
  "nodeSource_hash L s nid =
     (let (level, index) = nid;
          lo = push_bit (unat level) index;
          hi = push_bit (unat level) (index + 1)
      in rbind (Count (int (length s))) (\<lambda>n.
           if hi > n then
             Inl (Errorf ''node (level %d, index %d) is outside a tree of %d leaves''
                    [FNat (unat level), FNat (unat index), FNat (length s)])
           else if lo > hi then Inl (Panic ''runtime error: slice bounds out of range'')
           else Root L (drop (unat lo) (take (unat hi) s))))"

definition nodeSource_fetch :: "('rng, 'nodes) merkle_lib \<Rightarrow> hash list \<Rightarrow> 'nodes \<Rightarrow> hash list res" where
  "nodeSource_fetch L s nodes =
     rbind (res_map (nodeSource_hash L s) (nodes_IDs L nodes)) (\<lambda>hashes.
       rbind (rwrap ''assembling proof: %w'' [] (nodes_Rehash L nodes hashes (hasher_HashChildren L)))
         wrap)"

definition ConsistencyProof :: "('rng, 'nodes) merkle_lib \<Rightarrow> hash list \<Rightarrow> uint64 \<Rightarrow> hash list res" where
  "ConsistencyProof L leaves m =
     rbind (Count (int (length leaves))) (\<lambda>n.
       if m > n then
         Inl (Errorf ''old size %d out of range for tree of size %d'' [FNat (unat m), FNat (unat n)])
       else if m = 0 \<or> m = n then Inr []
       else rbind (proof_Consistency L m n) (nodeSource_fetch L leaves))"

subsection \<open>\<^verbatim>\<open>checkpoint.go\<close>\<close>

record checkpoint =
  cp_Origin :: string
  cp_Size :: uint64
  cp_Hash :: string

record log_lib =
  checkpoint_Unmarshal :: "string \<Rightarrow> checkpoint res"
  checkpoint_Marshal :: "checkpoint \<Rightarrow> string"

definition RootFromBytes :: "string \<Rightarrow> hash res" where
  "RootFromBytes b =
     (if length b \<noteq> HashSize
      then Inl (Errorf ''root hash is %d bytes, want %d'' [FNat (length b), FNat HashSize])
      else toHash b)"

definition ParseCheckpoint :: "log_lib \<Rightarrow> string \<Rightarrow> (checkpoint \<times> hash) res" where
  "ParseCheckpoint FL body =
     rbind (checkpoint_Unmarshal FL body) (\<lambda>cp.
       rbind (rwrap ''invalid checkpoint: %w'' [] (RootFromBytes (cp_Hash cp))) (\<lambda>root.
         Inr (cp, root)))"

definition NewCheckpoint :: "string \<Rightarrow> uint64 \<Rightarrow> hash \<Rightarrow> checkpoint" where
  "NewCheckpoint origin n root = \<lparr>cp_Origin = origin, cp_Size = n, cp_Hash = root\<rparr>"

subsection \<open>Sizes\<close>

text \<open>A Go slice has fewer than \<open>2 ^ 63\<close> elements, since its length is an \<^verbatim>\<open>int\<close>.\<close>

definition go_len :: "'a list \<Rightarrow> bool" where
  "go_len xs \<longleftrightarrow> length xs < 2 ^ 63"

lemma Count_length [simp]: "Count (int (length xs)) = Inr (of_nat (length xs))"
  by (simp add: Count_def)

lemma go_len_unat: "go_len xs \<Longrightarrow> unat (of_nat (length xs) :: uint64) = length xs"
  by (simp add: go_len_def unat_of_nat)

lemma go_len_take [simp]: "go_len xs \<Longrightarrow> go_len (take n xs)"
  by (simp add: go_len_def)

lemma go_len_drop [simp]: "go_len xs \<Longrightarrow> go_len (drop n xs)"
  by (simp add: go_len_def)

lemma go_len_map [simp]: "go_len (map f xs) = go_len xs"
  by (simp add: go_len_def)

lemma toHash_Inr_iff [res_simps]: "toHash b = Inr h \<longleftrightarrow> h = b \<and> is_hash b"
  by (auto simp: toHash_def is_hash_def)

lemma RootFromBytes_Inr_iff [res_simps]: "RootFromBytes b = Inr h \<longleftrightarrow> h = b \<and> is_hash b"
  by (auto simp: RootFromBytes_def toHash_def is_hash_def)

lemma wrap_hashes: "(\<And>h. h \<in> set hs \<Longrightarrow> is_hash h) \<Longrightarrow> wrap hs = Inr hs"
  using res_map_all_Inr [of hs toHash id] by (auto simp: wrap_def toHash_def is_hash_def)

lemma ParseCheckpoint_Inr_iff [res_simps]:
  "ParseCheckpoint FL body = Inr (cp, root) \<longleftrightarrow>
     checkpoint_Unmarshal FL body = Inr cp \<and> root = cp_Hash cp \<and> is_hash root"
  by (auto simp: ParseCheckpoint_def rbind_Inr_iff RootFromBytes_Inr_iff)

subsection \<open>Contracts of the library\<close>

text \<open>The RFC 6962 hasher emits hashes of one size.\<close>

definition hasher_contract :: "('rng, 'nodes) merkle_lib \<Rightarrow> bool" where
  "hasher_contract L \<longleftrightarrow>
     (\<forall>d. is_hash (hasher_HashLeaf L d)) \<and> (\<forall>l r. is_hash (hasher_HashChildren L l r)) \<and>
     is_hash (hasher_EmptyRoot L) \<and> hasher_Size L = HashSize"

text \<open>
  A compact range that starts at zero stands for the leaves appended to it so far
  (\<open>repr\<close>). Appending a leaf to it in order succeeds, and the root of a nonempty one is the
  Merkle tree hash of its leaves.
\<close>

abbreviation tree_hash :: "('rng, 'nodes) merkle_lib \<Rightarrow> hash list \<Rightarrow> hash" where
  "tree_hash L \<equiv> mth (hasher_HashChildren L) (hasher_EmptyRoot L)"

definition range_contract :: "('rng, 'nodes) merkle_lib \<Rightarrow> ('rng \<Rightarrow> hash list \<Rightarrow> bool) \<Rightarrow> bool" where
  "range_contract L repr \<longleftrightarrow>
     repr (NewEmptyRange L 0) [] \<and>
     (\<forall>r xs h. repr r xs \<longrightarrow> is_hash h \<longrightarrow>
        (\<exists>r'. range_Append L (hasher_HashChildren L) r h = Inr r' \<and> repr r' (xs @ [h]))) \<and>
     (\<forall>r xs. repr r xs \<longrightarrow> xs \<noteq> [] \<longrightarrow>
        range_GetRootHash L (hasher_HashChildren L) r = Inr (tree_hash L xs))"

text \<open>
  The nodes of a consistency proof lie within the larger tree, and rehashing their hashes
  gives the proof.
\<close>

definition in_tree :: "nat \<Rightarrow> node_id \<Rightarrow> bool" where
  "in_tree n nid \<longleftrightarrow> (unat (snd nid) + 1) * 2 ^ unat (fst nid) \<le> n"

definition subtree_hash :: "('rng, 'nodes) merkle_lib \<Rightarrow> hash list \<Rightarrow> node_id \<Rightarrow> hash" where
  "subtree_hash L xs nid =
     tree_hash L (take (2 ^ unat (fst nid)) (drop (unat (snd nid) * 2 ^ unat (fst nid)) xs))"

definition proof_contract :: "('rng, 'nodes) merkle_lib \<Rightarrow> bool" where
  "proof_contract L \<longleftrightarrow>
     (\<forall>m n. 0 < m \<longrightarrow> m < n \<longrightarrow>
        (\<exists>nd. proof_Consistency L m n = Inr nd \<and>
           (\<forall>nid\<in>set (nodes_IDs L nd). in_tree (unat n) nid) \<and>
           (\<forall>xs. length xs = unat n \<longrightarrow> (\<forall>x\<in>set xs. is_hash x) \<longrightarrow>
              nodes_Rehash L nd (map (subtree_hash L xs) (nodes_IDs L nd)) (hasher_HashChildren L)
                = Inr (subproof (tree_hash L) (unat m) xs True))))"

subsection \<open>What the adapter computes\<close>

lemma tree_hash_is_hash:
  "hasher_contract L \<Longrightarrow> (\<And>x. x \<in> set xs \<Longrightarrow> is_hash x) \<Longrightarrow> is_hash (tree_hash L xs)"
proof -
  assume h: "hasher_contract L" "\<And>x. x \<in> set xs \<Longrightarrow> is_hash x"
  consider "xs = []" | x where "xs = [x]" | "2 \<le> length xs"
    by (cases xs rule: list.exhaust; cases "tl xs") auto
  then show ?thesis
  proof cases
    case 3
    then show ?thesis using h(1) by (subst mth_split [OF 3 refl]) (simp add: hasher_contract_def)
  qed (use h in \<open>auto simp: hasher_contract_def\<close>)
qed

lemma subproof_hashes:
  "hasher_contract L \<Longrightarrow> r = tree_hash L \<Longrightarrow> (\<And>x. x \<in> set xs \<Longrightarrow> is_hash x) \<Longrightarrow>
   h \<in> set (subproof r m xs b) \<Longrightarrow> is_hash h"
proof (induction r m xs b rule: subproof.induct)
  case (1 r m xs b)
  note hash = "1.prems"(3)
  define k where "k = split_point (length xs)"
  have sub: "is_hash x" if "x \<in> set (take k xs) \<or> x \<in> set (drop k xs)" for x
    using that hash by (meson in_set_takeD in_set_dropD)
  show ?case
  proof (cases "m = 0 \<or> length xs \<le> m")
    case True
    then have "subproof r m xs b = (if b then [] else [r xs])" by (subst subproof.simps) simp
    with "1.prems" show ?thesis by (auto simp: tree_hash_is_hash split: if_splits)
  next
    case False
    show ?thesis
    proof (cases "m \<le> k")
      case True
      with False have "subproof r m xs b = subproof r m (take k xs) b @ [r (drop k xs)]"
        by (subst subproof.simps) (simp add: k_def Let_def)
      with "1.prems"(4) have "h \<in> set (subproof r m (take k xs) b) \<or> h = r (drop k xs)" by auto
      then show ?thesis
        using "1.IH"(1) [OF False k_def True] "1.prems"(1,2) sub tree_hash_is_hash by blast
    next
      case mk: False
      with False have "subproof r m xs b = subproof r (m - k) (drop k xs) False @ [r (take k xs)]"
        by (subst subproof.simps) (simp add: k_def Let_def)
      with "1.prems"(4) have "h \<in> set (subproof r (m - k) (drop k xs) False) \<or> h = r (take k xs)"
        by auto
      then show ?thesis
        using "1.IH"(2) [OF False k_def mk] "1.prems"(1,2) sub tree_hash_is_hash by blast
    qed
  qed
qed

lemma append_leaves_repr:
  assumes "range_contract L repr"
  shows "repr r xs \<Longrightarrow> (\<And>h. h \<in> set hs \<Longrightarrow> is_hash h) \<Longrightarrow>
    \<exists>r'. append_leaves L r hs = Inr r' \<and> repr r' (xs @ hs)"
proof (induction hs arbitrary: r xs)
  case (Cons h hs)
  then obtain r' where r': "range_Append L (hasher_HashChildren L) r h = Inr r'" "repr r' (xs @ [h])"
    using assms Cons.prems(2) [of h] unfolding range_contract_def by (metis list.set_intros(1))
  with Cons.IH [OF r'(2)] Cons.prems show ?case by auto
qed simp

lemma Root_tree_hash:
  assumes c: "hasher_contract L" "range_contract L repr" and h: "\<And>x. x \<in> set xs \<Longrightarrow> is_hash x"
  shows "Root L xs = Inr (tree_hash L xs)"
proof (cases "xs = []")
  case True
  with c show ?thesis by (simp add: Root_def emptyRoot_def toHash_Inr_iff hasher_contract_def)
next
  case False
  from c(2) have "repr (NewEmptyRange L 0) []" by (simp add: range_contract_def)
  then obtain r where r: "append_leaves L (NewEmptyRange L 0) xs = Inr r" "repr r xs"
    using append_leaves_repr [OF c(2), of "NewEmptyRange L 0" "[]" xs] h by auto
  with c(2) False have "range_GetRootHash L (hasher_HashChildren L) r = Inr (tree_hash L xs)"
    by (simp add: range_contract_def)
  with r False tree_hash_is_hash [OF c(1) h] show ?thesis
    by (simp add: Root_def toHash_Inr_iff)
qed

lemma push_bit_in_word:
  fixes i l :: uint64
  assumes "(unat i + 1) * 2 ^ unat l < 2 ^ 64"
  shows "unat (push_bit (unat l) i) = unat i * 2 ^ unat l"
    and "unat (push_bit (unat l) (i + 1)) = (unat i + 1) * 2 ^ unat l"
proof -
  have i: "unat i * 2 ^ unat l < 2 ^ 64"
    using assms by (rule le_less_trans [rotated]) (simp add: mult_le_mono1)
  have "1 * (unat i + 1) \<le> 2 ^ unat l * (unat i + 1)" by (rule mult_le_mono1) simp
  then have "unat i + 1 < 2 ^ 64" using assms by (simp add: mult.commute)
  then have s: "unat (i + 1) = unat i + 1" by (simp add: unat_word_ariths)
  have p: "unat (push_bit n w) = unat w * 2 ^ n mod 2 ^ 64" for n and w :: uint64
    by (simp only: unsigned_push_bit_eq) (simp add: take_bit_eq_mod push_bit_eq_mult)
  show "unat (push_bit (unat l) i) = unat i * 2 ^ unat l" using i by (simp add: p)
  show "unat (push_bit (unat l) (i + 1)) = (unat i + 1) * 2 ^ unat l"
    using assms by (simp add: p s)
qed

text \<open>A node within the tree is resolved: no overflow, no panic, the hash of its leaves.\<close>

lemma nodeSource_hash_in_tree:
  assumes c: "hasher_contract L" "range_contract L repr" and h: "\<And>x. x \<in> set xs \<Longrightarrow> is_hash x"
    and g: "go_len xs" and t: "in_tree (length xs) nid"
  shows "nodeSource_hash L xs nid = Inr (subtree_hash L xs nid)"
proof -
  obtain l i where nid: "nid = (l, i)" by (cases nid)
  have b: "(unat i + 1) * 2 ^ unat l \<le> length xs" using t by (simp add: in_tree_def nid)
  have "length xs < 2 ^ 64" using g by (simp add: go_len_def)
  with b have lt: "(unat i + 1) * 2 ^ unat l < 2 ^ 64" by linarith
  note pb = push_bit_in_word [OF lt]
  have "\<not> push_bit (unat l) (i + 1) > (of_nat (length xs) :: uint64)"
    using b by (simp add: word_less_nat_alt pb go_len_unat [OF g] not_less)
  moreover have "\<not> push_bit (unat l) i > push_bit (unat l) (i + 1)"
    by (simp add: word_less_nat_alt pb not_less)
  moreover have "drop (unat i * 2 ^ unat l) (take ((unat i + 1) * 2 ^ unat l) xs)
      = take (2 ^ unat l) (drop (unat i * 2 ^ unat l) xs)"
    by (simp add: drop_take)
  moreover have "Root L (take (2 ^ unat l) (drop (unat i * 2 ^ unat l) xs))
      = Inr (tree_hash L (take (2 ^ unat l) (drop (unat i * 2 ^ unat l) xs)))"
    using h by (intro Root_tree_hash [OF c]) (meson in_set_takeD in_set_dropD)
  ultimately show ?thesis
    by (simp add: nodeSource_hash_def nid Let_def pb subtree_hash_def)
qed

lemma ConsistencyProof_subproof:
  assumes c: "hasher_contract L" "range_contract L repr" "proof_contract L"
    and h: "\<And>x. x \<in> set xs \<Longrightarrow> is_hash x" and g: "go_len xs" and m: "0 < m" "unat m < length xs"
  shows "ConsistencyProof L xs m = Inr (subproof (tree_hash L) (unat m) xs True)"
proof -
  let ?n = "of_nat (length xs) :: uint64"
  have n: "unat ?n = length xs" by (rule go_len_unat [OF g])
  have mn: "m < ?n" using m(2) n by (simp add: word_less_nat_alt)
  with c(3) m(1) obtain nd where nd: "proof_Consistency L m ?n = Inr nd"
    and t: "\<And>nid. nid \<in> set (nodes_IDs L nd) \<Longrightarrow> in_tree (length xs) nid"
    and r: "nodes_Rehash L nd (map (subtree_hash L xs) (nodes_IDs L nd)) (hasher_HashChildren L)
              = Inr (subproof (tree_hash L) (unat m) xs True)"
    unfolding proof_contract_def using h n by metis
  have "res_map (nodeSource_hash L xs) (nodes_IDs L nd) = Inr (map (subtree_hash L xs) (nodes_IDs L nd))"
    using t by (intro res_map_all_Inr nodeSource_hash_in_tree [OF c(1,2) h g])
  moreover have "wrap (subproof (tree_hash L) (unat m) xs True) = Inr (subproof (tree_hash L) (unat m) xs True)"
    using subproof_hashes [OF c(1) refl h] by (intro wrap_hashes)
  ultimately show ?thesis
    using mn m(1) r nd by (auto simp: ConsistencyProof_def nodeSource_fetch_def)
qed

lemma ConsistencyProof_trivial:
  "go_len xs \<Longrightarrow> m = 0 \<or> unat m = length xs \<Longrightarrow> ConsistencyProof L xs m = Inr []"
proof -
  assume g: "go_len xs" and m: "m = 0 \<or> unat m = length xs"
  have "unat (of_nat (length xs) :: uint64) = length xs" by (rule go_len_unat [OF g])
  with m have "m = 0 \<or> m = of_nat (length xs)" by (metis unat_eq_nat_uint word_unat_eq_iff)
  then show ?thesis by (auto simp: ConsistencyProof_def)
qed

lemma ConsistencyProof_out_of_range:
  "go_len xs \<Longrightarrow> length xs < unat m \<Longrightarrow>
   ConsistencyProof L xs m = Inl (Errorf ''old size %d out of range for tree of size %d''
     [FNat (unat m), FNat (length xs)])"
  by (simp add: ConsistencyProof_def word_less_nat_alt go_len_unat)

end
