(* ===== verification/Note_Tlog.thy ===== *)
theory Note_Tlog
  imports Kms_Keys Tlog
begin

section \<open>Signatures over checkpoints (\<^verbatim>\<open>internal/note/tlog.go\<close>)\<close>

text \<open>
  The ML-DSA-44 construction and the parser of a private key are those of
  \<^verbatim>\<open>transparency-dev/formats/note\<close> and \<^verbatim>\<open>sumdb/note\<close>, which are parameters (\<open>formats\<close>);
  the Ed25519 paths are the program's own.
\<close>

record 'w note_signer =
  ns_Name :: string
  ns_Sign :: "string \<Rightarrow> ('w, string) io"

record 'w formats =
  fnote_NewSigner :: "string \<Rightarrow> 'w note_signer res"
  fnote_NewMLDSASignerFromCrypto :: "string \<Rightarrow> signing_key \<Rightarrow> 'w note_signer res"
  sumdb_Sign :: "string \<Rightarrow> 'w note_signer \<Rightarrow> ('w, string) io"

definition checkpointSigner :: "'w formats \<Rightarrow> Signer \<Rightarrow> 'w note_signer res" where
  "checkpointSigner F s =
     (if length (s_seed s) = 0 \<and> s_SigType s = MLDSA44
      then fnote_NewMLDSASignerFromCrypto F (s_Name s) (s_signer s)
      else rbind (SKey s) (fnote_NewSigner F))"

definition TlogCosigner :: "'w formats \<Rightarrow> Signer \<Rightarrow> 'w note_signer res" where
  "TlogCosigner F s =
     (if s_Role s \<noteq> RoleCosigner then Inl (Errorf ''TlogCosigner requires a cosigner key, got origin'' [])
      else checkpointSigner F s)"

definition SignTlogCheckpoint ::
    "'w crypto \<Rightarrow> 'w formats \<Rightarrow> log_lib \<Rightarrow> string \<Rightarrow> Signer \<Rightarrow> ('w, string) io" where
  "SignTlogCheckpoint C F FL body signer =
     (if s_Role signer \<noteq> RoleOrigin then
        efail (Errorf ''SignTlogCheckpoint requires an origin key, got cosigner'' [])
      else
        ebind (elift (rwrap ''not a tlog checkpoint: %w'' [] (ParseCheckpoint FL body))) (\<lambda>_.
          if s_SigType signer = Ed25519Origin then Sign C body signer
          else if s_SigType signer = MLDSA44 then
            ebind (elift (checkpointSigner F signer)) (\<lambda>s.
              ewrap ''signing checkpoint: %w'' [] (sumdb_Sign F body s))
          else efail (Errorf ''unsupported log signature type: 0x%02x''
                        [FNat (byte_val (s_SigType signer))])))"

definition CosignTlogCheckpoint ::
    "'w crypto \<Rightarrow> 'w formats \<Rightarrow> log_lib \<Rightarrow> string \<Rightarrow> Signer \<Rightarrow> ('w, string) io" where
  "CosignTlogCheckpoint C F FL signedNote signer =
     (if s_Role signer \<noteq> RoleCosigner then
        efail (Errorf ''CosignTlogCheckpoint requires a cosigner key, got origin'' [])
      else
        ebind (elift (rwrap ''extracting body: %w'' [] (ExtractBody signedNote))) (\<lambda>body.
          ebind (elift (rwrap ''not a tlog checkpoint: %w'' [] (ParseCheckpoint FL body))) (\<lambda>_.
            if s_SigType signer = Ed25519Cosigner then Cosign C signedNote signer
            else if s_SigType signer \<noteq> MLDSA44 then
              efail (Errorf ''unsupported cosigner signature type: 0x%02x''
                       [FNat (byte_val (s_SigType signer))])
            else
              ebind (elift (checkpointSigner F signer)) (\<lambda>cosigner.
                ebind (ewrap ''cosigning checkpoint: %w'' [] (ns_Sign cosigner body)) (\<lambda>sig.
                  eret (sig_line (s_Name signer) (s_hash signer @ sig)))))))"

text \<open>
  What \<^verbatim>\<open>note.Sign\<close> documents of its result for one signer: the text, an empty line, and one
  signature line under the name of the signer.  The signature itself stays the library's.
\<close>

definition note_sign_contract :: "'w formats \<Rightarrow> bool" where
  "note_sign_contract F \<longleftrightarrow> (\<forall>text s w note w'. sumdb_Sign F text s w = (Inr note, w') \<longrightarrow>
     (\<exists>raw. note = note_text text [sig_line (ns_Name s) raw]))"

text \<open>A checkpoint signed under either kind of log key is the body and one signature line.\<close>

lemma SignTlogCheckpoint_note:
  assumes F: "note_sign_contract F" and nl: "HasSuffix body [nl]"
    and r: "SignTlogCheckpoint C F FL body s w = (Inr note, w')"
  obtains name raw where "note = note_text body [sig_line name raw]"
proof (cases "s_SigType s = Ed25519Origin")
  case True
  with r nl have "\<exists>sig. note = note_text body [sig_line (s_Name s) (s_hash s @ sig)]"
    by (auto simp: SignTlogCheckpoint_def Sign_def Let_def ebind_Inr_iff note_text_def split: if_splits)
  then show ?thesis using that by blast
next
  case False
  with r obtain ns where "sumdb_Sign F body ns w = (Inr note, w')"
    by (auto simp: SignTlogCheckpoint_def ebind_Inr_iff ewrap_Inr split: if_splits)
  with F show ?thesis using that unfolding note_sign_contract_def by metis
qed

subsection \<open>Signing with a KMS key\<close>

lemma Sign_kms:
  assumes "Sign C body s w = (Inr note, w')" "kms_signer s" "HasSuffix body [nl]"
  obtains sig where "note = note_text body [sig_line (s_Name s) (s_hash s @ sig)]"
    "s_SigType s = Ed25519Origin" "verifies C (s_pub s) body sig"
proof -
  obtain r where r: "s_signer s = KmsKey r (s_pub s)" using assms(2) by (auto simp: kms_signer_def)
  from assms(1,3) have t: "s_SigType s = Ed25519Origin" by (auto simp: Sign_def Let_def split: if_splits)
  from assms(1,3) t obtain sig where
    sg: "signer_Sign C (s_signer s) body w = (Inr sig, w')"
    and n: "note = note_text body [sig_line (s_Name s) (s_hash s @ sig)]"
    by (auto simp: Sign_def Let_def note_text_def ebind_Inr_iff ewrap_Inr split: if_splits)
  from sg r have "kmsSigner_Sign C r (s_pub s) body w = (Inr sig, w')" by (simp add: signer_Sign_def)
  then have "verifies C (s_pub s) body sig" unfolding kmsSigner_Sign_Inr_iff by blast
  with n t show ?thesis by (rule that)
qed

lemma VerifySignature_verifies:
  assumes "ed25519_contract C" "length h = 4" "sp \<notin> set name"
    "pub = EdPub k" "verifies C pub body sig"
  shows "VerifySignature C body (sig_line name (h @ sig)) pub Ed25519Origin = Inr ()"
proof -
  have "length sig = ed25519SigSize"
    using assms(1,4,5) by (auto simp: ed25519_contract_def verifies_def)
  with assms show ?thesis
    by (simp add: VerifySignature_def DecodeSigLine_sig_line verifies_def)
qed

lemma SignTlogCheckpoint_ed25519:
  "s_Role s = RoleOrigin \<Longrightarrow> s_SigType s = Ed25519Origin \<Longrightarrow> ParseCheckpoint FL body = Inr p \<Longrightarrow>
   SignTlogCheckpoint C F FL body s = Sign C body s"
  by (intro ext) (simp add: SignTlogCheckpoint_def ebind_elift)

lemma SignTlogCheckpoint_Inr:
  assumes "SignTlogCheckpoint C F FL body s w = (Inr note, w')"
  shows "s_Role s = RoleOrigin \<and> (\<exists>p. ParseCheckpoint FL body = Inr p)"
  using assms by (auto simp: SignTlogCheckpoint_def ebind_Inr_iff split: if_splits)

lemma CosignTlogCheckpoint_Inr:
  assumes "CosignTlogCheckpoint C F FL note s w = (Inr line, w')"
  shows "s_Role s = RoleCosigner \<and> (\<exists>body p. ExtractBody note = Inr body \<and> ParseCheckpoint FL body = Inr p)"
  using assms by (auto simp: CosignTlogCheckpoint_def ebind_Inr_iff split: if_splits)

text \<open>
  The checkpoint format of the library: three lines that parse back to the checkpoint and in
  which the signatures of a note cannot start.
\<close>

definition checkpoint_format :: "log_lib \<Rightarrow> string \<Rightarrow> bool" where
  "checkpoint_format FL origin \<longleftrightarrow>
     (\<forall>n h. is_hash h \<longrightarrow> body_ok (checkpoint_Marshal FL (NewCheckpoint origin n h)) \<and>
        checkpoint_Unmarshal FL (checkpoint_Marshal FL (NewCheckpoint origin n h)) = Inr (NewCheckpoint origin n h))"

end
