(* ===== verification/Gitutil.thy ===== *)
theory Gitutil
  imports Go_Encoding
begin

section \<open>Refs and git invocations (\<^verbatim>\<open>internal/gitutil\<close>)\<close>

text \<open>
  \<^verbatim>\<open>ref.go\<close>: the two kinds of ref. \<^verbatim>\<open>repo.go\<close>: every git invocation of the program, built
  as a \<^verbatim>\<open>Cmd\<close> and run by \<^verbatim>\<open>Cmd.Run\<close>. The operating system is a parameter \<open>os\<close>: starting a
  process, the environment, temporary directories, and the order in which Go ranges over a
  map. What \<^verbatim>\<open>git\<close> does is stated by contracts (named predicates on the parameter), never
  defined.
\<close>

subsection \<open>\<^verbatim>\<open>ref.go\<close>\<close>

datatype RefKind = RefBranch | RefTag

definition tags_prefix :: string where "tags_prefix = ''refs/tags/''"
definition heads_prefix :: string where "heads_prefix = ''refs/heads/''"

definition ParseRefKind :: "string \<Rightarrow> RefKind res" where
  "ParseRefKind ref =
     (if HasPrefix ref tags_prefix then Inr RefTag
      else if HasPrefix ref heads_prefix then Inr RefBranch
      else Inl (Errorf ''unrecognised ref prefix: %q'' [FStr ref]))"

lemma tags_heads_disjoint: "\<not> (HasPrefix s tags_prefix \<and> HasPrefix s heads_prefix)"
proof
  assume a: "HasPrefix s tags_prefix \<and> HasPrefix s heads_prefix"
  then have "take 6 s = take 6 tags_prefix" "take 6 s = take 6 heads_prefix"
    by (auto simp: prefix_def tags_prefix_def heads_prefix_def)
  then show False by (simp add: tags_prefix_def heads_prefix_def)
qed

lemma ParseRefKind_Inr_iff:
  "ParseRefKind ref = Inr k \<longleftrightarrow>
     (k = RefTag \<and> HasPrefix ref tags_prefix) \<or> (k = RefBranch \<and> HasPrefix ref heads_prefix)"
  using tags_heads_disjoint [of ref] by (auto simp: ParseRefKind_def)

lemma ParseRefKind_nonempty: "ParseRefKind ref = Inr k \<Longrightarrow> ref \<noteq> []"
  by (auto simp: ParseRefKind_Inr_iff tags_prefix_def heads_prefix_def)

lemma ParseRefKind_hd: "ParseRefKind ref = Inr k \<Longrightarrow> hd ref = CHR ''r''"
  by (auto simp: ParseRefKind_Inr_iff tags_prefix_def heads_prefix_def prefix_def)

subsection \<open>The operating system\<close>

text \<open>
  \<open>exec_command\<close> is \<^verbatim>\<open>exec.Command(name, args...).Run()\<close> with its environment (\<open>None\<close>:
  inherited) and standard input (\<open>None\<close>: empty): the exit status with what was written to
  standard output and standard error, or a failure to run at all. \<open>map_keys_order\<close> is the
  order in which \<^verbatim>\<open>range\<close> visits the keys of a map; Go leaves it open.
\<close>

datatype exec_result = Exited int string string | NotRun goerr

record 'w os =
  exec_command :: "string \<Rightarrow> string list \<Rightarrow> string list option \<Rightarrow> string option \<Rightarrow> 'w \<Rightarrow> exec_result \<times> 'w"
  Environ :: "string list"
  MkdirTemp :: "string \<Rightarrow> string \<Rightarrow> ('w, string) io"
  RemoveAll :: "string \<Rightarrow> 'w \<Rightarrow> 'w"
  filepath_Join :: "string \<Rightarrow> string \<Rightarrow> string"
  map_keys_order :: "string list \<Rightarrow> string list"

subsection \<open>\<^verbatim>\<open>repo.go\<close>: building and running an invocation\<close>

record git_cmd =
  cmd_repoDir :: string
  cmd_env :: "string list"
  cmd_stdin :: string

definition Git :: "string \<Rightarrow> git_cmd" where
  "Git repoDir = \<lparr>cmd_repoDir = repoDir, cmd_env = [], cmd_stdin = []\<rparr>"

definition WithEnv :: "git_cmd \<Rightarrow> string list \<Rightarrow> git_cmd" where
  "WithEnv c env = c\<lparr>cmd_env := cmd_env c @ env\<rparr>"

definition WithStdin :: "git_cmd \<Rightarrow> string \<Rightarrow> git_cmd" where
  "WithStdin c inp = c\<lparr>cmd_stdin := inp\<rparr>"

definition git_argv :: "string \<Rightarrow> string list \<Rightarrow> string list" where
  "git_argv repoDir args = [''-C'', repoDir, ''--no-replace-objects''] @ args"

definition exit_message :: "string list \<Rightarrow> int \<Rightarrow> string \<Rightarrow> goerr" where
  "exit_message args code stderr =
     (let e = TrimSpace stderr in
      ExitError code
        (if e = [] then ''git '' @ Join args '' '' @ '': exit status '' @ Itoa code
         else ''git '' @ Join args '' '' @ '': '' @ e @ '' (exit status '' @ Itoa code @ '')''))"

definition Run :: "'w os \<Rightarrow> git_cmd \<Rightarrow> string list \<Rightarrow> ('w, string) io" where
  "Run os c args w =
     (let env = (if cmd_env c \<noteq> [] then Some (Environ os @ cmd_env c) else None);
          inp = (if cmd_stdin c \<noteq> [] then Some (cmd_stdin c) else None)
      in case exec_command os ''git'' (git_argv (cmd_repoDir c) args) env inp w of
           (Exited code stdout stderr, w') \<Rightarrow>
             (if code = 0 then (Inr stdout, w') else (Inl (exit_message args code stderr), w'))
         | (NotRun err, w') \<Rightarrow> (Inl (Wrapf ''git %s: %w'' [FStr (Join args '' '')] err), w'))"

definition ResolveRef :: "'w os \<Rightarrow> string \<Rightarrow> string \<Rightarrow> ('w, string) io" where
  "ResolveRef os repoDir ref =
     ebind (ewrap ''resolving %s: %w'' [FStr ref] (Run os (Git repoDir) [''rev-parse'', ref]))
       (\<lambda>out. eret (TrimSpace out))"

definition HashObject :: "'w os \<Rightarrow> string \<Rightarrow> string \<Rightarrow> ('w, string) io" where
  "HashObject os repoDir content =
     ebind (ewrap ''writing blob: %w'' []
              (Run os (WithStdin (Git repoDir) content) [''hash-object'', ''-w'', ''--stdin'']))
       (\<lambda>out. eret (TrimSpace out))"

definition RefExists :: "'w os \<Rightarrow> string \<Rightarrow> string \<Rightarrow> ('w, bool) io" where
  "RefExists os repoDir ref =
     etry (Run os (Git repoDir) [''rev-parse'', ''--verify'', ''--quiet'', ref])
       (\<lambda>r. eret (case r of Inr _ \<Rightarrow> True | Inl _ \<Rightarrow> False))"

definition CatFile :: "'w os \<Rightarrow> string \<Rightarrow> string \<Rightarrow> ('w, string) io" where
  "CatFile os repoDir object = Run os (Git repoDir) [''cat-file'', ''-p'', object]"

text \<open>Exit status 1 of \<^verbatim>\<open>merge-base --is-ancestor\<close> is an answer; anything else is a failure.\<close>

definition IsAncestor :: "'w os \<Rightarrow> string \<Rightarrow> string \<Rightarrow> string \<Rightarrow> ('w, bool) io" where
  "IsAncestor os repoDir ancestor descendant =
     etry (Run os (Git repoDir) [''merge-base'', ''--is-ancestor'', ancestor, descendant])
       (\<lambda>r. case r of
              Inl err \<Rightarrow> (if errors_As_ExitError err = Some 1 then eret False else efail err)
            | Inr _ \<Rightarrow> eret True)"

subsection \<open>Contracts of the git queries\<close>

text \<open>
  \<^verbatim>\<open>rev-parse\<close>, \<^verbatim>\<open>cat-file\<close>, \<^verbatim>\<open>ls-tree\<close> and \<^verbatim>\<open>merge-base\<close> are queries: they change nothing
  in the repository.
\<close>

definition is_query :: "string list \<Rightarrow> bool" where
  "is_query args \<longleftrightarrow> args \<noteq> [] \<and> hd args \<in> {''rev-parse'', ''cat-file'', ''ls-tree'', ''merge-base''}"

definition queries_read_only :: "'w os \<Rightarrow> bool" where
  "queries_read_only os \<longleftrightarrow>
     (\<forall>dir args env inp w. is_query args \<longrightarrow>
        snd (exec_command os ''git'' (git_argv dir args) env inp w) = w)"

lemma Run_query_pure: "queries_read_only os \<Longrightarrow> is_query args \<Longrightarrow> pure_at (Run os c args) w"
proof -
  assume q: "queries_read_only os" "is_query args"
  define env where "env = (if cmd_env c \<noteq> [] then Some (Environ os @ cmd_env c) else None)"
  define inp where "inp = (if cmd_stdin c \<noteq> [] then Some (cmd_stdin c) else None)"
  obtain r w' where x: "exec_command os ''git'' (git_argv (cmd_repoDir c) args) env inp w = (r, w')"
    by fastforce
  with q have "w' = w" by (metis queries_read_only_def snd_conv)
  with x show ?thesis
    by (simp add: pure_at_def Run_def env_def [symmetric] inp_def [symmetric] split: exec_result.split)
qed

lemma ResolveRef_pure [pure_intros]: "queries_read_only os \<Longrightarrow> pure_at (ResolveRef os d r) w"
  unfolding ResolveRef_def by (intro pure_intros Run_query_pure) (simp_all add: is_query_def)

lemma RefExists_pure [pure_intros]: "queries_read_only os \<Longrightarrow> pure_at (RefExists os d r) w"
  unfolding RefExists_def by (intro pure_intros Run_query_pure) (simp_all add: is_query_def)

lemma CatFile_pure [pure_intros]: "queries_read_only os \<Longrightarrow> pure_at (CatFile os d r) w"
  unfolding CatFile_def by (intro pure_intros Run_query_pure) (simp_all add: is_query_def)

lemma IsAncestor_pure [pure_intros]: "queries_read_only os \<Longrightarrow> pure_at (IsAncestor os d a b) w"
  unfolding IsAncestor_def
  by (intro pure_intros Run_query_pure)
     (auto simp: is_query_def split: sum.splits)

text \<open>
  The commit graph that \<^verbatim>\<open>merge-base --is-ancestor\<close> walks: the commit an object name denotes
  (an annotated tag is peeled), and the parents of a commit. The documented statuses are 0
  for an ancestor, 1 for a commit that is not one, anything else for an error.
\<close>

record commit_graph =
  peel :: "string \<Rightarrow> string option"
  parents :: "string \<Rightarrow> string list"

definition reaches :: "commit_graph \<Rightarrow> string \<Rightarrow> string \<Rightarrow> bool" where
  "reaches G d a \<longleftrightarrow> (\<lambda>c p. p \<in> set (parents G c))\<^sup>*\<^sup>* d a"

definition is_ancestor :: "commit_graph \<Rightarrow> string \<Rightarrow> string \<Rightarrow> bool" where
  "is_ancestor G a d \<longleftrightarrow>
     (case (peel G a, peel G d) of (Some ca, Some cd) \<Rightarrow> reaches G cd ca | _ \<Rightarrow> False)"

definition ancestry_contract :: "'w os \<Rightarrow> string \<Rightarrow> ('w \<Rightarrow> commit_graph) \<Rightarrow> bool" where
  "ancestry_contract os dir graph \<longleftrightarrow>
     (\<forall>a d w. \<exists>code out err.
        exec_command os ''git'' (git_argv dir [''merge-base'', ''--is-ancestor'', a, d]) None None w
          = (Exited code out err, w) \<and>
        (code = 0 \<longleftrightarrow> is_ancestor (graph w) a d) \<and>
        (code = 1 \<longleftrightarrow> peel (graph w) a \<noteq> None \<and> peel (graph w) d \<noteq> None \<and> \<not> is_ancestor (graph w) a d))"

lemma is_ancestor_refl: "peel G a = Some c \<Longrightarrow> is_ancestor G a a"
  by (simp add: is_ancestor_def reaches_def)

lemma is_ancestor_trans: "is_ancestor G a b \<Longrightarrow> is_ancestor G b c \<Longrightarrow> is_ancestor G a c"
  by (auto simp: is_ancestor_def reaches_def split: option.splits)

lemma is_ancestor_commits: "is_ancestor G a b \<Longrightarrow> peel G a \<noteq> None \<and> peel G b \<noteq> None"
  by (auto simp: is_ancestor_def split: option.splits)

lemma errors_As_exit_message [simp]: "errors_As_ExitError (exit_message args code e) = Some code"
  by (simp add: exit_message_def Let_def)

text \<open>What \<^verbatim>\<open>IsAncestor\<close> returns, on every status.\<close>

lemma IsAncestor_result:
  assumes "ancestry_contract os dir graph"
  shows "(is_ancestor (graph w) a d \<longrightarrow> IsAncestor os dir a d w = (Inr True, w)) \<and>
         (peel (graph w) a \<noteq> None \<and> peel (graph w) d \<noteq> None \<and> \<not> is_ancestor (graph w) a d \<longrightarrow>
            IsAncestor os dir a d w = (Inr False, w)) \<and>
         (peel (graph w) a = None \<or> peel (graph w) d = None \<longrightarrow>
            (\<exists>e. IsAncestor os dir a d w = (Inl e, w)))"
proof -
  have "\<exists>code out err.
        exec_command os ''git'' (git_argv dir [''merge-base'', ''--is-ancestor'', a, d]) None None w
          = (Exited code out err, w) \<and>
        (code = 0 \<longleftrightarrow> is_ancestor (graph w) a d) \<and>
        (code = 1 \<longleftrightarrow> peel (graph w) a \<noteq> None \<and> peel (graph w) d \<noteq> None \<and> \<not> is_ancestor (graph w) a d)"
    using assms unfolding ancestry_contract_def by (elim allE)
  then obtain code out err where
    x: "exec_command os ''git'' (git_argv dir [''merge-base'', ''--is-ancestor'', a, d]) None None w
          = (Exited code out err, w)" and
    0: "code = 0 \<longleftrightarrow> is_ancestor (graph w) a d" and
    1: "code = 1 \<longleftrightarrow> peel (graph w) a \<noteq> None \<and> peel (graph w) d \<noteq> None \<and> \<not> is_ancestor (graph w) a d"
    by (elim exE conjE)
  obtain E where r: "IsAncestor os dir a d w =
      (if code = 0 then (Inr True, w) else if code = 1 then (Inr False, w) else (Inl E, w))"
  proof
    show "IsAncestor os dir a d w =
      (if code = 0 then (Inr True, w) else if code = 1 then (Inr False, w)
       else (Inl (exit_message [''merge-base'', ''--is-ancestor'', a, d] code err), w))"
      by (simp add: IsAncestor_def etry_def Run_def Git_def x)
  qed
  show ?thesis
  proof (cases "is_ancestor (graph w) a d")
    case True
    with 0 r is_ancestor_commits [OF True] show ?thesis by simp
  next
    case False
    with 0 1 r show ?thesis by simp
  qed
qed

lemma IsAncestor_True_iff:
  "ancestry_contract os dir graph \<Longrightarrow>
   IsAncestor os dir a d w = (Inr True, w') \<longleftrightarrow> is_ancestor (graph w) a d \<and> w' = w"
  using IsAncestor_result [of os dir graph w a d] is_ancestor_commits [of "graph w" a d]
  by (cases "is_ancestor (graph w) a d"; cases "peel (graph w) a = None \<or> peel (graph w) d = None") auto

lemma IsAncestor_state:
  "ancestry_contract os dir graph \<Longrightarrow> snd (IsAncestor os dir a d w) = w"
  using IsAncestor_result [of os dir graph w a d]
  by (cases "is_ancestor (graph w) a d"; cases "peel (graph w) a = None \<or> peel (graph w) d = None") auto

text \<open>
  \<open>refs w name\<close> is the object a revision name denotes: for a full ref name the object it
  points at. \<^verbatim>\<open>rev-parse\<close> prints it on one line, or fails where the name denotes nothing.
\<close>

definition object_id :: "string \<Rightarrow> bool" where
  "object_id h \<longleftrightarrow> h \<noteq> [] \<and> \<not> is_space_edge (hd h) \<and> \<not> is_space_edge (last h)"

definition rev_parse_contract :: "'w os \<Rightarrow> string \<Rightarrow> ('w \<Rightarrow> string \<rightharpoonup> string) \<Rightarrow> bool" where
  "rev_parse_contract os dir refs \<longleftrightarrow>
     (\<forall>ref w. case refs w ref of
        Some h \<Rightarrow> object_id h \<and>
          (\<exists>err. exec_command os ''git'' (git_argv dir [''rev-parse'', ref]) None None w
                   = (Exited 0 (h @ [nl]) err, w))
      | None \<Rightarrow>
          (\<exists>code out err. code \<noteq> 0 \<and>
             exec_command os ''git'' (git_argv dir [''rev-parse'', ref]) None None w
               = (Exited code out err, w)))"

lemma ResolveRef_result:
  assumes c: "rev_parse_contract os dir refs"
  shows "case refs w ref of Some h \<Rightarrow> ResolveRef os dir ref w = (Inr h, w)
         | None \<Rightarrow> \<exists>e. ResolveRef os dir ref w = (Inl e, w)"
proof -
  note c = c [unfolded rev_parse_contract_def, THEN spec [of _ ref], THEN spec [of _ w]]
  show ?thesis
  proof (cases "refs w ref")
    case None
    with c obtain code out err where "code \<noteq> 0"
      "exec_command os ''git'' (git_argv dir [''rev-parse'', ref]) None None w = (Exited code out err, w)"
      by (simp only: option.case) (elim exE conjE)
    with None show ?thesis by (simp add: ResolveRef_def ebind_def ewrap_def Run_def Git_def)
  next
    case (Some h)
    with c have "object_id h" and "\<exists>err. exec_command os ''git'' (git_argv dir [''rev-parse'', ref]) None None w
        = (Exited 0 (h @ [nl]) err, w)"
      by (simp_all only: option.case)
    then obtain err where "object_id h"
      "exec_command os ''git'' (git_argv dir [''rev-parse'', ref]) None None w = (Exited 0 (h @ [nl]) err, w)"
      by (elim exE)
    with Some show ?thesis
      by (simp add: ResolveRef_def ebind_def ewrap_def Run_def Git_def TrimSpace_newline object_id_def)
  qed
qed

lemma ResolveRef_Inr_iff:
  "rev_parse_contract os dir refs \<Longrightarrow>
   ResolveRef os dir ref w = (Inr h, w') \<longleftrightarrow> refs w ref = Some h \<and> w' = w"
  using ResolveRef_result [of os dir refs ref w] by (cases "refs w ref") auto

lemma ResolveRef_state: "rev_parse_contract os dir refs \<Longrightarrow> pure_at (ResolveRef os dir ref) w"
  using ResolveRef_result [of os dir refs ref w] by (cases "refs w ref") (auto simp: pure_at_def)

lemma IsAncestor_at: "ancestry_contract os dir graph \<Longrightarrow> pure_at (IsAncestor os dir a d) w"
  by (simp add: pure_at_def IsAncestor_state)

end
