(* ===== verification/Log_Entry.thy ===== *)
theory Log_Entry
  imports Gitutil
begin

section \<open>Log entries (\<^verbatim>\<open>internal/gitlog/entry.go\<close>)\<close>

text \<open>
  An entry is newline-terminated lines; the first names its type. The one known type,
  \<^verbatim>\<open>ref-record/v1\<close>, states that a ref pointed at an object. The encoding is canonical: this
  theory proves that a recognised entry has exactly one byte string per statement, that
  what \<^verbatim>\<open>NewRefRecord\<close> writes \<^verbatim>\<open>ParseEntry\<close> reads back, and what each check refuses.
\<close>

definition TypeRefRecord :: string where
  "TypeRefRecord = ''ref-record/v1''"

definition MaxEntrySize :: nat where
  "MaxEntrySize = 65535"

definition knownTypes :: "string \<Rightarrow> bool" where
  "knownTypes t \<longleftrightarrow> t = TypeRefRecord"

record entry =
  entry_raw :: string
  entry_Type :: string

definition entry_known :: "entry \<Rightarrow> bool" where
  "entry_known e \<longleftrightarrow> knownTypes (entry_Type e)"

record RefRecord =
  rr_Ref :: string
  rr_Object :: string

subsection \<open>Validation\<close>

definition validateRefRecord :: "string \<Rightarrow> string \<Rightarrow> unit res" where
  "validateRefRecord ref object =
     (case ParseRefKind ref of
        Inl err \<Rightarrow> Inl (wrap_err ''ref-record entry: %w'' [] err)
      | Inr _ \<Rightarrow>
        if length object \<noteq> 40 \<and> length object \<noteq> 64 then
          Inl (Errorf ''ref-record entry: object hash %q is %d characters, want 40 or 64''
                 [FStr object, FNat (length object)])
        else if ToLower object \<noteq> object then
          Inl (Errorf ''ref-record entry: object hash %q must be lowercase'' [FStr object])
        else if hex_DecodeString object = None then
          Inl (Errorf ''ref-record entry: object hash %q is not hex'' [FStr object])
        else Inr ())"

definition NewRefRecord :: "string \<Rightarrow> string \<Rightarrow> entry res" where
  "NewRefRecord ref object =
     rbind (validateRefRecord ref object) (\<lambda>_.
       let raw = TypeRefRecord @ [nl] @ ref @ [sp] @ object @ [nl] in
       if length raw > MaxEntrySize then
         Inl (Errorf ''entry is %d bytes, exceeding the %d-byte limit'' [FNat (length raw), FNat MaxEntrySize])
       else Inr \<lparr>entry_raw = raw, entry_Type = TypeRefRecord\<rparr>)"

subsection \<open>Framing\<close>

text \<open>The loop over the lines, \<open>i\<close> being the index of the first.\<close>

fun check_lines :: "nat \<Rightarrow> string list \<Rightarrow> unit res" where
  "check_lines i [] = Inr ()"
| "check_lines i (line # rest) =
     (if ContainsRune line cr then
        Inl (Errorf ''malformed log entry: line %d contains a carriage return'' [FNat (i + 1)])
      else if line \<noteq> TrimRight line [sp, tab] then
        Inl (Errorf ''malformed log entry: line %d has trailing whitespace'' [FNat (i + 1)])
      else check_lines (Suc i) rest)"

definition entryLines :: "string \<Rightarrow> string list res" where
  "entryLines raw =
     (if length raw = 0 then Inl (Errorf ''malformed log entry: empty'' [])
      else if length raw > MaxEntrySize then
        Inl (Errorf ''malformed log entry: %d bytes exceeds the %d-byte limit''
               [FNat (length raw), FNat MaxEntrySize])
      else if last raw \<noteq> nl then Inl (Errorf ''malformed log entry: must end with a newline'' [])
      else
        let lines = Split (butlast raw) nl in
        rbind (check_lines 0 lines) (\<lambda>_. Inr lines))"

subsection \<open>Decoding\<close>

definition AsRefRecord :: "entry \<Rightarrow> RefRecord res" where
  "AsRefRecord e =
     (if entry_Type e \<noteq> TypeRefRecord then
        Inl (Errorf ''entry is of type %q, not %q'' [FStr (entry_Type e), FStr TypeRefRecord])
      else
        rbind (entryLines (entry_raw e)) (\<lambda>lines.
          if length lines \<noteq> 2 then
            Inl (Errorf ''%s entry has %d lines, want 2'' [FStr TypeRefRecord, FNat (length lines)])
          else
            case Cut (lines ! 1) [sp] of
              (ref, object, False) \<Rightarrow>
                Inl (Errorf ''%s entry: expected <ref> <object>'' [FStr TypeRefRecord])
            | (ref, object, True) \<Rightarrow>
                rbind (validateRefRecord ref object) (\<lambda>_.
                  Inr \<lparr>rr_Ref = ref, rr_Object = object\<rparr>)))"

definition entry_validate :: "entry \<Rightarrow> unit res" where
  "entry_validate e =
     (if entry_Type e = TypeRefRecord then rbind (AsRefRecord e) (\<lambda>_. Inr ()) else Inr ())"

definition ParseEntry :: "string \<Rightarrow> entry res" where
  "ParseEntry raw =
     rbind (entryLines raw) (\<lambda>lines.
       let entryType = lines ! 0 in
       if entryType = [] then Inl (Errorf ''malformed log entry: empty type line'' [])
       else if ContainsAny entryType [sp, tab] then
         Inl (Errorf ''malformed log entry: type %q contains whitespace'' [FStr entryType])
       else
         let e = \<lparr>entry_raw = raw, entry_Type = entryType\<rparr> in
         if entry_known e then rbind (entry_validate e) (\<lambda>_. Inr e) else Inr e)"

subsection \<open>The framing, characterised\<close>

definition line_ok :: "string \<Rightarrow> bool" where
  "line_ok l \<longleftrightarrow> nl \<notin> set l \<and> cr \<notin> set l \<and> (l = [] \<or> last l \<noteq> sp \<and> last l \<noteq> tab)"

lemma check_lines_Inr_iff:
  "check_lines i ls = Inr () \<longleftrightarrow> (\<forall>l\<in>set ls. cr \<notin> set l \<and> (l = [] \<or> last l \<noteq> sp \<and> last l \<noteq> tab))"
  by (induction i ls rule: check_lines.induct)
     (auto simp: ContainsRune_def TrimRight_fixed_iff eq_commute [of _ "TrimRight _ _"])

lemma entryLines_Inr_iff:
  "entryLines raw = Inr ls \<longleftrightarrow>
     length raw \<le> MaxEntrySize \<and> ls \<noteq> [] \<and> raw = Join ls [nl] @ [nl] \<and> (\<forall>l\<in>set ls. line_ok l)"
proof
  assume a: "entryLines raw = Inr ls"
  then have ne: "raw \<noteq> []" and len: "length raw \<le> MaxEntrySize" and l: "last raw = nl"
    and ls: "ls = Split (butlast raw) nl" and c: "check_lines 0 ls = Inr ()"
    by (auto simp: entryLines_def Let_def rbind_Inr_iff split: if_splits)
  have "raw = butlast raw @ [nl]" using ne l by (metis append_butlast_last_id)
  then have "raw = Join ls [nl] @ [nl]" using ls by (simp add: Join_Split)
  moreover have "\<forall>l\<in>set ls. line_ok l"
    using c ls Split_no_sep [of _ "butlast raw" nl] by (auto simp: check_lines_Inr_iff line_ok_def)
  ultimately show "length raw \<le> MaxEntrySize \<and> ls \<noteq> [] \<and> raw = Join ls [nl] @ [nl] \<and> (\<forall>l\<in>set ls. line_ok l)"
    using len ls by auto
next
  assume b: "length raw \<le> MaxEntrySize \<and> ls \<noteq> [] \<and> raw = Join ls [nl] @ [nl] \<and> (\<forall>l\<in>set ls. line_ok l)"
  then have "Split (Join ls [nl]) nl = ls" by (intro Split_Join) (auto simp: line_ok_def)
  moreover have "check_lines 0 ls = Inr ()"
    using b by (auto simp: check_lines_Inr_iff line_ok_def)
  ultimately show "entryLines raw = Inr ls"
    using b by (auto simp: entryLines_def Let_def)
qed

definition object_ok :: "string \<Rightarrow> bool" where
  "object_ok h \<longleftrightarrow> (length h = 40 \<or> length h = 64) \<and> (\<forall>c\<in>set h. lower_hex_char c)"

lemma object_ok_hex:
  "object_ok h \<longleftrightarrow> (length h = 40 \<or> length h = 64) \<and> ToLower h = h \<and> hex_DecodeString h \<noteq> None"
proof -
  have "even (length h)" if "length h = 40 \<or> length h = 64" using that by auto
  then show ?thesis
    unfolding object_ok_def ToLower_fixed_iff lower_hex_char_iff hex_DecodeString_Some_iff by blast
qed

lemma validateRefRecord_Inr_iff:
  "validateRefRecord ref object = Inr () \<longleftrightarrow> (\<exists>k. ParseRefKind ref = Inr k) \<and> object_ok object"
  by (auto simp: validateRefRecord_def object_ok_hex split: sum.splits)

lemma lower_hex_char_not_ws:
  "lower_hex_char c \<Longrightarrow> c \<noteq> nl \<and> c \<noteq> cr \<and> c \<noteq> sp \<and> c \<noteq> tab \<and> \<not> is_space_edge c"
  by (auto simp: lower_hex_char_def space_edge_char)

lemma object_ok_chars:
  assumes "object_ok h"
  shows "h \<noteq> [] \<and> nl \<notin> set h \<and> cr \<notin> set h \<and> sp \<notin> set h \<and> tab \<notin> set h \<and>
    last h \<noteq> sp \<and> last h \<noteq> tab \<and> \<not> is_space_edge (hd h) \<and> \<not> is_space_edge (last h)"
proof -
  have ne: "h \<noteq> []" using assms by (auto simp: object_ok_def)
  have "\<forall>c\<in>set h. c \<noteq> nl \<and> c \<noteq> cr \<and> c \<noteq> sp \<and> c \<noteq> tab \<and> \<not> is_space_edge c"
    using assms by (intro ballI lower_hex_char_not_ws) (simp add: object_ok_def)
  with hd_in_set [OF ne] last_in_set [OF ne] ne show ?thesis by blast
qed

subsection \<open>Statements and their one encoding\<close>

text \<open>
  The abstract view of a recognised entry is the statement it makes; \<open>encode_record\<close> is its
  written form.
\<close>

definition encode_record :: "RefRecord \<Rightarrow> string" where
  "encode_record r = TypeRefRecord @ [nl] @ rr_Ref r @ [sp] @ rr_Object r @ [nl]"

definition record_ok :: "RefRecord \<Rightarrow> bool" where
  "record_ok r \<longleftrightarrow> (\<exists>k. ParseRefKind (rr_Ref r) = Inr k) \<and> object_ok (rr_Object r)
     \<and> sp \<notin> set (rr_Ref r) \<and> nl \<notin> set (rr_Ref r) \<and> cr \<notin> set (rr_Ref r)
     \<and> length (encode_record r) \<le> MaxEntrySize"

lemma TypeRefRecord_line_ok [simp]: "line_ok TypeRefRecord" "TypeRefRecord \<noteq> []"
  "\<not> ContainsAny TypeRefRecord [sp, tab]"
  by (auto simp: line_ok_def TypeRefRecord_def ContainsAny_def)

lemma record_line_ok: "record_ok r \<Longrightarrow> line_ok (rr_Ref r @ sp # rr_Object r)"
  using object_ok_chars [of "rr_Object r"]
  by (auto simp: record_ok_def line_ok_def)

lemma entryLines_encode:
  "record_ok r \<Longrightarrow> entryLines (encode_record r) = Inr [TypeRefRecord, rr_Ref r @ sp # rr_Object r]"
  unfolding entryLines_Inr_iff using record_line_ok [of r]
  by (auto simp: record_ok_def encode_record_def)

lemma AsRefRecord_Inr_iff:
  "AsRefRecord e = Inr r \<longleftrightarrow>
     entry_Type e = TypeRefRecord \<and>
     (\<exists>t. length (entry_raw e) \<le> MaxEntrySize \<and> line_ok t \<and>
        entry_raw e = t @ [nl] @ rr_Ref r @ [sp] @ rr_Object r @ [nl]) \<and>
     (\<exists>k. ParseRefKind (rr_Ref r) = Inr k) \<and> object_ok (rr_Object r) \<and>
     sp \<notin> set (rr_Ref r) \<and> nl \<notin> set (rr_Ref r) \<and> cr \<notin> set (rr_Ref r)"
  (is "?L \<longleftrightarrow> ?R")
proof
  assume ?L
  then obtain ls where t: "entry_Type e = TypeRefRecord" and ls: "entryLines (entry_raw e) = Inr ls"
    and len: "length ls = 2" and c: "Cut (ls ! 1) [sp] = (rr_Ref r, rr_Object r, True)"
    and v: "validateRefRecord (rr_Ref r) (rr_Object r) = Inr ()"
    by (auto simp: AsRefRecord_def rbind_Inr_iff split: if_splits prod.splits bool.splits)
  from len obtain a b where ab: "ls = [a, b]"
    by (auto simp: length_Suc_conv numeral_2_eq_2)
  from ab c have b: "b = rr_Ref r @ sp # rr_Object r" and s: "sp \<notin> set (rr_Ref r)"
    by (auto simp: Cut_char_True)
  from ls ab have "line_ok a" "line_ok b" "length (entry_raw e) \<le> MaxEntrySize"
    "entry_raw e = a @ [nl] @ b @ [nl]"
    by (auto simp: entryLines_Inr_iff)
  with t b s v show ?R by (auto simp: validateRefRecord_Inr_iff line_ok_def)
next
  assume R: ?R
  then obtain t where t: "length (entry_raw e) \<le> MaxEntrySize" "line_ok t"
    "entry_raw e = t @ [nl] @ rr_Ref r @ [sp] @ rr_Object r @ [nl]" by blast
  from R have "line_ok (rr_Ref r @ sp # rr_Object r)"
    using object_ok_chars [of "rr_Object r"]
    by (auto simp: line_ok_def)
  with t have "entryLines (entry_raw e) = Inr [t, rr_Ref r @ sp # rr_Object r]"
    unfolding entryLines_Inr_iff by auto
  moreover have "validateRefRecord (rr_Ref r) (rr_Object r) = Inr ()"
    using R by (auto simp: validateRefRecord_Inr_iff)
  ultimately show ?L using R by (simp add: AsRefRecord_def Cut_char)
qed

text \<open>
  The invariant of every entry the program handles: its type is its first line, it is framed,
  and a recognised entry decodes. Both ways of making an entry establish it.
\<close>

definition entry_ok :: "entry \<Rightarrow> bool" where
  "entry_ok e \<longleftrightarrow> ParseEntry (entry_raw e) = Inr e"

lemma ParseEntry_raw: "ParseEntry raw = Inr e \<Longrightarrow> entry_raw e = raw"
  by (auto simp: ParseEntry_def rbind_Inr_iff Let_def split: if_splits)

lemma ParseEntry_ok: "ParseEntry raw = Inr e \<Longrightarrow> entry_ok e"
  using ParseEntry_raw by (auto simp: entry_ok_def)

lemma ParseEntry_size: "ParseEntry raw = Inr e \<Longrightarrow> 0 < length raw \<and> length raw \<le> MaxEntrySize"
  by (auto simp: ParseEntry_def rbind_Inr_iff entryLines_Inr_iff)

lemma entry_ok_size: "entry_ok e \<Longrightarrow> length (entry_raw e) \<le> MaxEntrySize"
  using ParseEntry_size by (auto simp: entry_ok_def)

lemma entry_ok_decodes:
  assumes "entry_ok e" "entry_Type e = TypeRefRecord"
  shows "\<exists>r. AsRefRecord e = Inr r"
proof -
  from assms(1) have v: "entry_known e \<Longrightarrow> entry_validate e = Inr ()"
    by (auto simp: entry_ok_def ParseEntry_def rbind_Inr_iff Let_def split: if_splits)
  have "entry_validate e = Inr ()" using assms(2) by (intro v) (simp add: entry_known_def knownTypes_def)
  with assms(2) show ?thesis by (auto simp: entry_validate_def rbind_Inr_iff)
qed

lemma ParseEntry_type_line:
  assumes "ParseEntry raw = Inr e"
  shows "\<exists>rest. raw = entry_Type e @ [nl] @ rest \<and> line_ok (entry_Type e)"
proof -
  from assms obtain ls where ls: "entryLines raw = Inr ls" "entry_Type e = ls ! 0"
    by (auto simp: ParseEntry_def rbind_Inr_iff Let_def split: if_splits)
  then obtain l ms where "ls = l # ms" by (auto simp: entryLines_Inr_iff neq_Nil_conv)
  with ls show ?thesis by (cases ms) (auto simp: entryLines_Inr_iff)
qed

lemma entry_ok_canonical:
  assumes "entry_ok e" "AsRefRecord e = Inr r"
  shows "entry_raw e = encode_record r \<and> record_ok r"
proof -
  from assms(2) obtain t where t: "entry_Type e = TypeRefRecord" "line_ok t"
    "entry_raw e = t @ [nl] @ rr_Ref r @ [sp] @ rr_Object r @ [nl]"
    and rest: "length (entry_raw e) \<le> MaxEntrySize" "\<exists>k. ParseRefKind (rr_Ref r) = Inr k"
      "object_ok (rr_Object r)" "sp \<notin> set (rr_Ref r)" "nl \<notin> set (rr_Ref r)" "cr \<notin> set (rr_Ref r)"
    by (auto simp: AsRefRecord_Inr_iff)
  from assms(1) obtain u where u: "entry_raw e = TypeRefRecord @ [nl] @ u"
    using ParseEntry_type_line [of "entry_raw e" e] t(1) by (auto simp: entry_ok_def)
  have "Cut (entry_raw e) [nl] = (t, rr_Ref r @ [sp] @ rr_Object r @ [nl], True)"
    using t by (simp add: Cut_char line_ok_def)
  moreover have "Cut (entry_raw e) [nl] = (TypeRefRecord, u, True)"
    using u TypeRefRecord_line_ok(1) by (simp add: Cut_char line_ok_def)
  ultimately have "t = TypeRefRecord" by simp
  with t(3) have "entry_raw e = encode_record r" by (simp add: encode_record_def)
  with rest show ?thesis by (simp add: record_ok_def)
qed

lemma NewRefRecord_Inr_iff:
  "NewRefRecord ref object = Inr e \<longleftrightarrow>
     (\<exists>k. ParseRefKind ref = Inr k) \<and> object_ok object \<and>
     e = \<lparr>entry_raw = encode_record \<lparr>rr_Ref = ref, rr_Object = object\<rparr>, entry_Type = TypeRefRecord\<rparr> \<and>
     length (entry_raw e) \<le> MaxEntrySize"
  by (auto simp: NewRefRecord_def rbind_Inr_iff validateRefRecord_Inr_iff Let_def encode_record_def)

lemma AsRefRecord_encode:
  "record_ok r \<Longrightarrow> AsRefRecord \<lparr>entry_raw = encode_record r, entry_Type = TypeRefRecord\<rparr> = Inr r"
  unfolding AsRefRecord_Inr_iff
  by (auto simp: record_ok_def encode_record_def intro!: exI [of _ TypeRefRecord])

lemma ParseEntry_encode:
  "record_ok r \<Longrightarrow>
   ParseEntry (encode_record r) = Inr \<lparr>entry_raw = encode_record r, entry_Type = TypeRefRecord\<rparr>"
  by (simp add: ParseEntry_def entryLines_encode AsRefRecord_encode entry_known_def knownTypes_def
      entry_validate_def)

lemma AsRefRecord_New:
  assumes n: "NewRefRecord ref object = Inr e" and a: "AsRefRecord e = Inr r"
  shows "r = \<lparr>rr_Ref = ref, rr_Object = object\<rparr> \<and> record_ok r \<and> entry_ok e"
proof -
  let ?q = "\<lparr>rr_Ref = ref, rr_Object = object\<rparr>"
  from n have e: "e = \<lparr>entry_raw = encode_record ?q, entry_Type = TypeRefRecord\<rparr>"
    and len: "length (encode_record ?q) \<le> MaxEntrySize"
    and k: "\<exists>k. ParseRefKind ref = Inr k" and ob: "object_ok object"
    by (auto simp: NewRefRecord_Inr_iff)
  from a e obtain t where t: "line_ok t"
    "encode_record ?q = t @ [nl] @ rr_Ref r @ [sp] @ rr_Object r @ [nl]"
    and r: "object_ok (rr_Object r)" "sp \<notin> set (rr_Ref r)" "nl \<notin> set (rr_Ref r)" "cr \<notin> set (rr_Ref r)"
    by (auto simp: AsRefRecord_Inr_iff)
  have "Cut (encode_record ?q) [nl] = (TypeRefRecord, ref @ [sp] @ object @ [nl], True)"
    using TypeRefRecord_line_ok(1) by (simp add: encode_record_def Cut_char line_ok_def)
  moreover have "Cut (encode_record ?q) [nl] = (t, rr_Ref r @ [sp] @ rr_Object r @ [nl], True)"
    using t by (simp add: Cut_char line_ok_def)
  ultimately have eq: "ref @ sp # object = rr_Ref r @ sp # rr_Object r" by simp
  have "sp \<notin> set object" "sp \<notin> set (rr_Object r)" using ob r object_ok_chars by auto
  with eq r(2) have "ref = rr_Ref r \<and> object = rr_Object r"
    by (metis (no_types, lifting) append_Cons_eq_iff in_set_conv_decomp append_eq_append_conv2 Cut_char
        append_assoc append_Cons prod.inject in_set_conv_decomp_first in_set_conv_decomp_last)
  then have rq: "r = ?q" by simp
  then have "record_ok ?q" using r len k ob by (auto simp: record_ok_def)
  then show ?thesis using rq e ParseEntry_encode by (simp add: entry_ok_def)
qed

end
