(* ===== verification/Gitlog.thy ===== *)
theory Gitlog
  imports Log_Entry Tlog "HOL-Library.AList"
begin

section \<open>The log in the repository (\<^verbatim>\<open>internal/gitlog/gitlog.go\<close>)\<close>

text \<open>
  The in-memory log, its reading from and writing to \<^verbatim>\<open>refs/ratchet/log\<close>, and the operations
  its clients use. The bundle paths and the bundle decoder are \<^verbatim>\<open>tessera\<close>'s, a parameter
  (\<open>tessera_lib\<close>). What the operations promise the commands is the locale \<open>ref_log\<close>,
  interpreted on the model; what they do to the repository is proved in \<open>Git_Store\<close>.
\<close>

record tessera_lib =
  ParseTileIndexPartial :: "string \<Rightarrow> (uint64 \<times> uint8) res"
  EntriesPath :: "uint64 \<Rightarrow> uint8 \<Rightarrow> string"
  EntryBundle_UnmarshalText :: "string \<Rightarrow> string list res"

definition LogRef :: string where
  "LogRef = ''refs/ratchet/log''"

definition EntriesPerBundle :: nat where
  "EntriesPerBundle = 256"

definition checkpointPath :: string where
  "checkpointPath = ''checkpoint''"

definition entriesPrefix :: string where
  "entriesPrefix = ''tile/entries/''"

record glog =
  log_repoDir :: string
  log_entries :: "entry list"
  log_checkpoint :: string
  log_head :: string

definition empty_log :: "string \<Rightarrow> glog" where
  "empty_log repoDir = \<lparr>log_repoDir = repoDir, log_entries = [], log_checkpoint = [], log_head = []\<rparr>"

subsection \<open>Reading\<close>

text \<open>The bundle paths keyed by bundle index, from the lines \<^verbatim>\<open>ls-tree\<close> printed.\<close>

fun collect_bundles :: "tessera_lib \<Rightarrow> (uint64 \<times> string) list \<Rightarrow> string list \<Rightarrow> (uint64 \<times> string) list res" where
  "collect_bundles TL bundles [] = Inr bundles"
| "collect_bundles TL bundles (line # lines) =
     (let path = TrimSpace line in
      if path = [] then collect_bundles TL bundles lines
      else case CutPrefix path entriesPrefix of
        None \<Rightarrow> Inl (Errorf ''unexpected object in log tree: %q'' [FStr path])
      | Some index \<Rightarrow>
          rbind (rwrap ''unexpected object in log tree %q: %w'' [FStr path] (ParseTileIndexPartial TL index))
            (\<lambda>(n, _).
              case map_of bundles n of
                Some prev \<Rightarrow> Inl (Errorf ''log tree has two bundles for index %d: %q and %q''
                                   [FNat (unat n), FStr prev, FStr path])
              | None \<Rightarrow> collect_bundles TL ((n, path) # bundles) lines))"

definition read_bundle :: "'w os \<Rightarrow> tessera_lib \<Rightarrow> string \<Rightarrow> (uint64 \<times> string) list \<Rightarrow> nat \<Rightarrow> ('w, entry list) io" where
  "read_bundle os TL repoDir bundles i =
     (case map_of bundles (of_nat i) of
        None \<Rightarrow> efail (Errorf ''log tree is missing entry bundle %d'' [FNat i])
      | Some path \<Rightarrow>
          ebind (ewrap ''reading entry bundle %s: %w'' [FStr path] (CatFile os repoDir (LogRef @ '':'' @ path)))
            (\<lambda>content. ebind (elift (rwrap ''decoding entry bundle %s: %w'' [FStr path]
                                       (EntryBundle_UnmarshalText TL content)))
              (\<lambda>raws. elift (res_map ParseEntry raws))))"

definition readEntries :: "'w os \<Rightarrow> tessera_lib \<Rightarrow> string \<Rightarrow> ('w, entry list) io" where
  "readEntries os TL repoDir =
     etry (Run os (Git repoDir) [''ls-tree'', ''-r'', ''--name-only'', LogRef, entriesPrefix])
       (\<lambda>r. case r of
          Inl err \<Rightarrow> eret []
        | Inr out \<Rightarrow>
            ebind (elift (collect_bundles TL [] (Split (TrimSpace out) nl))) (\<lambda>bundles.
              ebind (emap (read_bundle os TL repoDir bundles) [0..<length bundles])
                (\<lambda>ess. eret (concat ess))))"

definition Open :: "'w os \<Rightarrow> tessera_lib \<Rightarrow> string \<Rightarrow> ('w, glog) io" where
  "Open os TL repoDir =
     (let l = empty_log repoDir in
      ebind (RefExists os repoDir LogRef) (\<lambda>ok.
        if \<not> ok then eret l
        else
          ebind (ewrap ''resolving %s: %w'' [FStr LogRef] (ResolveRef os repoDir LogRef)) (\<lambda>head.
            etry (CatFile os repoDir (LogRef @ '':'' @ checkpointPath)) (\<lambda>cp.
              let l = l\<lparr>log_head := head, log_checkpoint := (case cp of Inr c \<Rightarrow> c | Inl _ \<Rightarrow> [])\<rparr> in
              ebind (readEntries os TL repoDir) (\<lambda>es. eret (l\<lparr>log_entries := es\<rparr>))))))"

subsection \<open>The in-memory operations\<close>

text \<open>\<open>len\<close> never returns a negative value, so the assertion in \<^verbatim>\<open>tlog.Count\<close> holds.\<close>

definition Size :: "glog \<Rightarrow> uint64" where
  "Size l = of_nat (length (log_entries l))"

lemma Size_Count: "Count (int (length (log_entries l))) = Inr (Size l)"
  by (simp add: Size_def)

definition StoredCheckpoint :: "glog \<Rightarrow> string" where
  "StoredCheckpoint l = log_checkpoint l"

definition leafHashes :: "('rng, 'nodes) merkle_lib \<Rightarrow> glog \<Rightarrow> hash list res" where
  "leafHashes L l = res_map (\<lambda>e. HashLeaf L (entry_raw e)) (log_entries l)"

definition LogRoot :: "('rng, 'nodes) merkle_lib \<Rightarrow> glog \<Rightarrow> hash res" where
  "LogRoot L l = rbind (leafHashes L l) (Root L)"

definition Append :: "glog \<Rightarrow> entry \<Rightarrow> glog" where
  "Append l e = l\<lparr>log_entries := log_entries l @ [e]\<rparr>"

definition Checkpointed :: "('rng, 'nodes) merkle_lib \<Rightarrow> glog \<Rightarrow> checkpoint \<Rightarrow> glog res" where
  "Checkpointed L l cp =
     (if cp_Size cp > Size l then
        Inl (Errorf ''checkpoint commits to %d entries but the log holds %d''
               [FNat (unat (cp_Size cp)), FNat (unat (Size l))])
      else
        rbind (rwrap ''checkpoint root hash: %w'' [] (RootFromBytes (cp_Hash cp))) (\<lambda>root.
          let trimmed = l\<lparr>log_entries := take (unat (cp_Size cp)) (log_entries l)\<rparr> in
          rbind (LogRoot L trimmed) (\<lambda>r.
            if r \<noteq> root then
              Inl (Errorf ''the first %d entries do not reproduce the root hash of the checkpoint''
                     [FNat (unat (cp_Size cp))])
            else Inr trimmed)))"

text \<open>The loops of \<^verbatim>\<open>Refs\<close> and \<^verbatim>\<open>RefRecords\<close>; \<open>i\<close> is the index of the first entry.\<close>

fun collect_refs :: "nat \<Rightarrow> string list \<Rightarrow> entry list \<Rightarrow> string list res" where
  "collect_refs i seen [] = Inr seen"
| "collect_refs i seen (e # es) =
     (if entry_Type e \<noteq> TypeRefRecord then collect_refs (Suc i) seen es
      else rbind (rwrap ''log entry %d: %w'' [FNat i] (AsRefRecord e)) (\<lambda>rr.
             collect_refs (Suc i) (List.insert (rr_Ref rr) seen) es))"

definition Refs :: "'w os \<Rightarrow> glog \<Rightarrow> string list res" where
  "Refs os l = rbind (collect_refs 0 [] (log_entries l)) (\<lambda>seen. Inr (map_keys_order os seen))"

fun collect_records :: "nat \<Rightarrow> string \<Rightarrow> entry list \<Rightarrow> RefRecord list res" where
  "collect_records i ref [] = Inr []"
| "collect_records i ref (e # es) =
     (if entry_Type e \<noteq> TypeRefRecord then collect_records (Suc i) ref es
      else rbind (rwrap ''log entry %d: %w'' [FNat i] (AsRefRecord e)) (\<lambda>rr.
             rbind (collect_records (Suc i) ref es) (\<lambda>out.
               Inr (if rr_Ref rr = ref then rr # out else out))))"

definition RefRecords :: "glog \<Rightarrow> string \<Rightarrow> RefRecord list res" where
  "RefRecords l ref = collect_records 0 ref (log_entries l)"

definition ConsistencyProofFrom :: "('rng, 'nodes) merkle_lib \<Rightarrow> glog \<Rightarrow> uint64 \<Rightarrow> hash list res" where
  "ConsistencyProofFrom L l m = rbind (leafHashes L l) (\<lambda>hs. ConsistencyProof L hs m)"

subsection \<open>Writing\<close>

fun marshalBundle :: "entry list \<Rightarrow> string res" where
  "marshalBundle [] = Inr []"
| "marshalBundle (e # es) =
     (if length (entry_raw e) > MaxEntrySize then
        Inl (Errorf ''entry is %d bytes, exceeding the %d-byte limit''
               [FNat (length (entry_raw e)), FNat MaxEntrySize])
      else rbind (marshalBundle es) (\<lambda>buf.
             Inr (PutUint16 (of_nat (length (entry_raw e))) @ entry_raw e @ buf)))"

text \<open>The loop of \<^verbatim>\<open>Save\<close> over the bundles, and the map it fills.\<close>

function save_bundles :: "'w os \<Rightarrow> tessera_lib \<Rightarrow> glog \<Rightarrow> nat \<Rightarrow> (string \<times> string) list
                          \<Rightarrow> ('w, (string \<times> string) list) io" where
  "save_bundles os TL l start blobs =
     (if start < length (log_entries l) then
        let hi = min (start + EntriesPerBundle) (length (log_entries l)) in
        ebind (elift (marshalBundle (take (hi - start) (drop start (log_entries l))))) (\<lambda>content.
          ebind (ewrap ''writing entry bundle: %w'' [] (HashObject os (log_repoDir l) content)) (\<lambda>blob.
            let partial = (if hi - start < EntriesPerBundle then of_nat (hi - start) else 0) in
            save_bundles os TL l (start + EntriesPerBundle)
              (AList.update (EntriesPath TL (of_nat (start div EntriesPerBundle)) partial) blob blobs)))
      else eret blobs)"
  by pat_completeness auto
termination
  by (relation "measure (\<lambda>(os, TL, l, start, blobs). length (log_entries l) - start)")
     (auto simp: EntriesPerBundle_def)

declare save_bundles.simps [simp del]

definition index_env :: "'w os \<Rightarrow> string \<Rightarrow> string list" where
  "index_env os dir = [''GIT_INDEX_FILE='' @ filepath_Join os dir ''index'']"

definition cacheinfo :: "string \<Rightarrow> string \<Rightarrow> string" where
  "cacheinfo blob path = ''100644,'' @ blob @ '','' @ path"

text \<open>The body of \<^verbatim>\<open>writeTree\<close> once the scratch directory exists; the deferred removal follows it.\<close>

definition write_index :: "'w os \<Rightarrow> glog \<Rightarrow> (string \<times> string) list \<Rightarrow> string \<Rightarrow> ('w, string) io" where
  "write_index os l blobs dir =
     ebind (emap (\<lambda>path. ewrap ''adding %s to log tree: %w'' [FStr path]
                (Run os (WithEnv (Git (log_repoDir l)) (index_env os dir))
                   [''update-index'', ''--add'', ''--cacheinfo'',
                    cacheinfo (case map_of blobs path of Some b \<Rightarrow> b | None \<Rightarrow> []) path]))
             (map_keys_order os (map fst blobs)))
       (\<lambda>_. ebind (ewrap ''writing log tree: %w'' []
                    (Run os (WithEnv (Git (log_repoDir l)) (index_env os dir)) [''write-tree'']))
              (\<lambda>tree. eret (TrimSpace tree)))"

definition writeTree :: "'w os \<Rightarrow> glog \<Rightarrow> (string \<times> string) list \<Rightarrow> ('w, string) io" where
  "writeTree os l blobs =
     ebind (ewrap ''creating scratch index: %w'' [] (MkdirTemp os [] ''git-ratchet-log-index''))
       (\<lambda>dir w. case write_index os l blobs dir w of (r, w') \<Rightarrow> (r, RemoveAll os dir w'))"

definition commit_env :: "string list" where
  "commit_env = [''GIT_AUTHOR_NAME=git-ratchet'', ''GIT_AUTHOR_EMAIL=git-ratchet@localhost'',
                 ''GIT_COMMITTER_NAME=git-ratchet'', ''GIT_COMMITTER_EMAIL=git-ratchet@localhost'']"

definition commitTree :: "'w os \<Rightarrow> glog \<Rightarrow> string \<Rightarrow> string \<Rightarrow> ('w, string) io" where
  "commitTree os l tree message =
     (let args = [''commit-tree'', tree] @ (if log_head l \<noteq> [] then [''-p'', log_head l] else [])
                 @ [''-m'', message]
      in ebind (ewrap ''creating log commit: %w'' []
                  (Run os (WithEnv (Git (log_repoDir l)) commit_env) args))
           (\<lambda>commit. eret (TrimSpace commit)))"

definition Save :: "'w os \<Rightarrow> tessera_lib \<Rightarrow> glog \<Rightarrow> string \<Rightarrow> string \<Rightarrow> ('w, glog) io" where
  "Save os TL l checkpoint message =
     ebind (ewrap ''writing checkpoint blob: %w'' [] (HashObject os (log_repoDir l) checkpoint)) (\<lambda>cpBlob.
     ebind (save_bundles os TL l 0 [(checkpointPath, cpBlob)]) (\<lambda>blobs.
     ebind (writeTree os l blobs) (\<lambda>tree.
     ebind (commitTree os l tree message) (\<lambda>commit.
     ebind (ewrap ''updating %s (the log may have been advanced concurrently): %w'' [FStr LogRef]
              (Run os (Git (log_repoDir l)) [''update-ref'', LogRef, commit, log_head l])) (\<lambda>_.
       eret (l\<lparr>log_head := commit, log_checkpoint := checkpoint\<rparr>))))))"

subsection \<open>Well-formed logs\<close>

text \<open>
  Every entry of a log was parsed, or built by \<^verbatim>\<open>NewRefRecord\<close> from a ref that decodes. The
  entries fit a Go slice.
\<close>

definition log_ok :: "glog \<Rightarrow> bool" where
  "log_ok l \<longleftrightarrow> (\<forall>e\<in>set (log_entries l). entry_ok e)"

definition raws :: "glog \<Rightarrow> string list" where
  "raws l = map entry_raw (log_entries l)"

lemma log_ok_Append: "log_ok l \<Longrightarrow> entry_ok e \<Longrightarrow> log_ok (Append l e)"
  by (auto simp: log_ok_def Append_def)

lemma raws_Append: "raws (Append l e) = raws l @ [entry_raw e]"
  by (simp add: raws_def Append_def)

lemma Append_fields [simp]:
  "log_entries (Append l e) = log_entries l @ [e]" "log_repoDir (Append l e) = log_repoDir l"
  "log_checkpoint (Append l e) = log_checkpoint l" "log_head (Append l e) = log_head l"
  by (simp_all add: Append_def)

lemma log_ok_take: "log_ok l \<Longrightarrow> log_ok (l\<lparr>log_entries := take n (log_entries l)\<rparr>)"
  by (auto simp: log_ok_def dest: in_set_takeD)

subsection \<open>Reading a ref's records\<close>

text \<open>
  The abstract view of a log is the sequence of statements it makes: the records of its
  recognised entries, in order.
\<close>

definition record_of :: "entry \<Rightarrow> RefRecord option" where
  "record_of e =
     (if entry_Type e = TypeRefRecord then (case AsRefRecord e of Inr r \<Rightarrow> Some r | Inl _ \<Rightarrow> None) else None)"

definition statements :: "entry list \<Rightarrow> RefRecord list" where
  "statements es = List.map_filter record_of es"

lemma statements_simps [simp]:
  "statements [] = []"
  "statements (e # es) = (case record_of e of Some r \<Rightarrow> r # statements es | None \<Rightarrow> statements es)"
  "statements (es @ fs) = statements es @ statements fs"
  by (auto simp: statements_def List.map_filter_def split: option.splits)

definition decodable :: "entry \<Rightarrow> bool" where
  "decodable e \<longleftrightarrow> (entry_Type e = TypeRefRecord \<longrightarrow> (\<exists>r. AsRefRecord e = Inr r))"

lemma entry_ok_decodable: "entry_ok e \<Longrightarrow> decodable e"
  by (simp add: decodable_def entry_ok_decodes)

lemma collect_records_Inr_iff:
  "collect_records i ref es = Inr rs \<longleftrightarrow>
     (\<forall>e\<in>set es. decodable e) \<and> rs = filter (\<lambda>r. rr_Ref r = ref) (statements es)"
proof (induction i ref es arbitrary: rs rule: collect_records.induct)
  case (2 i ref e es)
  show ?case
  proof (cases "entry_Type e = TypeRefRecord")
    case False
    with 2 show ?thesis by (simp add: decodable_def record_of_def)
  next
    case True
    show ?thesis
    proof (cases "AsRefRecord e")
      case (Inl err)
      with True show ?thesis by (auto simp: decodable_def)
    next
      case (Inr r)
      with True 2 show ?thesis by (auto simp: decodable_def record_of_def rbind_Inr_iff)
    qed
  qed
qed auto

lemma RefRecords_Inr_iff:
  "RefRecords l ref = Inr rs \<longleftrightarrow>
     (\<forall>e\<in>set (log_entries l). decodable e) \<and> rs = filter (\<lambda>r. rr_Ref r = ref) (statements (log_entries l))"
  by (simp add: RefRecords_def collect_records_Inr_iff)

lemma collect_refs_Inr_iff:
  "collect_refs i seen es = Inr out \<longleftrightarrow>
     (\<forall>e\<in>set es. decodable e) \<and> out = fold (\<lambda>r. List.insert (rr_Ref r)) (statements es) seen"
proof (induction i seen es rule: collect_refs.induct)
  case (2 i seen e es)
  show ?case
  proof (cases "entry_Type e = TypeRefRecord")
    case False
    with 2 show ?thesis by (simp add: decodable_def record_of_def)
  next
    case True
    show ?thesis
    proof (cases "AsRefRecord e")
      case (Inl err)
      with True show ?thesis by (auto simp: decodable_def)
    next
      case (Inr r)
      with True 2 show ?thesis by (auto simp: decodable_def record_of_def)
    qed
  qed
qed auto

lemma set_fold_insert_refs:
  "set (fold (\<lambda>r. List.insert (rr_Ref r)) rs seen) = set seen \<union> rr_Ref ` set rs"
  by (induction rs arbitrary: seen) auto

text \<open>Go ranges over a map in some order: a permutation of its keys.\<close>

definition map_order_contract :: "'w os \<Rightarrow> bool" where
  "map_order_contract os \<longleftrightarrow>
     (\<forall>ks. distinct ks \<longrightarrow> set (map_keys_order os ks) = set ks \<and> distinct (map_keys_order os ks))"

lemma distinct_fold_insert_refs:
  "distinct seen \<Longrightarrow> distinct (fold (\<lambda>r. List.insert (rr_Ref r)) rs seen)"
  by (induction rs arbitrary: seen) auto

lemma Refs_Inr:
  assumes "map_order_contract os" "Refs os l = Inr refs"
  shows "set refs = rr_Ref ` set (statements (log_entries l)) \<and> distinct refs \<and>
    (\<forall>e\<in>set (log_entries l). decodable e)"
proof -
  let ?ks = "fold (\<lambda>r. List.insert (rr_Ref r)) (statements (log_entries l)) []"
  from assms(2) have d: "\<forall>e\<in>set (log_entries l). decodable e" and r: "refs = map_keys_order os ?ks"
    by (auto simp: Refs_def rbind_Inr_iff collect_refs_Inr_iff)
  have "distinct ?ks" by (rule distinct_fold_insert_refs) simp
  then have "set refs = set ?ks \<and> distinct refs"
    unfolding r using assms(1) [unfolded map_order_contract_def, rule_format, of ?ks] by simp
  with d show ?thesis by (simp add: set_fold_insert_refs)
qed

subsection \<open>What a log promises its clients\<close>

text \<open>
  The commands see a log through its size, its records per ref and appending. \<open>ref_log\<close>
  states the laws; the client lemmas follow from them alone.
\<close>

locale ref_log =
  fixes size_of :: "'l \<Rightarrow> nat" and records :: "'l \<Rightarrow> string \<Rightarrow> RefRecord list res"
    and append :: "'l \<Rightarrow> entry \<Rightarrow> 'l" and wf :: "'l \<Rightarrow> bool"
  assumes size_append: "size_of (append l e) = Suc (size_of l)"
    and wf_append: "wf l \<Longrightarrow> entry_ok e \<Longrightarrow> wf (append l e)"
    and records_wf: "wf l \<Longrightarrow> \<exists>rs. records l ref = Inr rs"
    and records_append: "wf l \<Longrightarrow> entry_ok e \<Longrightarrow> records l ref = Inr rs \<Longrightarrow>
      records (append l e) ref = Inr (rs @ (case record_of e of
         Some r \<Rightarrow> if rr_Ref r = ref then [r] else [] | None \<Rightarrow> []))"
begin

lemma wf_appends: "wf l \<Longrightarrow> (\<And>e. e \<in> set es \<Longrightarrow> entry_ok e) \<Longrightarrow> wf (fold (\<lambda>e l. append l e) es l)"
  by (induction es arbitrary: l) (auto intro: wf_append)

lemma size_appends: "size_of (fold (\<lambda>e l. append l e) es l) = size_of l + length es"
  by (induction es arbitrary: l) (auto simp: size_append)

lemma records_appends:
  "wf l \<Longrightarrow> (\<And>e. e \<in> set es \<Longrightarrow> entry_ok e) \<Longrightarrow> records l ref = Inr rs \<Longrightarrow>
   records (fold (\<lambda>e l. append l e) es l) ref = Inr (rs @ filter (\<lambda>r. rr_Ref r = ref) (statements es))"
proof (induction es arbitrary: l rs)
  case (Cons e es)
  have "records (append l e) ref = Inr (rs @ (case record_of e of
      Some r \<Rightarrow> if rr_Ref r = ref then [r] else [] | None \<Rightarrow> []))"
    using Cons.prems by (intro records_append) auto
  moreover have "wf (append l e)" using Cons.prems by (intro wf_append) auto
  ultimately show ?case using Cons.IH Cons.prems(2) by (auto split: option.splits)
qed simp

text \<open>What was logged before an append is still there, at the front.\<close>

lemma records_grow:
  assumes "wf l" "\<And>e. e \<in> set es \<Longrightarrow> entry_ok e" "records l ref = Inr rs"
    "records (fold (\<lambda>e l. append l e) es l) ref = Inr rs'"
  shows "prefix rs rs'"
  using records_appends [OF assms(1-3)] assms(4) by auto

end

interpretation gl: ref_log "\<lambda>l. length (log_entries l)" RefRecords Append log_ok
proof unfold_locales
  fix l e ref rs
  assume "log_ok l" "entry_ok e" "RefRecords l ref = Inr rs"
  then show "RefRecords (Append l e) ref = Inr (rs @ (case record_of e of
         Some r \<Rightarrow> if rr_Ref r = ref then [r] else [] | None \<Rightarrow> []))"
    by (auto simp: RefRecords_Inr_iff entry_ok_decodable split: option.splits)
next
  fix l ref
  assume "log_ok l"
  then show "\<exists>rs. RefRecords l ref = Inr rs"
    by (auto simp: RefRecords_Inr_iff log_ok_def entry_ok_decodable)
qed (auto intro: log_ok_Append)

subsection \<open>The checkpointed prefix\<close>

lemma leafHashes_Inr:
  "hasher_contract L \<Longrightarrow> leafHashes L l = Inr (map (\<lambda>e. hasher_HashLeaf L (entry_raw e)) (log_entries l))"
  unfolding leafHashes_def
  by (intro res_map_all_Inr) (simp add: HashLeaf_def toHash_Inr_iff hasher_contract_def)

definition leaf_list :: "('rng, 'nodes) merkle_lib \<Rightarrow> entry list \<Rightarrow> hash list" where
  "leaf_list L es = map (\<lambda>e. hasher_HashLeaf L (entry_raw e)) es"

lemma leaf_list_hashes: "hasher_contract L \<Longrightarrow> h \<in> set (leaf_list L es) \<Longrightarrow> is_hash h"
  by (auto simp: leaf_list_def hasher_contract_def)

lemma LogRoot_Inr:
  "hasher_contract L \<Longrightarrow> range_contract L repr \<Longrightarrow>
   LogRoot L l = Inr (tree_hash L (leaf_list L (log_entries l)))"
  by (simp add: LogRoot_def leafHashes_Inr leaf_list_def [symmetric]
      Root_tree_hash [OF _ _ leaf_list_hashes])

lemma ConsistencyProofFrom_verified:
  assumes "hasher_contract L" "range_contract L repr" "proof_contract L" "go_len (log_entries l)"
  shows "case ConsistencyProofFrom L l m of
      Inl _ \<Rightarrow> length (log_entries l) < unat m
    | Inr p \<Rightarrow> unat m \<le> length (log_entries l) \<and>
        (if m = 0 \<or> unat m = length (log_entries l) then p = []
         else proof_accepted (hasher_HashChildren L) (unat m) (length (log_entries l))
                (tree_hash L (leaf_list L (take (unat m) (log_entries l))))
                (tree_hash L (leaf_list L (log_entries l))) p)"
proof -
  let ?xs = "leaf_list L (log_entries l)"
  have h: "\<And>x. x \<in> set ?xs \<Longrightarrow> is_hash x" using leaf_list_hashes [OF assms(1)] .
  have g: "go_len ?xs" and len: "length ?xs = length (log_entries l)"
    using assms(4) by (simp_all add: leaf_list_def)
  have p: "ConsistencyProofFrom L l m = ConsistencyProof L ?xs m"
    unfolding ConsistencyProofFrom_def using leafHashes_Inr [OF assms(1), of l] by (simp add: rbind_def leaf_list_def)
  consider "m = 0 \<or> unat m = length ?xs" | "length ?xs < unat m" | "0 < m" "unat m < length ?xs"
    by (metis linorder_neqE_nat word_gt_0)
  then show ?thesis
  proof cases
    case 1
    then have "unat m \<le> length ?xs" by auto
    with 1 show ?thesis unfolding p ConsistencyProof_trivial [OF g 1, of L] by (simp add: len)
  next
    case 2
    then show ?thesis unfolding p ConsistencyProof_out_of_range [OF g 2, of L] by (simp add: len)
  next
    case 3
    then have "0 < unat m" by (simp add: unat_gt_0)
    moreover have "tree_hash L (leaf_list L (take (unat m) (log_entries l))) = tree_hash L (take (unat m) ?xs)"
      by (simp add: leaf_list_def take_map)
    ultimately show ?thesis
      using 3 ConsistencyProof_subproof [OF assms(1-3) h g 3] rfc.proof_accepted_subproof [of "unat m" ?xs]
      by (simp add: p len)
  qed
qed

lemma Checkpointed_Inr_iff:
  assumes c: "hasher_contract L" "range_contract L repr" and g: "go_len (log_entries l)"
  shows "Checkpointed L l cp = Inr t \<longleftrightarrow>
     unat (cp_Size cp) \<le> length (log_entries l) \<and>
     t = l\<lparr>log_entries := take (unat (cp_Size cp)) (log_entries l)\<rparr> \<and>
     is_hash (cp_Hash cp) \<and> cp_Hash cp = tree_hash L (leaf_list L (log_entries t))"
proof -
  have "\<not> Size l < cp_Size cp \<longleftrightarrow> unat (cp_Size cp) \<le> length (log_entries l)"
    by (simp add: Size_def word_less_nat_alt go_len_unat [OF g] not_less)
  then show ?thesis
    by (auto simp: Checkpointed_def rbind_Inr_iff RootFromBytes_Inr_iff Let_def
        LogRoot_Inr [OF c] split: if_splits)
qed

subsection \<open>The bundle encoding\<close>

text \<open>
  The entry bundle of tlog-tiles, as a specification: each entry behind its length as a
  big-endian 16-bit integer.
\<close>

function bundle_decode :: "string \<Rightarrow> string list option" where
  "bundle_decode s =
     (if s = [] then Some []
      else if length s < 2 then None
      else let n = be_val 0 (take 2 s) in
        if length s < 2 + n then None
        else map_option (\<lambda>es. take n (drop 2 s) # es) (bundle_decode (drop (2 + n) s)))"
  by pat_completeness auto
termination
  by (relation "measure length") auto

declare bundle_decode.simps [simp del]

definition bundle_contract :: "tessera_lib \<Rightarrow> bool" where
  "bundle_contract TL \<longleftrightarrow>
     (\<forall>s. case bundle_decode s of
            Some es \<Rightarrow> EntryBundle_UnmarshalText TL s = Inr es
          | None \<Rightarrow> \<exists>err. EntryBundle_UnmarshalText TL s = Inl err)"

lemma bundle_decode_Cons:
  assumes "length raw \<le> MaxEntrySize"
  shows "bundle_decode (PutUint16 (of_nat (length raw)) @ raw @ rest)
           = map_option (\<lambda>es. raw # es) (bundle_decode rest)"
proof -
  let ?p = "PutUint16 (of_nat (length raw))"
  have u: "unat (of_nat (length raw) :: uint16) = length raw"
    using assms by (simp add: MaxEntrySize_def unat_of_nat)
  have n: "be_val 0 (take 2 (?p @ raw @ rest)) = length raw"
    by (simp add: be_val_PutUint16 u)
  have ne: "?p \<noteq> []" by (metis length_0_conv length_Put(1) zero_neq_numeral)
  have d: "drop (2 + length raw) (?p @ raw @ rest) = rest"
    and t: "take (length raw) (drop 2 (?p @ raw @ rest)) = raw" by simp_all
  show ?thesis
    unfolding bundle_decode.simps [of "?p @ raw @ rest"] Let_def n d t using ne by simp
qed

lemma bundle_decode_marshal: "marshalBundle es = Inr s \<Longrightarrow> bundle_decode s = Some (map entry_raw es)"
proof (induction es arbitrary: s)
  case Nil
  then show ?case by (simp add: bundle_decode.simps)
next
  case (Cons e es)
  then obtain buf where "length (entry_raw e) \<le> MaxEntrySize" "marshalBundle es = Inr buf"
    and s: "s = PutUint16 (of_nat (length (entry_raw e))) @ entry_raw e @ buf"
    by (auto simp: rbind_Inr_iff split: if_splits)
  with Cons.IH show ?case by (simp add: bundle_decode_Cons)
qed

lemma marshalBundle_Inr_iff:
  "(\<exists>s. marshalBundle es = Inr s) \<longleftrightarrow> (\<forall>e\<in>set es. length (entry_raw e) \<le> MaxEntrySize)"
  by (induction es) (auto simp: rbind_Inr_iff)

lemma marshalBundle_roundtrip:
  "bundle_contract TL \<Longrightarrow> marshalBundle es = Inr s \<Longrightarrow>
   EntryBundle_UnmarshalText TL s = Inr (map entry_raw es)"
  using bundle_decode_marshal [of es s] by (auto simp: bundle_contract_def split: option.splits)

lemma ParseEntry_raws:
  "(\<And>e. e \<in> set es \<Longrightarrow> entry_ok e) \<Longrightarrow> res_map ParseEntry (map entry_raw es) = Inr es"
  by (induction es) (auto simp: entry_ok_def)

end
