(* ===== verification/Example_Libraries.thy ===== *)
theory Example_Libraries
  imports Note_Tlog Gitlog
begin

section \<open>Example libraries\<close>

text \<open>
  Concrete functions that satisfy the contracts of the third-party code, for the witnesses:
  they show that the hypotheses of the theorems can hold together. They model nothing.
\<close>

subsection \<open>Cryptography\<close>

definition fit :: "nat \<Rightarrow> string \<Rightarrow> string" where
  "fit n s = take n (s @ replicate n (CHR 0x00))"

lemma length_fit [simp]: "length (fit n s) = n"
  by (simp add: fit_def)

lemma fit_id: "length s = n \<Longrightarrow> fit n s = s"
  by (simp add: fit_def)

definition ex_kms_key :: string where "ex_kms_key = fit 32 ''kms''"

definition ex_crypto :: "'w crypto" where
  "ex_crypto =
     \<lparr>sha256 = fit 32, ed25519_Public = fit 32,
      ed25519_Sign = (\<lambda>seed msg. fit 64 (fit 32 seed @ msg)),
      ed25519_Verify = (\<lambda>pub msg sig. sig = fit 64 (pub @ msg)),
      ed25519_GenerateKey = eret (fit 32 ''seed''),
      mldsa_NewPrivateKey = Inr, mldsa_Public = fit 1312,
      mldsa_Sign = (\<lambda>seed msg. Inr msg), mldsa_Verify = (\<lambda>pub msg sig. Inr ()),
      mldsa_NewPublicKey = Inr, mldsa_GenerateKey = eret (fit 32 ''seed''),
      NewKeyManagementClient = eret (),
      AsymmetricSign = (\<lambda>r msg crc. let sig = fit 64 (ex_kms_key @ msg) in
         eret \<lparr>sr_Signature = sig, sr_VerifiedDataCrc32C = True, sr_SignatureCrc32C = Some (uint (crc32c sig))\<rparr>),
      GetCryptoKeyVersion = (\<lambda>r. eret EC_SIGN_ED25519),
      GetPublicKey = (\<lambda>r f. eret \<lparr>pk_Pem = ex_kms_key, pk_Format = FORMAT_UNSPECIFIED, pk_Data = None\<rparr>),
      pem_Decode = Some, ParsePKIXPublicKey = (\<lambda>b. Inr (EdPub b)),
      time_Now_Unix = (\<lambda>w. (1700000000, w))\<rparr>"

lemma ex_crypto_contracts:
  "ed25519_contract ex_crypto" "sha256_contract ex_crypto" "mldsa_contract ex_crypto"
  by (simp_all add: ed25519_contract_def sha256_contract_def mldsa_contract_def ex_crypto_def
      ed25519SigSize_def ed25519PubKeySize_def mldsa44PubKeySize_def)

definition ex_origin :: Signer where
  "ex_origin = newEd25519Signer (ex_crypto :: unit crypto) ''log'' (fit 32 ''origin'') Ed25519Origin RoleOrigin"

definition ex_cosigner :: Signer where
  "ex_cosigner = newEd25519Signer (ex_crypto :: unit crypto) ''wit'' (fit 32 ''wit'') Ed25519Cosigner RoleCosigner"

lemma ex_signers:
  "local_signer ex_crypto ex_origin" "s_Name ex_origin = ''log''" "s_Role ex_origin = RoleOrigin"
  "s_SigType ex_origin = Ed25519Origin"
  "local_signer ex_crypto ex_cosigner" "s_Name ex_cosigner = ''wit''" "s_Role ex_cosigner = RoleCosigner"
  "s_SigType ex_cosigner = Ed25519Cosigner"
  by (simp_all add: local_signer_def ex_origin_def ex_cosigner_def newEd25519Signer_def keyHash_def ex_crypto_def)

subsection \<open>The Merkle tree\<close>

definition ex_merkle :: "(string list, uint64 \<times> uint64) merkle_lib" where
  "ex_merkle =
     \<lparr>hasher_HashLeaf = (\<lambda>d. fit 32 (CHR 0x00 # d)),
      hasher_HashChildren = (\<lambda>l r. fit 32 (CHR 0x01 # take 15 l @ r)),
      hasher_EmptyRoot = fit 32 [], hasher_Size = 32,
      NewEmptyRange = (\<lambda>n. []), range_Append = (\<lambda>hc r h. Inr (r @ [h])),
      range_GetRootHash = (\<lambda>hc r. Inr (mth hc (fit 32 []) r)),
      proof_Consistency = (\<lambda>m n. Inr (m, n)),
      nodes_IDs = (\<lambda>(m, n). map (\<lambda>i. (0, of_nat i)) [0..<unat n]),
      nodes_Rehash = (\<lambda>(m, n) hs hc. Inr (subproof (mth hc (fit 32 [])) (unat m) hs True))\<rparr>"

lemma ex_merkle_hasher: "hasher_contract ex_merkle"
  by (simp add: hasher_contract_def ex_merkle_def is_hash_def HashSize_def)

lemma ex_merkle_range: "range_contract ex_merkle (=)"
  by (simp add: range_contract_def ex_merkle_def)

lemma ex_merkle_subtree:
  "i < length xs \<Longrightarrow> length xs \<le> 2 ^ 64 - 1 \<Longrightarrow> subtree_hash ex_merkle xs (0, of_nat i) = xs ! i"
proof -
  assume i: "i < length xs" "length xs \<le> 2 ^ 64 - 1"
  then have "unat (of_nat i :: uint64) = i" by (simp add: unat_of_nat)
  with i show ?thesis by (simp add: subtree_hash_def take_Suc_conv_app_nth Cons_nth_drop_Suc [symmetric])
qed

lemma ex_merkle_proof: "proof_contract ex_merkle"
  unfolding proof_contract_def
proof (intro allI impI)
  fix m n :: uint64 assume "0 < m" "m < n"
  have "unat n < 2 ^ 64" by (rule order_less_le_trans [OF unsigned_less]) simp
  then have ub: "unat n \<le> 2 ^ 64 - 1" by simp
  have "in_tree (unat n) (0, of_nat i)" if "i < unat n" for i
  proof -
    have "unat (of_nat i :: uint64) = i" using that ub by (simp add: unat_of_nat)
    with that show ?thesis by (simp add: in_tree_def)
  qed
  moreover have "map (subtree_hash ex_merkle xs) (map (\<lambda>i. (0, of_nat i)) [0..<unat n]) = xs"
    if "length xs = unat n" for xs
    using that ub by (intro nth_equalityI) (auto simp: ex_merkle_subtree)
  ultimately show "\<exists>nd. proof_Consistency ex_merkle m n = Inr nd \<and>
           (\<forall>nid\<in>set (nodes_IDs ex_merkle nd). in_tree (unat n) nid) \<and>
           (\<forall>xs. length xs = unat n \<longrightarrow> (\<forall>x\<in>set xs. is_hash x) \<longrightarrow>
              nodes_Rehash ex_merkle nd (map (subtree_hash ex_merkle xs) (nodes_IDs ex_merkle nd))
                (hasher_HashChildren ex_merkle)
                = Inr (subproof (tree_hash ex_merkle) (unat m) xs True))"
    by (intro exI [of _ "(m, n)"]) (auto simp: ex_merkle_def)
qed

subsection \<open>Bundles and checkpoints\<close>

definition ex_tessera :: tessera_lib where
  "ex_tessera =
     \<lparr>ParseTileIndexPartial = (\<lambda>s. let (n, p, found) = Cut s ''p'' in Inr (of_nat (dec_val 0 n), of_nat (dec_val 0 p))),
      EntriesPath = (\<lambda>n p. entriesPrefix @ decimal (unat n) @ ''p'' @ decimal (unat p)),
      EntryBundle_UnmarshalText = (\<lambda>s. case bundle_decode s of Some es \<Rightarrow> Inr es | None \<Rightarrow> Inl (Errorf ''bad bundle'' []))\<rparr>"

lemma ex_tessera_bundle: "bundle_contract ex_tessera"
  by (simp add: bundle_contract_def ex_tessera_def split: option.split)

lemma digit_not: "is_digit c \<Longrightarrow> c \<noteq> CHR ''p'' \<and> c \<noteq> nl \<and> \<not> is_space_edge c"
  by (auto simp: is_digit_def space_edge_char)

text \<open>A checkpoint body with its three lines: the origin, the size, the root hash in base64.\<close>

definition ex_Unmarshal :: "string \<Rightarrow> checkpoint res" where
  "ex_Unmarshal body =
     (case Split body nl of
        [orig, n, root, e] \<Rightarrow>
          (case b64_decode root of
             Some h \<Rightarrow> Inr \<lparr>cp_Origin = orig, cp_Size = of_nat (dec_val 0 n), cp_Hash = h\<rparr>
           | None \<Rightarrow> Inl (Errorf ''bad checkpoint'' []))
      | _ \<Rightarrow> Inl (Errorf ''bad checkpoint'' []))"

definition ex_log :: log_lib where
  "ex_log =
     \<lparr>checkpoint_Unmarshal = ex_Unmarshal,
      checkpoint_Marshal = (\<lambda>cp. cp_Origin cp @ [nl] @ decimal (unat (cp_Size cp)) @ [nl] @ b64_encode (cp_Hash cp) @ [nl])\<rparr>"

text \<open>The library's signers: an ML-DSA-44 signer reads its name from the private key that is given to it.\<close>

definition ex_mldsa_line :: "string \<Rightarrow> string \<Rightarrow> string" where
  "ex_mldsa_line name body = sig_line name (''hash'' @ fit 2420 body)"

definition ex_formats :: "'w formats" where
  "ex_formats =
     \<lparr>fnote_NewSigner = (\<lambda>skey. Inr \<lparr>ns_Name = SplitN (drop 12 skey) (CHR ''+'') 3 ! 0, ns_Sign = (\<lambda>t. eret (fit 2420 t))\<rparr>),
      fnote_NewMLDSASignerFromCrypto = (\<lambda>n k. Inr \<lparr>ns_Name = n, ns_Sign = (\<lambda>t. eret (fit 2420 t))\<rparr>),
      sumdb_Sign = (\<lambda>t s. eret (note_text t [ex_mldsa_line (ns_Name s) t]))\<rparr>"

lemma ex_note_sign: "note_sign_contract ex_formats"
  by (auto simp: note_sign_contract_def ex_formats_def ex_mldsa_line_def)

definition ex_mldsa_origin :: Signer where
  "ex_mldsa_origin = newMLDSA44Signer (ex_crypto :: unit crypto) ''log'' (fit 32 ''origin'') RoleOrigin"

lemma ex_mldsa_signer:
  "s_Name ex_mldsa_origin = ''log''" "s_Role ex_mldsa_origin = RoleOrigin" "s_SigType ex_mldsa_origin = MLDSA44"
  "s_seed ex_mldsa_origin = fit 32 ''origin''"
  by (simp_all add: ex_mldsa_origin_def newMLDSA44Signer_def)

lemma ex_mldsa_checkpointSigner:
  "checkpointSigner ex_formats ex_mldsa_origin = Inr \<lparr>ns_Name = ''log'', ns_Sign = (\<lambda>t. eret (fit 2420 t))\<rparr>"
proof -
  have "fit 32 ''origin'' \<noteq> []" by (simp add: length_greater_0_conv [symmetric] del: length_greater_0_conv)
  then show ?thesis
    by (simp add: checkpointSigner_def SKey_def ex_mldsa_signer ex_formats_def SplitN_key [of "''log''", simplified])
qed

lemma ex_tessera_path:
  "\<exists>sfx. EntriesPath ex_tessera n p = entriesPrefix @ sfx \<and> sfx \<noteq> [] \<and> nl \<notin> set sfx \<and>
     \<not> is_space_edge (last sfx) \<and> ParseTileIndexPartial ex_tessera sfx = Inr (n, p)"
proof -
  let ?a = "decimal (unat n)" and ?b = "decimal (unat p)"
  have d: "c \<in> set ?a \<union> set ?b \<Longrightarrow> is_digit c" for c using decimal_digits by auto
  then have "CHR ''p'' \<notin> set ?a" using digit_not by blast
  then have "Cut (?a @ ''p'' @ ?b) ''p'' = (?a, ?b, True)" using Cut_char [of "CHR ''p''" ?a ?b] by simp
  moreover have "last ?b \<in> set ?b" by simp
  with d have "\<not> is_space_edge (last ?b)" using digit_not by blast
  moreover have "nl \<notin> set (?a @ ''p'' @ ?b)" using d digit_not by auto
  ultimately show ?thesis
    by (intro exI [of _ "?a @ ''p'' @ ?b"]) (simp add: ex_tessera_def dec_val_decimal)
qed

text \<open>What the example marshals it unmarshals.\<close>

lemma ex_log_roundtrip:
  assumes "nl \<notin> set (cp_Origin cp)"
  shows "checkpoint_Unmarshal ex_log (checkpoint_Marshal ex_log cp) = Inr cp"
proof -
  have b: "nl \<notin> set (b64_encode (cp_Hash cp))" using b64_encode_no_ws by blast
  have d: "nl \<notin> set (decimal (unat (cp_Size cp)))" using decimal_digits digit_not by blast
  show ?thesis using assms b d
    by (simp add: ex_log_def ex_Unmarshal_def Split_append dec_val_decimal)
qed

lemma ex_checkpoint_format: "checkpoint_format ex_log ''log''"
  unfolding checkpoint_format_def
proof (intro allI impI conjI)
  fix n :: uint64 and h :: hash assume "is_hash h"
  let ?b = "checkpoint_Marshal ex_log (NewCheckpoint ''log'' n h)"
  have "CHR 0xE2 \<notin> set (b64_encode h)" using b64_not_space [of "CHR 0xE2" h] by (auto simp: space_edge_char)
  moreover have "CHR 0xE2 \<notin> set (decimal (unat n))"
    using decimal_digits [of "CHR 0xE2" "unat n"] by (auto simp: is_digit_def)
  ultimately have "CHR 0xE2 \<notin> set (?b @ [nl])" by (simp add: ex_log_def NewCheckpoint_def)
  moreover have "CHR 0xE2 \<in> set note_sep" by (simp add: note_sep_def SigPrefix_def)
  ultimately have "\<not> sublist note_sep (?b @ [nl])" using set_mono_sublist by blast
  then show "body_ok ?b" by (simp add: body_ok_def ex_log_def)
  show "checkpoint_Unmarshal ex_log ?b = Inr (NewCheckpoint ''log'' n h)"
    by (rule ex_log_roundtrip) (simp add: NewCheckpoint_def)
qed

end
