(* ===== verification/Flags.thy ===== *)
theory Flags
  imports Go_Strings
begin

section \<open>Command-line flags\<close>

text \<open>
  What the commands use of Go's \<^verbatim>\<open>flag\<close> package: flag sets with string, duration and user-defined
  values (no boolean ones), and \<^verbatim>\<open>Parse\<close>. A flag set here is the variables its flags write, as one
  value of type \<open>'c\<close>, with the formal flags by name; a flag's \<^verbatim>\<open>Set\<close> may fail.
\<close>

type_synonym 'c setter = "string \<Rightarrow> 'c \<Rightarrow> 'c res"
type_synonym 'c flag_set = "(string \<times> 'c setter) list \<times> 'c"

text \<open>\<^verbatim>\<open>StringVar\<close> and \<^verbatim>\<open>DurationVar\<close> give the variable its default; \<^verbatim>\<open>Var\<close> leaves it.\<close>

definition StringVar :: "((string \<Rightarrow> string) \<Rightarrow> 'c \<Rightarrow> 'c) \<Rightarrow> string \<Rightarrow> string \<Rightarrow> 'c flag_set \<Rightarrow> 'c flag_set" where
  "StringVar upd name dflt f = (case f of (formal, c) \<Rightarrow>
     (formal @ [(name, \<lambda>v c. Inr (upd (\<lambda>_. v) c))], upd (\<lambda>_. dflt) c))"

definition DurationVar ::
    "(string \<Rightarrow> int res) \<Rightarrow> ((int \<Rightarrow> int) \<Rightarrow> 'c \<Rightarrow> 'c) \<Rightarrow> string \<Rightarrow> int \<Rightarrow> 'c flag_set \<Rightarrow> 'c flag_set" where
  "DurationVar ParseDuration upd name dflt f = (case f of (formal, c) \<Rightarrow>
     (formal @ [(name, \<lambda>v c. rbind (ParseDuration v) (\<lambda>d. Inr (upd (\<lambda>_. d) c)))], upd (\<lambda>_. dflt) c))"

definition Var :: "'c setter \<Rightarrow> string \<Rightarrow> 'c flag_set \<Rightarrow> 'c flag_set" where
  "Var setv name f = (case f of (formal, c) \<Rightarrow> (formal @ [(name, setv)], c))"

lemmas flag_set_defs = StringVar_def DurationVar_def Var_def

definition ErrHelp :: goerr where
  "ErrHelp = Sentinel ''flag: help requested''"

text \<open>\<^verbatim>\<open>-name=value\<close>: the name ends at the first equals sign after its first character.\<close>

definition flag_name :: "string \<Rightarrow> string \<times> string option" where
  "flag_name s = (case s of [] \<Rightarrow> ([], None)
     | c # cs \<Rightarrow> (case Cut cs ''='' of (before, after, found) \<Rightarrow> (c # before, if found then Some after else None)))"

definition flag_lookup :: "(string \<times> 'c setter) list \<Rightarrow> string \<Rightarrow> 'c setter res" where
  "flag_lookup formal name =
     (case map_of formal name of
        Some setv \<Rightarrow> Inr setv
      | None \<Rightarrow> Inl (if name = ''help'' \<or> name = ''h'' then ErrHelp
                     else Errorf ''flag provided but not defined: -%s'' [FStr name]))"

definition flag_Set :: "string \<Rightarrow> 'c setter \<Rightarrow> 'c setter" where
  "flag_Set name setv v c = rwrap ''invalid value %q for flag -%s: %v'' [FStr v, FStr name] (setv v c)"

text \<open>
  \<^verbatim>\<open>Parse\<close>, one turn of the loop per flag: the variables and the arguments left. Parsing ends at the
  first argument that is not a flag, or after \<^verbatim>\<open>--\<close>.
\<close>

fun FlagSet_Parse :: "(string \<times> 'c setter) list \<Rightarrow> 'c \<Rightarrow> string list \<Rightarrow> ('c \<times> string list) res" where
  "FlagSet_Parse formal c [] = Inr (c, [])"
| "FlagSet_Parse formal c (s # args) =
     (if length s < 2 \<or> hd s \<noteq> CHR ''-'' then Inr (c, s # args)
      else if s = ''--'' then Inr (c, args)
      else
        let name = drop (if s ! 1 = CHR ''-'' then 2 else 1) s in
        if name = [] \<or> hd name = CHR ''-'' \<or> hd name = CHR ''='' then Inl (Errorf ''bad flag syntax: %s'' [FStr s])
        else
          (case flag_name name of (name, v) \<Rightarrow>
             (case flag_lookup formal name of
                Inl err \<Rightarrow> Inl err
              | Inr setv \<Rightarrow>
                  (case v of
                     Some v \<Rightarrow>
                       (case flag_Set name setv v c of
                          Inl err \<Rightarrow> Inl err
                        | Inr c \<Rightarrow> FlagSet_Parse formal c args)
                   | None \<Rightarrow>
                       (case args of
                          [] \<Rightarrow> Inl (Errorf ''flag needs an argument: -%s'' [FStr name])
                        | v # args \<Rightarrow>
                            (case flag_Set name setv v c of
                               Inl err \<Rightarrow> Inl err
                             | Inr c \<Rightarrow> FlagSet_Parse formal c args))))))"

subsection \<open>Flags as they are written\<close>

text \<open>
  One dash or two, the value after an equals sign or as the next argument. A name that can be
  written starts with neither a dash nor an equals sign, and has no equals sign in it.
\<close>

datatype spelling = Spelled (dashes: nat) (joined: bool)

definition spelled :: "spelling \<Rightarrow> string \<Rightarrow> string \<Rightarrow> string list" where
  "spelled spl name v =
     (let d = replicate (dashes spl) (CHR ''-'') in
      if joined spl then [d @ name @ ''='' @ v] else [d @ name, v])"

definition spelling_ok :: "spelling \<Rightarrow> bool" where
  "spelling_ok spl \<longleftrightarrow> dashes spl = 1 \<or> dashes spl = 2"

definition flag_name_ok :: "string \<Rightarrow> bool" where
  "flag_name_ok name \<longleftrightarrow> name \<noteq> [] \<and> hd name \<noteq> CHR ''-'' \<and> CHR ''='' \<notin> set name"

lemma flag_name_plain: "flag_name_ok name \<Longrightarrow> flag_name name = (name, None)"
proof (cases name)
  case (Cons c cs)
  assume "flag_name_ok name"
  with Cons have "Cut cs ''='' = (cs, [], False)" using Cut_char_absent by (simp add: flag_name_ok_def)
  then show ?thesis by (simp add: flag_name_def Cons)
qed (simp add: flag_name_ok_def)

lemma flag_name_joined: "flag_name_ok name \<Longrightarrow> flag_name (name @ ''='' @ v) = (name, Some v)"
proof (cases name)
  case (Cons c cs)
  assume "flag_name_ok name"
  with Cons have "Cut (cs @ ''='' @ v) ''='' = (cs, v, True)"
    using Cut_char [of "CHR ''=''" cs v] by (simp add: flag_name_ok_def)
  then show ?thesis by (simp add: flag_name_def Cons)
qed (simp add: flag_name_ok_def)

text \<open>One turn of the loop, on an argument with one dash or two before its text.\<close>

lemma Parse_dashed:
  assumes "d = ''-'' \<or> d = ''--''" "body \<noteq> []" "hd body \<noteq> CHR ''-''" "hd body \<noteq> CHR ''=''"
    and "flag_name body = (name, v)" "map_of formal name = Some setv"
  shows "FlagSet_Parse formal c ((d @ body) # args) =
    (case (case v of Some v \<Rightarrow> Inr (v, args)
           | None \<Rightarrow> (case args of [] \<Rightarrow> Inl (Errorf ''flag needs an argument: -%s'' [FStr name]) | v # args \<Rightarrow> Inr (v, args))) of
       Inl err \<Rightarrow> Inl err
     | Inr (v, args) \<Rightarrow>
         (case flag_Set name setv v c of Inl err \<Rightarrow> Inl err | Inr c' \<Rightarrow> FlagSet_Parse formal c' args))"
proof -
  obtain x xs where b: "body = x # xs" "x \<noteq> CHR ''-''" "x \<noteq> CHR ''=''" using assms(2-4) by (cases body) auto
  have ok: "\<not> (length (d @ body) < 2 \<or> hd (d @ body) \<noteq> CHR ''-'')" "d @ body \<noteq> ''--''"
    "drop (if (d @ body) ! 1 = CHR ''-'' then 2 else 1) (d @ body) = body"
    "\<not> (body = [] \<or> hd body = CHR ''-'' \<or> hd body = CHR ''='')"
    using assms(1) b by auto
  have l: "flag_lookup formal name = Inr setv" by (simp add: flag_lookup_def assms(6))
  show ?thesis
    unfolding FlagSet_Parse.simps(2) if_not_P [OF ok(1)] if_not_P [OF ok(2)] Let_def ok(3)
      if_not_P [OF ok(4)] assms(5) prod.case l sum.case
    by (cases v; cases args) (simp_all only: option.case list.case sum.case prod.case)
qed

lemma Parse_spelled:
  assumes "spelling_ok spl" "flag_name_ok name" "map_of formal name = Some setv"
  shows "FlagSet_Parse formal c (spelled spl name v @ args) =
    (case flag_Set name setv v c of Inl err \<Rightarrow> Inl err | Inr c' \<Rightarrow> FlagSet_Parse formal c' args)"
proof -
  let ?d = "replicate (dashes spl) (CHR ''-'')"
  have d: "?d = ''-'' \<or> ?d = ''--''" using assms(1) by (auto simp: spelling_ok_def numeral_2_eq_2)
  have n: "name \<noteq> []" "hd name \<noteq> CHR ''-''" "hd name \<noteq> CHR ''=''"
    using assms(2) by (cases name; auto simp: flag_name_ok_def)+
  then have n': "name @ ''='' @ v \<noteq> []" "hd (name @ ''='' @ v) \<noteq> CHR ''-''" "hd (name @ ''='' @ v) \<noteq> CHR ''=''"
    by simp_all
  show ?thesis
  proof (cases "joined spl")
    case True
    then have "spelled spl name v @ args = (?d @ name @ ''='' @ v) # args" by (simp add: spelled_def Let_def)
    then show ?thesis using Parse_dashed [OF d n' flag_name_joined [OF assms(2)] assms(3)] by (simp only: option.case sum.case prod.case)
  next
    case False
    then have "spelled spl name v @ args = (?d @ name) # v # args" by (simp add: spelled_def Let_def)
    then show ?thesis using Parse_dashed [OF d n flag_name_plain [OF assms(2)] assms(3)]
      by (simp only: option.case list.case sum.case prod.case)
  qed
qed

text \<open>A list of flags sets one variable after the other.\<close>

fun set_all :: "(string \<times> 'c setter) list \<Rightarrow> (spelling \<times> string \<times> string) list \<Rightarrow> 'c \<Rightarrow> 'c res" where
  "set_all formal [] c = Inr c"
| "set_all formal ((spl, name, v) # fs) c =
     rbind (flag_Set name (the (map_of formal name)) v c) (set_all formal fs)"

lemma Parse_all_spelled:
  assumes "\<forall>(spl, name, v)\<in>set fs. spelling_ok spl \<and> flag_name_ok name \<and> name \<in> dom (map_of formal)"
  shows "FlagSet_Parse formal c (concat (map (\<lambda>(spl, name, v). spelled spl name v) fs) @ args) =
    rbind (set_all formal fs c) (\<lambda>c. FlagSet_Parse formal c args)"
  using assms
proof (induction fs arbitrary: c)
  case (Cons f fs)
  obtain spl name v where f: "f = (spl, name, v)" by (cases f)
  with Cons.prems obtain setv where s: "spelling_ok spl" "flag_name_ok name" "map_of formal name = Some setv" by auto
  from Parse_spelled [OF s] Cons show ?case by (auto simp: f s(3) rbind_def split: sum.split)
qed (simp add: rbind_def)

lemma Parse_stops: "args = [] \<or> length (hd args) < 2 \<or> hd (hd args) \<noteq> CHR ''-'' \<Longrightarrow> FlagSet_Parse formal c args = Inr (c, args)"
  by (cases args) auto

subsection \<open>What a command line sets\<close>

type_synonym written_flags = "(spelling \<times> string \<times> string) list"

definition flag_values :: "string \<Rightarrow> written_flags \<Rightarrow> string list" where
  "flag_values name fs = map (\<lambda>(spl, n, v). v) (filter (\<lambda>(spl, n, v). n = name) fs)"

definition flag_last :: "string \<Rightarrow> string \<Rightarrow> written_flags \<Rightarrow> string" where
  "flag_last dflt name fs = last (dflt # flag_values name fs)"

lemma flag_values_simps [simp]:
  "flag_values name [] = []"
  "flag_values name ((spl, n, v) # fs) = (if n = name then v # flag_values name fs else flag_values name fs)"
  by (simp_all add: flag_values_def)

lemma flag_last_simps [simp]:
  "flag_last dflt name [] = dflt"
  "flag_last dflt name ((spl, n, v) # fs) = flag_last (if n = name then v else dflt) name fs"
  by (simp_all add: flag_last_def)

definition command_args :: "written_flags \<Rightarrow> string list" where
  "command_args fs = concat (map (\<lambda>(spl, name, v). spelled spl name v) fs)"

definition flags_written :: "string set \<Rightarrow> written_flags \<Rightarrow> bool" where
  "flags_written names fs \<longleftrightarrow> (\<forall>(spl, name, v)\<in>set fs. spelling_ok spl \<and> name \<in> names)"

definition no_flag :: "string list \<Rightarrow> bool" where
  "no_flag rest \<longleftrightarrow> (case rest of [] \<Rightarrow> True | x # xs \<Rightarrow> length x < 2 \<or> hd x \<noteq> CHR ''-'')"

lemma Parse_command_args:
  assumes "flags_written (fst ` set formal) fs" "\<forall>name \<in> fst ` set formal. flag_name_ok name" "no_flag rest"
  shows "FlagSet_Parse formal c (command_args fs @ rest) = rbind (set_all formal fs c) (\<lambda>c. Inr (c, rest))"
proof -
  have "\<forall>(spl, name, v)\<in>set fs. spelling_ok spl \<and> flag_name_ok name \<and> name \<in> dom (map_of formal)"
    using assms(1,2) unfolding flags_written_def dom_map_of_conv_image_fst by fastforce
  from Parse_all_spelled [OF this] show ?thesis
    using assms(3) Parse_stops [of rest] by (simp add: command_args_def no_flag_def split: list.splits)
qed

end
