(* ===== verification/Tools.thy ===== *)
theory Tools
  imports Note_Tlog Flags
begin

section \<open>The key tools (\<^verbatim>\<open>tools/genkey\<close>, \<^verbatim>\<open>tools/kmsvkey\<close>)\<close>

text \<open>
  Both commands print keys and exit; an error stands for exit status 1. The result of
  \<open>genkey_main\<close> is the private key (standard output) and the verifier key (standard error).
\<close>

definition genkey_role :: "string \<Rightarrow> KeyRole res" where
  "genkey_role role =
     (if ToLower role = ''origin'' then Inr RoleOrigin
      else if ToLower role = ''witness'' then Inr RoleCosigner
      else Inl (Errorf ''Invalid role %q: must be origin or witness'' [FStr role]))"

definition genkey_sigType :: "string \<Rightarrow> KeyRole \<Rightarrow> SigType res" where
  "genkey_sigType algo keyRole =
     (if ToLower algo = ''ed25519'' then
        Inr (if keyRole = RoleOrigin then Ed25519Origin else Ed25519Cosigner)
      else if ToLower algo = ''mldsa44'' then Inr MLDSA44
      else Inl (Errorf ''Invalid algorithm %q: must be ed25519 or mldsa44'' [FStr algo]))"

definition genkey_main :: "'w crypto \<Rightarrow> string \<Rightarrow> string \<Rightarrow> string \<Rightarrow> ('w, string \<times> string) io" where
  "genkey_main C name role algo =
     ebind (elift (genkey_role role)) (\<lambda>keyRole.
     if name = [] then efail (Errorf ''--name must be provided'' [])
     else
       ebind (elift (genkey_sigType algo keyRole)) (\<lambda>sigType.
       ebind (ewrap ''Failed to generate key: %v'' [] (GenerateKey C name sigType keyRole)) (\<lambda>signer.
       ebind (elift (VKey C signer)) (\<lambda>vkey.
       ebind (elift (SKey signer)) (\<lambda>skey.
         eret (skey @ [nl], ''VKey: '' @ vkey @ [nl]))))))"

definition kmsvkey_main :: "'w crypto \<Rightarrow> string \<Rightarrow> string \<Rightarrow> string \<Rightarrow> ('w, string) io" where
  "kmsvkey_main C kmsKey name role =
     (if kmsKey = [] \<or> name = [] then efail (Errorf ''error: --kms-key and --name are required'' [])
      else
        ebind (elift (if role = ''origin'' then Inr RoleOrigin
                      else if role = ''cosigner'' then Inr RoleCosigner
                      else Inl (Errorf ''error: --role must be 'origin' or 'cosigner', got %q'' [FStr role])))
          (\<lambda>keyRole.
        ebind (NewKMSSigner C name kmsKey keyRole) (\<lambda>signer.
        ebind (elift (VKey C signer)) (\<lambda>vkey. eret (vkey @ [nl])))))"

subsection \<open>Their flags\<close>

record genkey_flags =
  gf_name :: string
  gf_role :: string
  gf_algo :: string

definition genkey_FlagSet :: "genkey_flags flag_set" where
  "genkey_FlagSet =
     (let f = ([], \<lparr>gf_name = [], gf_role = [], gf_algo = []\<rparr>);
          f = StringVar gf_name_update ''name'' [] f;
          f = StringVar gf_role_update ''role'' ''origin'' f
      in StringVar gf_algo_update ''algo'' ''ed25519'' f)"

definition genkey_args :: "'w crypto \<Rightarrow> string list \<Rightarrow> ('w, string \<times> string) io" where
  "genkey_args C args =
     (case genkey_FlagSet of (formal, c) \<Rightarrow>
        ebind (elift (FlagSet_Parse formal c args)) (\<lambda>(c, _). genkey_main C (gf_name c) (gf_role c) (gf_algo c)))"

record kmsvkey_flags =
  kf_kmsKey :: string
  kf_name :: string
  kf_role :: string

definition kmsvkey_FlagSet :: "kmsvkey_flags flag_set" where
  "kmsvkey_FlagSet =
     (let f = ([], \<lparr>kf_kmsKey = [], kf_name = [], kf_role = []\<rparr>);
          f = StringVar kf_kmsKey_update ''kms-key'' [] f;
          f = StringVar kf_name_update ''name'' [] f
      in StringVar kf_role_update ''role'' ''cosigner'' f)"

definition kmsvkey_args :: "'w crypto \<Rightarrow> string list \<Rightarrow> ('w, string) io" where
  "kmsvkey_args C args =
     (case kmsvkey_FlagSet of (formal, c) \<Rightarrow>
        ebind (elift (FlagSet_Parse formal c args)) (\<lambda>(c, _). kmsvkey_main C (kf_kmsKey c) (kf_name c) (kf_role c)))"

text \<open>What a command line leaves: \<open>flag_last\<close> of each flag.\<close>

lemma genkey_Parse:
  assumes "flags_written {''name'', ''role'', ''algo''} fs" "no_flag rest"
  shows "(case genkey_FlagSet of (formal, c) \<Rightarrow> FlagSet_Parse formal c (command_args fs @ rest)) =
    Inr (\<lparr>gf_name = flag_last [] ''name'' fs, gf_role = flag_last ''origin'' ''role'' fs,
          gf_algo = flag_last ''ed25519'' ''algo'' fs\<rparr>, rest)"
proof -
  have "set_all (fst genkey_FlagSet) fs c = Inr \<lparr>gf_name = flag_last (gf_name c) ''name'' fs,
      gf_role = flag_last (gf_role c) ''role'' fs, gf_algo = flag_last (gf_algo c) ''algo'' fs\<rparr>"
    if "flags_written {''name'', ''role'', ''algo''} fs" for c
    using that
  proof (induction fs arbitrary: c)
    case (Cons f fs)
    obtain spl name v where f: "f = (spl, name, v)" by (cases f)
    from Cons f show ?case
      by (auto simp: flags_written_def genkey_FlagSet_def flag_set_defs flag_Set_def rwrap_def rbind_def)
  qed simp
  note a = this [OF assms(1)]
  have "FlagSet_Parse (fst genkey_FlagSet) (snd genkey_FlagSet) (command_args fs @ rest)
      = rbind (set_all (fst genkey_FlagSet) fs (snd genkey_FlagSet)) (\<lambda>c. Inr (c, rest))"
    using assms by (intro Parse_command_args) (auto simp: genkey_FlagSet_def flag_set_defs flag_name_ok_def Let_def)
  then show ?thesis unfolding a by (simp add: split_beta rbind_def) (simp add: genkey_FlagSet_def flag_set_defs Let_def)
qed

lemma genkey_sigType_allowed: "genkey_sigType algo role = Inr t \<Longrightarrow> role_allowed t role"
  by (cases role) (auto simp: genkey_sigType_def role_allowed_def split: if_splits)

text \<open>The random seeds the libraries generate have the length of a seed.\<close>

definition generate_contract :: "'w crypto \<Rightarrow> bool" where
  "generate_contract C \<longleftrightarrow>
     (\<forall>w. post (ed25519_GenerateKey C) w (\<lambda>seed _. length seed = ed25519SeedSize) \<and>
          post (mldsa_GenerateKey C) w (\<lambda>seed _. length seed = mldsa44SeedSize))"

lemma GenerateKey_post:
  assumes "generate_contract C"
  shows "post (GenerateKey C name t role) w (\<lambda>s _. local_signer C s \<and> s_Name s = name \<and> s_SigType s = t \<and> s_Role s = role)"
proof -
  have e: "post (ed25519_GenerateKey C) w (\<lambda>seed _. length seed = ed25519SeedSize)"
    and m: "post (mldsa_GenerateKey C) w (\<lambda>seed _. length seed = mldsa44SeedSize)"
    using assms by (auto simp: generate_contract_def)
  consider (ed) "t = Ed25519Origin \<or> t = Ed25519Cosigner" | (ml) "t = MLDSA44"
    | (other) "\<not> (t = Ed25519Origin \<or> t = Ed25519Cosigner)" "t \<noteq> MLDSA44" by blast
  then show ?thesis
  proof cases
    case ed
    then show ?thesis unfolding GenerateKey_def if_P [OF ed] post_simps
      by (intro post_mono [OF e])
         (auto simp: local_signer_def newEd25519Signer_def ed25519SeedSize_def)
  next
    case ml
    then have n: "\<not> (t = Ed25519Origin \<or> t = Ed25519Cosigner)" by (simp add: SigType_defs)
    show ?thesis unfolding GenerateKey_def if_not_P [OF n] if_P [OF ml] post_simps
      by (rule post_mono [OF m])
         (use ml in \<open>auto simp: local_signer_def newMLDSA44Signer_def mldsa44SeedSize_def\<close>)
  next
    case other
    show ?thesis unfolding GenerateKey_def if_not_P [OF other(1)] if_not_P [OF other(2)] post_simps ..
  qed
qed

lemma genkey_roundtrip:
  assumes "sha256_contract C" "mldsa_contract C" "ed25519_contract C" "generate_contract C"
    and "CHR ''+'' \<notin> set name" "genkey_main C name role algo w = (Inr (out, err), w')"
  obtains s r where "genkey_role role = Inr r" "ReadKeyData C out r = Inr s" "s_Name s = name"
    "\<exists>v. err = ''VKey: '' @ v @ [nl] \<and> ParseVKey C v = Inr (name, s_SigType s, s_pub s)"
proof -
  from assms(6) obtain r t s v k w1 where
    r: "genkey_role role = Inr r" and n: "name \<noteq> []" and t: "genkey_sigType algo r = Inr t" and
    s: "GenerateKey C name t r w = (Inr s, w1)" and v: "VKey C s = Inr v" and k: "SKey s = Inr k" and
    o: "out = k @ [nl]" "err = ''VKey: '' @ v @ [nl]"
    by (auto simp: genkey_main_def ebind_Inr_iff ewrap_Inr split: if_splits)
  from postD [OF GenerateKey_post [OF assms(4)] s]
  have ls: "local_signer C s" "s_Name s = name" "s_SigType s = t" "s_Role s = r" by auto
  have "rbind (SKey s) (\<lambda>k. ReadKeyData C (k @ [nl]) r) = Inr s"
    using ReadKeyData_SKey [OF assms(1,2) ls(1), where ws = "[nl]" and role = r] ls n assms(5)
      genkey_sigType_allowed [OF t] by simp
  with k o have "ReadKeyData C out r = Inr s" by simp
  moreover have "rbind (VKey C s) (ParseVKey C) = Inr (s_Name s, s_SigType s, s_pub s)"
    using ParseVKey_VKey [OF assms(3,2) ls(1)] ls(2) assms(5) by simp
  ultimately show ?thesis using r ls v o(2) by (intro that [of r s]) auto
qed

end
