(* ===== verification/Note_Properties.thy ===== *)
theory Note_Properties
  imports Example_Libraries Tools
begin

section \<open>Properties of notes, keys and signatures\<close>

text \<open>
  The properties of \<^verbatim>\<open>internal/note\<close> and of the key tools, each with a witness on the
  example libraries.
\<close>

definition ex_text :: string where "ex_text = [CHR ''b'', nl]"

lemma ex_body: "body_ok ex_text"
  by (simp add: body_ok_def note_sep_def SigPrefix_def sublist_code ex_text_def)

lemma ex_lines: "sig_lines_ok [sig_line ''log'' ''raw'']"
  by (rule sig_line_ok) simp

lemma ex_name: "sp \<notin> set ''log''" "nl \<notin> set ''log''" "sp \<notin> set ''wit''" "nl \<notin> set ''wit''"
  "CHR ''+'' \<notin> set ''log''"
  by simp_all

text \<open>
  Splitting a note. A note whose text ends in a newline and contains no blank line
  followed by a signature prefix splits into exactly that text and its signature lines, and
  appending a signature adds one line at the end and leaves the text alone.
\<close>

theorem note_splits:
  assumes "body_ok body" "sig_lines_ok lines" "sig_lines_ok [line]"
  shows "ParseSignedNote (note_text body lines) = Inr (body, lines) \<and>
    ExtractBody (note_text body lines) = Inr body \<and>
    ParseSignedNote (AppendSignature (note_text body lines) line) = Inr (body, lines @ [line])"
  using assms by (simp add: ParseSignedNote_note_text ExtractBody_note_text AppendSignature_note_text
      sig_lines_ok_snoc)

theorem note_splits_witness:
  "ParseSignedNote (AppendSignature (note_text ex_text [sig_line ''log'' ''raw'']) (sig_line ''log'' ''raw''))
     = Inr (ex_text, [sig_line ''log'' ''raw'', sig_line ''log'' ''raw''])"
  using note_splits [OF ex_body ex_lines ex_lines] by simp

text \<open>
  C28: Signing. A local Ed25519 origin key signs a body into a note that splits into that
  body and one signature line, and the line verifies under the signer's public key; it
  carries the key hash in its first four bytes.
\<close>

theorem sign_verifies:
  assumes "ed25519_contract C" "sha256_contract C"
    and "local_signer C s" "s_Role s = RoleOrigin" "s_SigType s = Ed25519Origin"
    and "sp \<notin> set (s_Name s)" "nl \<notin> set (s_Name s)" "body_ok body"
  shows "\<exists>note line raw. Sign C body s w = (Inr note, w) \<and>
    ParseSignedNote note = Inr (body, [line]) \<and>
    VerifySignature C body line (s_pub s) (s_SigType s) = Inr () \<and>
    DecodeSigLine line = Inr raw \<and> take 4 raw = s_hash s"
proof -
  let ?raw = "s_hash s @ ed25519_Sign C (s_seed s) body"
  have "length (s_hash s) = 4" by (rule local_signer_hash [OF assms(2,3)])
  moreover have "Sign C body s w = (Inr (note_text body [sig_line (s_Name s) ?raw]), w)"
    by (rule Sign_local [OF assms(3-5) body_ok_newline [OF assms(8)]])
  moreover have "ParseSignedNote (note_text body [sig_line (s_Name s) ?raw]) = Inr (body, [sig_line (s_Name s) ?raw])"
    by (rule ParseSignedNote_note_text [OF assms(8) sig_line_ok [OF assms(7)]])
  ultimately show ?thesis
    using VerifySignature_local [OF assms(1-3,5,6)] DecodeSigLine_sig_line [OF assms(6), of ?raw]
    by (intro exI [of _ ?raw] exI [of _ "sig_line (s_Name s) ?raw"] exI) auto
qed

theorem sign_verifies_witness:
  "\<exists>note line raw. Sign ex_crypto ex_text ex_origin () = (Inr note, ()) \<and>
    ParseSignedNote note = Inr (ex_text, [line]) \<and>
    VerifySignature (ex_crypto :: unit crypto) ex_text line (s_pub ex_origin) (s_SigType ex_origin) = Inr () \<and>
    DecodeSigLine line = Inr raw \<and> take 4 raw = s_hash ex_origin"
  by (rule sign_verifies [OF ex_crypto_contracts(1,2) ex_signers(1,3,4)])
     (simp_all add: ex_signers ex_body)

text \<open>
  C29: Cosigning. A local Ed25519 cosigner's line, appended to a signed note, leaves its text
  and earlier signatures as they were and verifies over that text at the time it was made.
\<close>

theorem cosign_verifies:
  assumes "ed25519_contract C" "sha256_contract C"
    and "local_signer C s" "s_Role s = RoleCosigner" "s_SigType s = Ed25519Cosigner"
    and "sp \<notin> set (s_Name s)" "nl \<notin> set (s_Name s)" "body_ok body" "sig_lines_ok lines"
    and "time_Now_Unix C w = (now, w1)"
  shows "\<exists>line. Cosign C (note_text body lines) s w = (Inr line, w1) \<and>
    ParseSignedNote (AppendSignature (note_text body lines) line) = Inr (body, lines @ [line]) \<and>
    VerifyCosignature C body line (s_pub s) (s_SigType s) = Inr () \<and>
    (\<exists>raw. DecodeSigLine line = Inr raw \<and> take 4 raw = s_hash s \<and> Uint64 (take 8 (drop 4 raw)) = of_int now)"
proof -
  let ?line = "sig_line (s_Name s) (cosig_raw C s (of_int now) body)"
  have h: "length (s_hash s) = 4" by (rule local_signer_hash [OF assms(2,3)])
  have "Cosign C (note_text body lines) s w = (Inr ?line, w1)"
    by (rule Cosign_local [OF assms(3-5) ExtractBody_note_text [OF assms(8,9)] assms(10)])
  moreover have "ParseSignedNote (AppendSignature (note_text body lines) ?line) = Inr (body, lines @ [?line])"
    using assms(8,9) sig_line_ok [OF assms(7)]
    by (simp add: AppendSignature_note_text ParseSignedNote_note_text sig_lines_ok_snoc)
  moreover have "DecodeSigLine ?line = Inr (cosig_raw C s (of_int now) body)"
    by (rule DecodeSigLine_sig_line [OF assms(6)])
  ultimately show ?thesis
    using VerifyCosignature_local [OF assms(1-3,5,6)] h
    by (intro exI [of _ ?line]) (auto simp: cosig_raw_def)
qed

theorem cosign_verifies_witness:
  "\<exists>line. Cosign (ex_crypto :: unit crypto) (note_text ex_text [sig_line ''log'' ''raw'']) ex_cosigner () = (Inr line, ()) \<and>
    VerifyCosignature (ex_crypto :: unit crypto) ex_text line (s_pub ex_cosigner) (s_SigType ex_cosigner) = Inr ()"
proof -
  have "time_Now_Unix ex_crypto () = (1700000000, ())" by (simp add: ex_crypto_def)
  from cosign_verifies [OF ex_crypto_contracts(1,2) ex_signers(5,7,8) _ _ ex_body ex_lines this]
  show ?thesis by (auto simp: ex_signers)
qed

text \<open>
  Verifying. A signature line is accepted only for an Ed25519 origin key, only if it is
  base64 after a name and a space, at least 68 bytes long, and only if the bytes after the
  key hash verify over the body; a cosignature only for an Ed25519 cosigner key, over the
  message that binds the timestamp in its next eight bytes to the body.
\<close>

theorem verify_accepts_iff:
  "(VerifySignature C body line pub t = Inr () \<longleftrightarrow>
     (\<exists>raw k. DecodeSigLine line = Inr raw \<and> t = Ed25519Origin \<and> 68 \<le> length raw \<and> pub = EdPub k \<and>
        ed25519_Verify C k body (drop 4 raw))) \<and>
   (VerifyCosignature C body line pub t = Inr () \<longleftrightarrow>
     (\<exists>raw k. DecodeSigLine line = Inr raw \<and> t = Ed25519Cosigner \<and> 76 \<le> length raw \<and> pub = EdPub k \<and>
        ed25519_Verify C k (ed25519CosignMessage (Uint64 (take 8 (drop 4 raw))) body) (drop 12 raw)))"
  by (cases pub) (auto simp: VerifySignature_def VerifyCosignature_def rbind_Inr_iff ed25519SigSize_def
      Let_def split: if_splits)

text \<open>
  Verifier keys. What \<^verbatim>\<open>VKey\<close> prints, \<^verbatim>\<open>ParseVKey\<close> reads back as the same name, type
  and public key, for both algorithms.
\<close>

theorem vkey_roundtrip:
  assumes "ed25519_contract C" "mldsa_contract C" "local_signer C s" "CHR ''+'' \<notin> set (s_Name s)"
  shows "\<exists>v. VKey C s = Inr v \<and> ParseVKey C v = Inr (s_Name s, s_SigType s, s_pub s)"
  using ParseVKey_VKey [OF assms] by (auto simp: rbind_Inr_iff)

theorem vkey_roundtrip_witness:
  "\<exists>v. VKey (ex_crypto :: unit crypto) ex_origin = Inr v \<and>
     ParseVKey (ex_crypto :: unit crypto) v = Inr (''log'', Ed25519Origin, s_pub ex_origin)"
  using vkey_roundtrip [OF ex_crypto_contracts(1,3) ex_signers(1)] ex_signers ex_name by auto

text \<open>
  C30: Private keys and roles. What \<^verbatim>\<open>SKey\<close> prints, with or without a newline after it,
  \<^verbatim>\<open>ReadKeyData\<close> reads back as the same signer exactly in a role its algorithm allows: an
  Ed25519 origin key is never read as a cosigner's, nor the reverse.
\<close>

theorem skey_roundtrip:
  assumes "sha256_contract C" "mldsa_contract C" "local_signer C s" "s_Name s \<noteq> []"
    "CHR ''+'' \<notin> set (s_Name s)" "ws = [] \<or> ws = [nl]"
  shows "\<exists>k. SKey s = Inr k \<and>
    (ReadKeyData C (k @ ws) role = Inr s \<longleftrightarrow> role = s_Role s \<and> role_allowed (s_SigType s) role) \<and>
    (\<not> role_allowed (s_SigType s) role \<longrightarrow> (\<exists>e. ReadKeyData C (k @ ws) role = Inl e))"
proof -
  have "length (s_seed s) = 32" using assms(3) by (simp add: local_signer_def)
  then obtain k where k: "SKey s = Inr k" by (auto simp: SKey_def)
  have "\<not> role_allowed (s_SigType s) role \<Longrightarrow> \<exists>e. ReadKeyData C (k @ ws) role = Inl e"
    using ReadKeyData_wrong_role [OF assms(3,4,5,6)] k by simp
  with ReadKeyData_SKey [OF assms, of role] k show ?thesis by auto
qed

theorem skey_roundtrip_witness:
  "\<exists>k. SKey ex_origin = Inr k \<and>
    (ReadKeyData (ex_crypto :: unit crypto) (k @ [nl]) RoleOrigin = Inr ex_origin \<longleftrightarrow>
       RoleOrigin = s_Role ex_origin \<and> role_allowed (s_SigType ex_origin) RoleOrigin)"
  using skey_roundtrip [OF ex_crypto_contracts(2,3) ex_signers(1), of "[nl]" RoleOrigin] ex_signers ex_name
  by auto

end
