(* ===== verification/Key_Properties.thy ===== *)
theory Key_Properties
  imports Example_Libraries Tools
begin

section \<open>Properties of keys, roles and KMS signers\<close>

text \<open>
  Cloud KMS signing (\<^verbatim>\<open>internal/note/kms.go\<close>), the roles of keys (\<^verbatim>\<open>internal/note/tlog.go\<close>) and
  key generation (\<^verbatim>\<open>tools/genkey\<close>).
\<close>

subsection \<open>KMS\<close>

text \<open>
  C32: Damage in transit is found. When one byte of the signature arrives changed and the checksum
  arrives as KMS computed it, \<^verbatim>\<open>Sign\<close> fails, also with a key under which the changed signature
  would verify: no two strings that differ in one byte have the same CRC32C.
\<close>

theorem kms_damage_detected:
  assumes "AsymmetricSign C r msg (uint (crc32c msg)) w = (Inr resp, w')"
    and "sr_Signature resp = a @ y # b" "sr_SignatureCrc32C resp = Some (uint (crc32c (a @ x # b)))" "x \<noteq> y"
  shows "\<exists>e. kmsSigner_Sign C r pub msg w = (Inl e, w')"
proof -
  have "uint (crc32c (a @ y # b)) \<noteq> uint (crc32c (a @ x # b))"
    unfolding word_uint_eq_iff [symmetric] using assms(4) by (simp add: crc32c_one_byte)
  with assms(1-3) show ?thesis
    by (simp add: kmsSigner_Sign_def Let_def ebind_def ewrap_def rwrap_def efail_def)
qed

definition ex_damaged :: "unit crypto" where
  "ex_damaged = ex_crypto\<lparr>AsymmetricSign := (\<lambda>r msg crc. eret
     \<lparr>sr_Signature = ''sigmature'', sr_VerifiedDataCrc32C = True,
      sr_SignatureCrc32C = Some (uint (crc32c ''signature''))\<rparr>)\<rparr>"

theorem kms_damage_detected_witness:
  "\<exists>e. kmsSigner_Sign ex_damaged ''key'' (EdPub []) ''digest'' () = (Inl e, ())"
proof (rule kms_damage_detected)
  show "AsymmetricSign ex_damaged ''key'' ''digest'' (uint (crc32c ''digest'')) () =
      (Inr \<lparr>sr_Signature = ''sigmature'', sr_VerifiedDataCrc32C = True,
        sr_SignatureCrc32C = Some (uint (crc32c ''signature''))\<rparr>, ())"
    by (simp add: ex_damaged_def eret_def)
  show "sr_Signature \<lparr>sr_Signature = ''sigmature'', sr_VerifiedDataCrc32C = True,
        sr_SignatureCrc32C = Some (uint (crc32c ''signature''))\<rparr> = ''sig'' @ CHR ''m'' # ''ature''" by simp
  show "sr_SignatureCrc32C \<lparr>sr_Signature = ''sigmature'', sr_VerifiedDataCrc32C = True,
        sr_SignatureCrc32C = Some (uint (crc32c ''signature''))\<rparr> = Some (uint (crc32c (''sig'' @ CHR ''n'' # ''ature'')))"
    by simp
qed simp

text \<open>
  C31: Checkpoints signed in KMS verify. With a signer built from a KMS Ed25519 key in the origin
  role, a checkpoint that is signed at all is a note that splits into the checkpoint and one
  signature line, and the line verifies under the public key the signer cached.
\<close>

theorem kms_checkpoint_verifies:
  assumes "ed25519_contract C" "sha256_contract C" "NewKMSSigner C name key role w = (Inr s, w1)"
    and "SignTlogCheckpoint C F FL body s w2 = (Inr sn, w3)" "s_SigType s = Ed25519Origin"
    and "sp \<notin> set name" "nl \<notin> set name" "body_ok body"
  shows "role = RoleOrigin \<and> (\<exists>line k. ParseSignedNote sn = Inr (body, [line]) \<and> s_pub s = EdPub k \<and>
    VerifySignature C body line (s_pub s) (s_SigType s) = Inr ())"
proof -
  from postD [OF NewKMSSigner_post assms(3)] obtain k where
    s: "kms_signer s" "s_Role s = role" "s_Name s = name" "s_hash s = keyHash C name k (s_SigType s)" by blast
  from SignTlogCheckpoint_Inr [OF assms(4)] s(2) obtain p where
    r: "s_Role s = RoleOrigin" "role = RoleOrigin" and p: "ParseCheckpoint FL body = Inr p" by auto
  from assms(4) have "Sign C body s w2 = (Inr sn, w3)" unfolding SignTlogCheckpoint_ed25519 [OF r(1) assms(5) p] .
  from Sign_kms [OF this s(1) body_ok_newline [OF assms(8)]] obtain sig where
    sig: "sn = note_text body [sig_line (s_Name s) (s_hash s @ sig)]" "verifies C (s_pub s) body sig" by blast
  obtain k' where k': "s_pub s = EdPub k'" using s(1) assms(5) by (auto simp: kms_signer_def SigType_defs)
  have h: "length (s_hash s) = 4" using assms(2) by (simp add: s(4) keyHash_def sha256_contract_def)
  have "VerifySignature C body (sig_line (s_Name s) (s_hash s @ sig)) (s_pub s) Ed25519Origin = Inr ()"
    by (rule VerifySignature_verifies [OF assms(1) h _ k' sig(2)]) (simp add: s(3) assms(6))
  moreover have "ParseSignedNote sn = Inr (body, [sig_line (s_Name s) (s_hash s @ sig)])"
    unfolding sig(1) by (rule ParseSignedNote_note_text [OF assms(8) sig_line_ok]) (simp add: s(3) assms(7))
  ultimately show ?thesis using r(2) k' assms(5) by auto
qed

definition ex_kms_signer :: Signer where
  "ex_kms_signer = \<lparr>s_Name = ''log'', s_SigType = Ed25519Origin, s_Role = RoleOrigin,
     s_hash = keyHash (ex_crypto :: unit crypto) ''log'' ex_kms_key Ed25519Origin,
     s_signer = KmsKey ''k'' (EdPub ex_kms_key), s_pub = EdPub ex_kms_key, s_seed = []\<rparr>"

lemma ex_kms: "NewKMSSigner (ex_crypto :: unit crypto) ''log'' ''gcpkms://k'' RoleOrigin () = (Inr ex_kms_signer, ())"
  by (simp add: NewKMSSigner_def newKMSSigner_def kmsEd25519PublicKey_def ex_crypto_def ebind_def ewrap_def rwrap_def
      eret_def elift_def TrimPrefix_def pubKeyBytes_def ex_kms_signer_def keyHash_def Let_def)

definition ex_body :: string where
  "ex_body = checkpoint_Marshal ex_log (NewCheckpoint ''log'' 2 (replicate 32 (CHR ''k'')))"

lemma ex_body_ok: "body_ok ex_body" "ParseCheckpoint ex_log ex_body = Inr (NewCheckpoint ''log'' 2 (replicate 32 (CHR ''k'')), replicate 32 (CHR ''k''))"
proof -
  have h: "is_hash (replicate 32 (CHR ''k''))" by (simp add: is_hash_def HashSize_def)
  with ex_checkpoint_format show "body_ok ex_body" unfolding checkpoint_format_def ex_body_def by blast
  from h ex_checkpoint_format have "checkpoint_Unmarshal ex_log ex_body = Inr (NewCheckpoint ''log'' 2 (replicate 32 (CHR ''k'')))"
    unfolding checkpoint_format_def ex_body_def by blast
  with h show "ParseCheckpoint ex_log ex_body = Inr (NewCheckpoint ''log'' 2 (replicate 32 (CHR ''k'')), replicate 32 (CHR ''k''))"
    by (simp add: ParseCheckpoint_Inr_iff NewCheckpoint_def)
qed

lemma ex_kms_signs: "\<exists>sig. SignTlogCheckpoint (ex_crypto :: unit crypto) ex_formats ex_log ex_body ex_kms_signer () =
    (Inr (note_text ex_body [sig_line ''log'' (s_hash ex_kms_signer @ sig)]), ())"
proof -
  let ?sig = "fit 64 (ex_kms_key @ ex_body)"
  have "kmsSigner_Sign (ex_crypto :: unit crypto) ''k'' (EdPub ex_kms_key) ex_body () = (Inr ?sig, ())"
    unfolding kmsSigner_Sign_Inr_iff by (simp add: ex_crypto_def eret_def verifies_def Let_def)
  moreover have "HasSuffix ex_body [nl]" by (rule body_ok_newline [OF ex_body_ok(1)])
  ultimately have "Sign (ex_crypto :: unit crypto) ex_body ex_kms_signer () =
      (Inr (note_text ex_body [sig_line ''log'' (s_hash ex_kms_signer @ ?sig)]), ())"
    by (simp add: Sign_def Let_def ex_kms_signer_def signer_Sign_def ebind_def ewrap_def rwrap_def eret_def note_text_def)
  moreover have "s_Role ex_kms_signer = RoleOrigin" "s_SigType ex_kms_signer = Ed25519Origin"
    by (simp_all add: ex_kms_signer_def)
  ultimately show ?thesis by (auto simp: SignTlogCheckpoint_ed25519 [OF _ _ ex_body_ok(2)])
qed

theorem kms_checkpoint_verifies_witness:
  "\<exists>sn line. SignTlogCheckpoint (ex_crypto :: unit crypto) ex_formats ex_log ex_body ex_kms_signer () = (Inr sn, ()) \<and>
    ParseSignedNote sn = Inr (ex_body, [line]) \<and>
    VerifySignature (ex_crypto :: unit crypto) ex_body line (s_pub ex_kms_signer) (s_SigType ex_kms_signer) = Inr ()"
proof -
  obtain sig where sig: "SignTlogCheckpoint (ex_crypto :: unit crypto) ex_formats ex_log ex_body ex_kms_signer () =
    (Inr (note_text ex_body [sig_line ''log'' (s_hash ex_kms_signer @ sig)]), ())" using ex_kms_signs by blast
  have t: "s_SigType ex_kms_signer = Ed25519Origin" by (simp add: ex_kms_signer_def)
  from kms_checkpoint_verifies [OF ex_crypto_contracts(1,2) ex_kms sig t _ _ ex_body_ok(1)] sig
  show ?thesis by auto
qed

subsection \<open>Roles\<close>

text \<open>
  C33: Each key signs in its role only. A checkpoint is signed only by an origin's key, a
  cosignature made only by a cosigner's, and both only over a body that is a checkpoint; a KMS key
  gets the Ed25519 type of the role it is opened in, or ML-DSA-44 in either.
\<close>

theorem roles_kept:
  "(case NewKMSSigner C name key role w of
      (Inr s, _) \<Rightarrow> s_Role s = role \<and> role_allowed (s_SigType s) role | (Inl _, _) \<Rightarrow> True) \<and>
   (case SignTlogCheckpoint C F FL body s w of
      (Inr _, _) \<Rightarrow> s_Role s = RoleOrigin \<and> s_SigType s \<in> {Ed25519Origin, MLDSA44} \<and>
        (\<exists>p. ParseCheckpoint FL body = Inr p)
    | (Inl _, _) \<Rightarrow> True) \<and>
   (case CosignTlogCheckpoint C F FL sn s w of
      (Inr _, _) \<Rightarrow> s_Role s = RoleCosigner \<and> s_SigType s \<in> {Ed25519Cosigner, MLDSA44} \<and>
        (\<exists>b p. ExtractBody sn = Inr b \<and> ParseCheckpoint FL b = Inr p)
    | (Inl _, _) \<Rightarrow> True)"
proof (intro conjI)
  have "s_Role s = role \<and> role_allowed (s_SigType s) role" if "NewKMSSigner C name key role w = (Inr s, w')" for s w'
    using postD [OF NewKMSSigner_post that] by (auto simp: kms_signer_def role_allowed_def split: KeyRole.splits)
  then show "case NewKMSSigner C name key role w of
      (Inr s, _) \<Rightarrow> s_Role s = role \<and> role_allowed (s_SigType s) role | (Inl _, _) \<Rightarrow> True"
    by (auto split: prod.split sum.split)
  have "s_SigType s \<in> {Ed25519Origin, MLDSA44}" if "SignTlogCheckpoint C F FL body s w = (Inr x, w')" for x w'
    using that by (auto simp: SignTlogCheckpoint_def ebind_Inr_iff split: if_splits)
  with SignTlogCheckpoint_Inr show "case SignTlogCheckpoint C F FL body s w of
      (Inr _, _) \<Rightarrow> s_Role s = RoleOrigin \<and> s_SigType s \<in> {Ed25519Origin, MLDSA44} \<and>
        (\<exists>p. ParseCheckpoint FL body = Inr p)
    | (Inl _, _) \<Rightarrow> True" by (fastforce split: prod.split sum.split)
  have "s_SigType s \<in> {Ed25519Cosigner, MLDSA44}" if "CosignTlogCheckpoint C F FL sn s w = (Inr x, w')" for x w'
    using that by (auto simp: CosignTlogCheckpoint_def ebind_Inr_iff split: if_splits)
  with CosignTlogCheckpoint_Inr show "case CosignTlogCheckpoint C F FL sn s w of
      (Inr _, _) \<Rightarrow> s_Role s = RoleCosigner \<and> s_SigType s \<in> {Ed25519Cosigner, MLDSA44} \<and>
        (\<exists>b p. ExtractBody sn = Inr b \<and> ParseCheckpoint FL b = Inr p)
    | (Inl _, _) \<Rightarrow> True" by (fastforce split: prod.split sum.split)
qed

subsection \<open>Generating keys\<close>

text \<open>
  C34: Generated keys work. For a known role and algorithm and a name without \<^verbatim>\<open>+\<close>, given as flags in
  any order and spelling, role \<^verbatim>\<open>origin\<close> and algorithm \<^verbatim>\<open>ed25519\<close> if left out, \<^verbatim>\<open>genkey\<close> prints
  whatever key the library generates: a private key that reads back in the role asked for, as a
  signer of that name, and a verifier key that parses as that signer's name, type and public key.
\<close>

theorem genkey_keys_work:
  assumes C: "sha256_contract C" "mldsa_contract C" "ed25519_contract C" "generate_contract C"
    and args: "flags_written {''name'', ''role'', ''algo''} fs" "no_flag rest"
    and name: "flag_last [] ''name'' fs \<noteq> []" "CHR ''+'' \<notin> set (flag_last [] ''name'' fs)"
    and r: "genkey_role (flag_last ''origin'' ''role'' fs) = Inr r"
    and t: "genkey_sigType (flag_last ''ed25519'' ''algo'' fs) r = Inr t"
    and g: "GenerateKey C (flag_last [] ''name'' fs) t r w = (Inr s, w')"
  shows "\<exists>k v. genkey_args C (command_args fs @ rest) w = (Inr (k @ [nl], ''VKey: '' @ v @ [nl]), w') \<and>
    ReadKeyData C (k @ [nl]) r = Inr s \<and> ParseVKey C v = Inr (flag_last [] ''name'' fs, t, s_pub s)"
proof -
  let ?name = "flag_last [] ''name'' fs"
  from postD [OF GenerateKey_post [OF C(4)] g]
  have s: "local_signer C s" "s_Name s = ?name" "s_SigType s = t" "s_Role s = r" by auto
  have k: "rbind (SKey s) (\<lambda>k. ReadKeyData C (k @ [nl]) r) = Inr s"
    using ReadKeyData_SKey [OF C(1,2) s(1), where ws = "[nl]" and role = r] s name genkey_sigType_allowed [OF t] by simp
  have v: "rbind (VKey C s) (ParseVKey C) = Inr (?name, t, s_pub s)"
    using ParseVKey_VKey [OF C(3,2) s(1)] s name(2) by simp
  from k v obtain sk vk where kv: "SKey s = Inr sk" "VKey C s = Inr vk" by (auto simp: rbind_Inr_iff)
  with k v name(1) r t g have "genkey_main C ?name (flag_last ''origin'' ''role'' fs) (flag_last ''ed25519'' ''algo'' fs) w =
      (Inr (sk @ [nl], ''VKey: '' @ vk @ [nl]), w')"
    by (simp add: genkey_main_def ebind_def ewrap_def rwrap_def elift_def eret_def)
  with genkey_Parse [OF args] k v kv show ?thesis
    by (simp add: genkey_args_def split_beta ebind_def elift_def)
qed

definition ex_genkey_flags :: written_flags where
  "ex_genkey_flags = [(Spelled 2 True, ''name'', ''log''), (Spelled 1 False, ''role'', ''Origin'')]"

lemma ex_genkey_flags: "flags_written {''name'', ''role'', ''algo''} ex_genkey_flags" "no_flag []"
  "flag_last [] ''name'' ex_genkey_flags = ''log''" "flag_last ''origin'' ''role'' ex_genkey_flags = ''Origin''"
  "flag_last ''ed25519'' ''algo'' ex_genkey_flags = ''ed25519''"
  "command_args ex_genkey_flags = [''--name=log'', ''-role'', ''Origin'']"
  by (simp_all add: ex_genkey_flags_def flags_written_def spelling_ok_def no_flag_def command_args_def spelled_def
      numeral_2_eq_2)

theorem genkey_keys_work_witness:
  "\<exists>k v s. genkey_args (ex_crypto :: unit crypto) [''--name=log'', ''-role'', ''Origin''] () =
      (Inr (k @ [nl], ''VKey: '' @ v @ [nl]), ()) \<and>
    ReadKeyData (ex_crypto :: unit crypto) (k @ [nl]) RoleOrigin = Inr s \<and>
    ParseVKey (ex_crypto :: unit crypto) v = Inr (''log'', Ed25519Origin, s_pub s)"
proof -
  have g: "generate_contract (ex_crypto :: unit crypto)"
    by (simp add: generate_contract_def ex_crypto_def post_def eret_def ed25519SeedSize_def mldsa44SeedSize_def)
  have "genkey_role ''Origin'' = Inr RoleOrigin" "genkey_sigType ''ed25519'' RoleOrigin = Inr Ed25519Origin"
    by code_simp+
  moreover have "GenerateKey (ex_crypto :: unit crypto) ''log'' Ed25519Origin RoleOrigin () =
      (Inr (newEd25519Signer (ex_crypto :: unit crypto) ''log'' (fit 32 ''seed'') Ed25519Origin RoleOrigin), ())"
    by (simp add: GenerateKey_def ebind_def eret_def) (simp add: ex_crypto_def eret_def)
  ultimately show ?thesis
    using genkey_keys_work [OF ex_crypto_contracts(2,3,1) g ex_genkey_flags(1,2)] unfolding ex_genkey_flags(3-6) by simp blast
qed

end
