(* ===== verification/Policy.thy ===== *)
theory Policy
  imports Go_Encoding
begin

section \<open>Witness policies (\<^verbatim>\<open>internal/policy\<close>)\<close>

text \<open>
  A policy is parsed and evaluated by \<^verbatim>\<open>transparency-dev/formats/policy\<close>; the program reads
  its witnesses, asks whether a checkpoint satisfies it, and verifies a checkpoint against it.
\<close>

record url =
  url_Scheme :: string
  url_Host :: string
  url_Path :: string

record witness_cfg =
  w_Name :: string
  w_URL :: "url option"

record tlog_policy =
  pol_Witnesses :: "witness_cfg list"
  pol_Quorum :: string
  pol_Satisfied :: "string \<Rightarrow> bool"
  pol_Verify :: "string \<Rightarrow> unit res"

definition FromPath ::
    "(string \<Rightarrow> ('w, string) io) \<Rightarrow> (string \<Rightarrow> tlog_policy res) \<Rightarrow> string \<Rightarrow> ('w, tlog_policy) io" where
  "FromPath ReadFile Unmarshal path =
     ebind (ReadFile path) (\<lambda>data.
       elift (rwrap ''parsing policy %s: %w'' [FStr path] (Unmarshal data)))"

lemma FromPath_Inr_iff:
  "FromPath rf um path w = (Inr p, w') \<longleftrightarrow> (\<exists>data. rf path w = (Inr data, w') \<and> um data = Inr p)"
  by (auto simp: FromPath_def ebind_Inr_iff)

end
