(* ===== verification/Ratchet.thy ===== *)
theory Ratchet
  imports Gitlog Note_Tlog Policy
begin

section \<open>The ratchet (\<^verbatim>\<open>ratchet.go\<close>): rules and commands\<close>

text \<open>
  Recording refs, having the log's head cosigned, and verifying refs. \<open>deps\<close> gathers the
  parameters: the operating system with \<^verbatim>\<open>git\<close>, the third-party libraries, and
  \<open>d_Update\<close>, one exchange of the witness client. A command's printed summary is its result.
\<close>

record ('w, 'rng, 'nodes) deps =
  d_os :: "'w os"
  d_tessera :: tessera_lib
  d_merkle :: "('rng, 'nodes) merkle_lib"
  d_log :: log_lib
  d_crypto :: "'w crypto"
  d_formats :: "'w formats"
  d_Update :: "url \<Rightarrow> uint64 \<Rightarrow> string \<Rightarrow> string list \<Rightarrow> 'w \<Rightarrow> (string \<times> uint64 \<times> goerr option) \<times> 'w"

definition ErrCheckpointStale :: goerr where "ErrCheckpointStale = Sentinel ''ErrCheckpointStale''"
definition ErrInvalidProof :: goerr where "ErrInvalidProof = Sentinel ''ErrInvalidProof''"
definition ErrRootMismatch :: goerr where "ErrRootMismatch = Sentinel ''ErrRootMismatch''"

lemmas Err_defs = ErrCheckpointStale_def ErrInvalidProof_def ErrRootMismatch_def

subsection \<open>The ratchet rule\<close>

text \<open>\<^verbatim>\<open>entries[i-1]\<close> is the previous entry of the log, kept or not.\<close>

fun dropRepeats_after :: "RefRecord option \<Rightarrow> RefRecord list \<Rightarrow> RefRecord list" where
  "dropRepeats_after prev [] = []"
| "dropRepeats_after prev (e # es) =
     (case prev of
        Some p \<Rightarrow> (if rr_Object p = rr_Object e then dropRepeats_after (Some e) es
                   else e # dropRepeats_after (Some e) es)
      | None \<Rightarrow> e # dropRepeats_after (Some e) es)"

definition dropRepeats :: "RefRecord list \<Rightarrow> RefRecord list" where
  "dropRepeats entries = dropRepeats_after None entries"

text \<open>The branch loop of \<^verbatim>\<open>checkRefChain\<close>: \<open>prev\<close> is entry \<open>i - 1\<close>.\<close>

fun check_descends :: "'w os \<Rightarrow> string \<Rightarrow> string \<Rightarrow> nat \<Rightarrow> string \<Rightarrow> RefRecord list \<Rightarrow> ('w, unit) io" where
  "check_descends os repoDir ref i prev [] = eret ()"
| "check_descends os repoDir ref i prev (e # es) =
     (let curr = rr_Object e in
      ebind (ewrap (''cannot check ancestry from logged commit %s to %s '' @
                    ''(the object may be missing from this clone, which is itself evidence '' @
                    ''that logged history was discarded): %w'') [FStr prev, FStr curr]
               (IsAncestor os repoDir prev curr)) (\<lambda>ok.
        if \<not> ok then
          efail (Errorf ''log entry %d for %s (%s) does not descend from entry %d (%s): history was rewritten''
                   [FNat i, FStr ref, FStr curr, FNat (i - 1), FStr prev])
        else check_descends os repoDir ref (Suc i) curr es))"

definition checkRefChain :: "'w os \<Rightarrow> string \<Rightarrow> string \<Rightarrow> RefKind \<Rightarrow> RefRecord list \<Rightarrow> ('w, unit) io" where
  "checkRefChain os repoDir ref kind entries =
     (let entries = dropRepeats entries in
      case kind of
        RefTag \<Rightarrow>
          (if length entries > 1 then
             efail (Errorf ''tag %s moved: logged at %s and later at %s; a tag must be logged at one object only''
                      [FStr ref, FStr (rr_Object (entries ! 0)), FStr (rr_Object (entries ! 1))])
           else eret ())
      | RefBranch \<Rightarrow>
          (case entries of [] \<Rightarrow> eret () | e # es \<Rightarrow> check_descends os repoDir ref 1 (rr_Object e) es))"

fun check_each_chain :: "'w os \<Rightarrow> string \<Rightarrow> glog \<Rightarrow> string list \<Rightarrow> ('w, unit) io" where
  "check_each_chain os repoDir l [] = eret ()"
| "check_each_chain os repoDir l (ref # refs) =
     ebind (elift (rwrap ''log names an unrecognised ref %q: %w'' [FStr ref] (ParseRefKind ref))) (\<lambda>kind.
     ebind (elift (RefRecords l ref)) (\<lambda>entries.
     ebind (checkRefChain os repoDir ref kind entries) (\<lambda>_.
     check_each_chain os repoDir l refs)))"

definition checkLogChains :: "'w os \<Rightarrow> string \<Rightarrow> glog \<Rightarrow> ('w, unit) io" where
  "checkLogChains os repoDir l = ebind (elift (Refs os l)) (check_each_chain os repoDir l)"

subsection \<open>Recording\<close>

definition storedSize :: "log_lib \<Rightarrow> glog \<Rightarrow> uint64 res" where
  "storedSize FL l =
     (let stored = StoredCheckpoint l in
      if stored = [] then Inr 0
      else
        rbind (rwrap ''parsing stored checkpoint: %w'' [] (ExtractBody stored)) (\<lambda>body.
        rbind (rwrap ''parsing stored checkpoint: %w'' [] (ParseCheckpoint FL body)) (\<lambda>(cp, _).
          Inr (cp_Size cp))))"

text \<open>The loop of \<^verbatim>\<open>logRefs\<close>: the log and the lines \<open>added\<close> so far.\<close>

fun log_each :: "'w os \<Rightarrow> string \<Rightarrow> glog \<Rightarrow> string list \<Rightarrow> string list \<Rightarrow> ('w, glog \<times> string list) io" where
  "log_each os repoDir l added [] = eret (l, added)"
| "log_each os repoDir l added (ref # refs) =
     ebind (ewrap ''resolving ref: %w'' [] (ResolveRef os repoDir ref)) (\<lambda>objectHash.
     ebind (elift (RefRecords l ref)) (\<lambda>records.
       if length records > 0 \<and> rr_Object (records ! (length records - 1)) = objectHash
       then log_each os repoDir l added refs
       else
         ebind (elift (NewRefRecord ref objectHash)) (\<lambda>entry.
           log_each os repoDir (Append l entry) (added @ [ref @ '' '' @ objectHash]) refs)))"

datatype log_summary = NothingToLog uint64 | Logged nat uint64 uint64

definition logRefs :: "('w, 'rng, 'nodes) deps \<Rightarrow> string \<Rightarrow> string list \<Rightarrow> ('w, log_summary) io" where
  "logRefs D repoDir refs =
     ebind (ewrap ''opening log: %w'' [] (Open (d_os D) (d_tessera D) repoDir)) (\<lambda>l.
     let sizeBefore = Size l in
     ebind (log_each (d_os D) repoDir l [] refs) (\<lambda>(l, added).
       if length added = 0 then eret (NothingToLog sizeBefore)
       else
         ebind (ewrap ''refusing to log: %w'' [] (checkLogChains (d_os D) repoDir l)) (\<lambda>_.
         ebind (Save (d_os D) (d_tessera D) l (StoredCheckpoint l) (''ratchet: log '' @ Join added '', '')) (\<lambda>l.
         ebind (elift (storedSize (d_log D) l)) (\<lambda>stored.
           eret (Logged (length added) (Size l) (Size l - stored)))))))"

subsection \<open>Cosigning\<close>

text \<open>Hashes are byte strings of the model already; Go turns arrays into slices here.\<close>

definition rawHashes :: "hash list \<Rightarrow> string list" where
  "rawHashes hs = map (\<lambda>h. h) hs"

definition submit ::
    "('w, 'rng, 'nodes) deps \<Rightarrow> url \<Rightarrow> glog \<Rightarrow> string \<Rightarrow> uint64 \<Rightarrow> 'w \<Rightarrow> (string \<times> uint64 \<times> goerr option) \<times> 'w" where
  "submit D endpoint l signedNote from w =
     (case ConsistencyProofFrom (d_merkle D) l from of
        Inl err \<Rightarrow>
          (([], 0, Some (wrap_err ''generating consistency proof from size %d: %w'' [FNat (unat from)] err)), w)
      | Inr proof \<Rightarrow> d_Update D endpoint from signedNote (rawHashes proof) w)"

definition cosignWithWitness ::
    "('w, 'rng, 'nodes) deps \<Rightarrow> url \<Rightarrow> glog \<Rightarrow> uint64 \<Rightarrow> string \<Rightarrow> ('w, string) io" where
  "cosignWithWitness D endpoint l oldSize signedNote w =
     (case submit D endpoint l signedNote oldSize w of
        ((cosig, actualSize, err), w1) \<Rightarrow>
          (if (case err of Some e \<Rightarrow> errors_Is e ErrCheckpointStale | None \<Rightarrow> False) \<and> actualSize \<noteq> oldSize
           then (case submit D endpoint l signedNote actualSize w1 of
             ((cosig, _, err), w2) \<Rightarrow>
               (case err of
                  Some e \<Rightarrow> (Inl (wrap_err ''retry from witness size %d: %w'' [FNat (unat actualSize)] e), w2)
                | None \<Rightarrow> (Inr (TrimSpace cosig), w2)))
           else (case err of
                   Some e \<Rightarrow> (Inl e, w1)
                 | None \<Rightarrow> (Inr (TrimSpace cosig), w1))))"

text \<open>
  \<^verbatim>\<open>collectCosignatures\<close> runs one goroutine per witness. A goroutine is where it stands between
  its exchanges; each takes one step at a time, an exchange with its witness or its send on
  the channel, and the scheduler interleaves the steps. \<open>cos_chan\<close> is what the channel
  received, in order of arrival.
\<close>

datatype goroutine = Begin | Retry uint64 | Sent

record 'w cosigning =
  cos_world :: 'w
  cos_procs :: "goroutine list"
  cos_chan :: "(string \<times> string res) list"

definition cosign_send :: "nat \<Rightarrow> string \<Rightarrow> string res \<Rightarrow> 'w \<Rightarrow> 'w cosigning \<Rightarrow> 'w cosigning" where
  "cosign_send i name r w st =
     \<lparr>cos_world = w, cos_procs = (cos_procs st)[i := Sent], cos_chan = cos_chan st @ [(name, r)]\<rparr>"

definition goroutine_step ::
    "('w, 'rng, 'nodes) deps \<Rightarrow> witness_cfg list \<Rightarrow> glog \<Rightarrow> uint64 \<Rightarrow> string \<Rightarrow> nat \<Rightarrow> 'w cosigning \<Rightarrow> 'w cosigning" where
  "goroutine_step D witnesses l oldSize signedNote i st =
     (if length (cos_procs st) \<le> i then st
      else
        let name = w_Name (witnesses ! i); w = cos_world st in
        case cos_procs st ! i of
          Begin \<Rightarrow>
            (case w_URL (witnesses ! i) of
               None \<Rightarrow> cosign_send i name (Inl (Errorf ''witness %s declares no URL'' [FStr name])) w st
             | Some endpoint \<Rightarrow>
                 (case submit D endpoint l signedNote oldSize w of
                    ((cosig, actualSize, err), w1) \<Rightarrow>
                      (case err of
                         None \<Rightarrow> cosign_send i name (Inr (TrimSpace cosig)) w1 st
                       | Some e \<Rightarrow>
                           if errors_Is e ErrCheckpointStale \<and> actualSize \<noteq> oldSize
                           then st\<lparr>cos_world := w1, cos_procs := (cos_procs st)[i := Retry actualSize]\<rparr>
                           else cosign_send i name (Inl e) w1 st)))
        | Retry actualSize \<Rightarrow>
            (case submit D (the (w_URL (witnesses ! i))) l signedNote actualSize w of
               ((cosig, _, err), w2) \<Rightarrow>
                 cosign_send i name
                   (case err of
                      Some e \<Rightarrow> Inl (wrap_err ''retry from witness size %d: %w'' [FNat (unat actualSize)] e)
                    | None \<Rightarrow> Inr (TrimSpace cosig)) w2 st)
        | Sent \<Rightarrow> st)"

definition cosigning_start :: "witness_cfg list \<Rightarrow> 'w \<Rightarrow> 'w cosigning" where
  "cosigning_start witnesses w =
     \<lparr>cos_world = w, cos_procs = replicate (length witnesses) Begin, cos_chan = []\<rparr>"

text \<open>The loop over the results, and what makes one a rejection.\<close>

definition rejection :: "goerr \<Rightarrow> bool" where
  "rejection e \<longleftrightarrow> errors_Is e ErrInvalidProof \<or> errors_Is e ErrRootMismatch"

fun collect_results :: "string list \<Rightarrow> (string \<times> string res) list \<Rightarrow> string list res" where
  "collect_results cosigLines [] = Inr cosigLines"
| "collect_results cosigLines ((policyName, r) # rs) =
     (case r of
        Inl err \<Rightarrow>
          (if is_panic err then Inl err
           else if rejection err
           then Inl (wrap_err ''witness %s rejected checkpoint: %w'' [FStr policyName] err)
           else collect_results cosigLines rs)
      | Inr cosigLine \<Rightarrow> collect_results (cosigLines @ [cosigLine]) rs)"

text \<open>
  Any schedule, followed by two rounds that let every goroutine finish: the receiving loop
  waits for all of them.
\<close>

definition cosign_run ::
    "('w, 'rng, 'nodes) deps \<Rightarrow> witness_cfg list \<Rightarrow> glog \<Rightarrow> uint64 \<Rightarrow> string \<Rightarrow> nat list \<Rightarrow> 'w \<Rightarrow> 'w cosigning" where
  "cosign_run D witnesses l oldSize signedNote sched w =
     fold (goroutine_step D witnesses l oldSize signedNote)
       (sched @ [0..<length witnesses] @ [0..<length witnesses]) (cosigning_start witnesses w)"

definition collectCosignatures ::
    "('w, 'rng, 'nodes) deps \<Rightarrow> nat list \<Rightarrow> tlog_policy \<Rightarrow> glog \<Rightarrow> uint64 \<Rightarrow> string \<Rightarrow> ('w, string list) io" where
  "collectCosignatures D sched pol l oldSize signedNote w =
     (let st = cosign_run D (pol_Witnesses pol) l oldSize signedNote sched w
      in (collect_results [] (cos_chan st), cos_world st))"

subsection \<open>Checkpointing and verifying\<close>

definition checkpointMessage :: "glog \<Rightarrow> string" where
  "checkpointMessage l = ''ratchet: checkpoint at log size '' @ FormatUint10 (Size l)"

definition logToCheckpoint :: "('w, 'rng, 'nodes) deps \<Rightarrow> string \<Rightarrow> ('w, glog \<times> uint64) io" where
  "logToCheckpoint D repoDir =
     ebind (ewrap ''opening log: %w'' [] (Open (d_os D) (d_tessera D) repoDir)) (\<lambda>l.
       if Size l = 0 then
         efail (Errorf ''refusing to checkpoint an empty log (hint: git-ratchet log --ref <ref>)'' [])
       else
         ebind (ewrap ''refusing to checkpoint: %w'' [] (checkLogChains (d_os D) repoDir l)) (\<lambda>_.
         ebind (elift (storedSize (d_log D) l)) (\<lambda>oldSize.
           eret (l, oldSize))))"

definition checkpointLog ::
    "('w, 'rng, 'nodes) deps \<Rightarrow> nat list \<Rightarrow> string \<Rightarrow> string \<Rightarrow> Signer \<Rightarrow> tlog_policy \<Rightarrow> ('w, uint64 \<times> nat) io" where
  "checkpointLog D sched repoDir origin signer pol =
     ebind (logToCheckpoint D repoDir) (\<lambda>(l, oldSize).
     ebind (elift (LogRoot (d_merkle D) l)) (\<lambda>root.
     let cp = NewCheckpoint origin (Size l) root in
     ebind (ewrap ''signing checkpoint: %w'' []
              (SignTlogCheckpoint (d_crypto D) (d_formats D) (d_log D)
                 (checkpoint_Marshal (d_log D) cp) signer)) (\<lambda>signedNote.
     ebind (collectCosignatures D sched pol l oldSize signedNote) (\<lambda>cosigLines.
     let assembled = foldl AppendSignature signedNote cosigLines in
       if \<not> pol_Satisfied pol assembled then
         efail (Errorf ''quorum %q not satisfied by %d cosignatures''
                  [FStr (pol_Quorum pol), FNat (length cosigLines)])
       else
         ebind (Save (d_os D) (d_tessera D) l assembled (checkpointMessage l)) (\<lambda>l.
           eret (Size l, length cosigLines))))))"

definition checkpointedLog :: "('w, 'rng, 'nodes) deps \<Rightarrow> string \<Rightarrow> tlog_policy \<Rightarrow> ('w, glog) io" where
  "checkpointedLog D repoDir pol =
     ebind (ewrap ''opening log: %w'' [] (Open (d_os D) (d_tessera D) repoDir)) (\<lambda>l.
     let stored = StoredCheckpoint l in
     if stored = [] then
       efail (Errorf ''no log checkpoint found (hint: git fetch origin %s:%s)'' [FStr LogRef, FStr LogRef])
     else
       ebind (elift (rwrap ''log checkpoint verification failed: %w'' [] (pol_Verify pol stored))) (\<lambda>_.
       ebind (elift (rwrap ''parsing log checkpoint: %w'' [] (ExtractBody stored))) (\<lambda>body.
       ebind (elift (rwrap ''malformed log checkpoint: %w'' [] (ParseCheckpoint (d_log D) body))) (\<lambda>(cp, _).
         elift (Checkpointed (d_merkle D) l cp)))))"

definition verifySingleRef :: "'w os \<Rightarrow> string \<Rightarrow> string \<Rightarrow> glog \<Rightarrow> ('w, unit) io" where
  "verifySingleRef os repoDir ref l =
     ebind (elift (ParseRefKind ref)) (\<lambda>kind.
     ebind (elift (RefRecords l ref)) (\<lambda>entries.
       if length entries = 0 then efail (Errorf ''no log entries for ref %q'' [FStr ref])
       else
         ebind (checkRefChain os repoDir ref kind entries) (\<lambda>_.
         let latest = entries ! (length entries - 1) in
         ebind (ewrap ''resolving ref: %w'' [] (ResolveRef os repoDir ref)) (\<lambda>localHash.
           if kind = RefTag then
             (if localHash \<noteq> rr_Object latest then
                efail (Errorf ''tag does not match log (current: %s, logged: %s)''
                         [FStr localHash, FStr (rr_Object latest)])
              else eret ())
           else
             ebind (ewrap ''checking ancestry: %w'' [] (IsAncestor os repoDir localHash (rr_Object latest)))
               (\<lambda>ok.
                 if \<not> ok then
                   efail (Errorf ''local commit %s is ahead of the latest logged commit %s''
                            [FStr localHash, FStr (rr_Object latest)])
                 else eret ())))))"

end
