(* ===== verification/Ratchet_Rules.thy ===== *)
theory Ratchet_Rules
  imports Ratchet
begin

section \<open>What the ratchet rules decide\<close>

text \<open>
  The rule on a ref's logged objects as a predicate on the commit graph (\<open>ratchet_ok\<close>), and
  the proof that \<^verbatim>\<open>checkRefChain\<close>, \<^verbatim>\<open>checkLogChains\<close> and \<^verbatim>\<open>verifySingleRef\<close> decide exactly it.
\<close>

definition ratchet_ok :: "commit_graph \<Rightarrow> RefKind \<Rightarrow> string list \<Rightarrow> bool" where
  "ratchet_ok G kind objs =
     (case kind of
        RefTag \<Rightarrow> (\<forall>a\<in>set objs. \<forall>b\<in>set objs. a = b)
      | RefBranch \<Rightarrow> chained (\<lambda>a b. a = b \<or> is_ancestor G a b) objs)"

abbreviation objects :: "RefRecord list \<Rightarrow> string list" where
  "objects rs \<equiv> map rr_Object rs"

subsection \<open>Repeats\<close>

lemma objects_dropRepeats_after:
  "objects (dropRepeats_after prev es) =
     (case prev of None \<Rightarrow> remdups_adj (objects es)
      | Some p \<Rightarrow> tl (remdups_adj (rr_Object p # objects es)))"
proof (induction prev es rule: dropRepeats_after.induct)
  case (2 prev e es)
  then show ?case by (cases prev; cases es) (auto simp: remdups_adj_Cons split: list.splits)
qed (auto split: option.splits)

lemma objects_dropRepeats: "objects (dropRepeats es) = remdups_adj (objects es)"
  by (simp add: dropRepeats_def objects_dropRepeats_after)

lemma chained_remdups_adj: "chained R (remdups_adj xs) \<longleftrightarrow> chained (\<lambda>a b. a = b \<or> R a b) xs"
proof (induction xs rule: remdups_adj.induct)
  case (3 x y xs)
  have "hd (remdups_adj (y # xs)) = y" "remdups_adj (y # xs) \<noteq> []" by simp_all
  with 3 show ?case by (cases "x = y") (auto simp: chained_Cons)
qed auto

lemma length_remdups_adj_le_1:
  "length (remdups_adj xs) \<le> 1 \<longleftrightarrow> (\<forall>a\<in>set xs. \<forall>b\<in>set xs. a = b)"
proof
  assume "length (remdups_adj xs) \<le> 1"
  then obtain y where "set (remdups_adj xs) \<subseteq> {y}"
    by (cases "remdups_adj xs") auto
  then show "\<forall>a\<in>set xs. \<forall>b\<in>set xs. a = b" by auto
next
  assume a: "\<forall>a\<in>set xs. \<forall>b\<in>set xs. a = b"
  then have "xs = replicate (length xs) (hd xs)"
    by (metis hd_in_set length_greater_0_conv list.size(3) replicate_0 replicate_eqI)
  then have "remdups_adj xs = remdups_adj (replicate (length xs) (hd xs))" by simp
  then show "length (remdups_adj xs) \<le> 1" by (simp add: remdups_adj_replicate)
qed

subsection \<open>The rule on one ref\<close>

lemma check_descends_pure: "ancestry_contract os dir graph \<Longrightarrow> pure_at (check_descends os dir ref i prev es) w"
  by (induction os dir ref i prev es rule: check_descends.induct)
     (auto simp: Let_def intro!: pure_intros IsAncestor_at)

lemma check_descends_iff:
  "ancestry_contract os dir graph \<Longrightarrow>
   check_descends os dir ref i prev es w = (Inr (), w') \<longleftrightarrow>
     w' = w \<and> chained (is_ancestor (graph w)) (prev # objects es)"
proof (induction os dir ref i prev es rule: check_descends.induct)
  case (2 os dir ref i prev e es)
  have "check_descends os dir ref i prev (e # es) w = (Inr (), w') \<longleftrightarrow>
      is_ancestor (graph w) prev (rr_Object e) \<and>
      check_descends os dir ref (Suc i) (rr_Object e) es w = (Inr (), w')"
    unfolding check_descends.simps Let_def ebind_Inr_iff ewrap_Inr
    using IsAncestor_state [OF 2(2), of prev "rr_Object e" w]
    by (auto simp: IsAncestor_True_iff [OF 2(2)])
  with 2(1) [OF refl _ 2(2)] show ?case
    using "2.IH" "2.prems" by (cases "is_ancestor (graph w) prev (rr_Object e)") auto
qed auto

lemma checkRefChain_iff:
  assumes "ancestry_contract os dir graph"
  shows "checkRefChain os dir ref kind es w = (Inr (), w') \<longleftrightarrow>
           w' = w \<and> ratchet_ok (graph w) kind (objects es)"
proof (cases kind)
  case RefTag
  have "length (dropRepeats es) \<le> 1 \<longleftrightarrow> ratchet_ok (graph w) RefTag (objects es)"
    unfolding ratchet_ok_def RefKind.case length_remdups_adj_le_1 [symmetric] objects_dropRepeats [symmetric]
    by simp
  with RefTag show ?thesis by (auto simp: checkRefChain_def Let_def)
next
  case RefBranch
  have "ratchet_ok (graph w) RefBranch (objects es) \<longleftrightarrow>
      chained (is_ancestor (graph w)) (objects (dropRepeats es))"
    by (simp add: ratchet_ok_def objects_dropRepeats chained_remdups_adj)
  with RefBranch show ?thesis
    by (cases "dropRepeats es") (auto simp: checkRefChain_def Let_def check_descends_iff [OF assms])
qed

lemma checkRefChain_pure:
  "ancestry_contract os dir graph \<Longrightarrow> pure_at (checkRefChain os dir ref kind es) w"
  by (auto simp: checkRefChain_def Let_def split: RefKind.split list.split intro: check_descends_pure)

subsection \<open>The rule on every ref of a log\<close>

definition chains_ok :: "commit_graph \<Rightarrow> glog \<Rightarrow> bool" where
  "chains_ok G l \<longleftrightarrow>
     (\<forall>e\<in>set (log_entries l). decodable e) \<and>
     (\<forall>ref \<in> rr_Ref ` set (statements (log_entries l)).
        \<exists>kind. ParseRefKind ref = Inr kind \<and>
          ratchet_ok G kind (objects (filter (\<lambda>r. rr_Ref r = ref) (statements (log_entries l)))))"

lemma check_each_chain_pure:
  "ancestry_contract os dir graph \<Longrightarrow> pure_at (check_each_chain os dir l refs) w"
  by (induction refs) (auto intro!: pure_intros checkRefChain_pure)

lemma checkLogChains_pure:
  "ancestry_contract os dir graph \<Longrightarrow> pure_at (checkLogChains os dir l) w"
  unfolding checkLogChains_def by (auto intro!: pure_intros check_each_chain_pure)

lemma check_each_chain_iff:
  assumes c: "ancestry_contract os dir graph" and d: "\<forall>e\<in>set (log_entries l). decodable e"
  shows "check_each_chain os dir l refs w = (Inr (), w') \<longleftrightarrow> w' = w \<and>
    (\<forall>ref\<in>set refs. \<exists>kind. ParseRefKind ref = Inr kind \<and>
        ratchet_ok (graph w) kind (objects (filter (\<lambda>r. rr_Ref r = ref) (statements (log_entries l)))))"
proof (induction refs)
  case (Cons ref refs)
  have "RefRecords l ref = Inr (filter (\<lambda>r. rr_Ref r = ref) (statements (log_entries l)))"
    using d by (simp add: RefRecords_Inr_iff)
  then show ?case using Cons
    by (cases "ParseRefKind ref") (auto simp: ebind_elift ebind_Inr_iff checkRefChain_iff [OF c])
qed auto

lemma checkLogChains_iff:
  assumes c: "ancestry_contract os dir graph" and m: "map_order_contract os"
  shows "checkLogChains os dir l w = (Inr (), w') \<longleftrightarrow> w' = w \<and> chains_ok (graph w) l"
proof (cases "Refs os l")
  case (Inl e)
  then have "\<not> (\<forall>e\<in>set (log_entries l). decodable e)"
    by (auto simp: Refs_def rbind_Inl_iff collect_refs_Inr_iff dest: )
       (metis Inl_Inr_False collect_refs_Inr_iff)
  with Inl show ?thesis by (auto simp: checkLogChains_def ebind_elift chains_ok_def)
next
  case (Inr refs)
  from Refs_Inr [OF m Inr] have
    "set refs = rr_Ref ` set (statements (log_entries l))" "\<forall>e\<in>set (log_entries l). decodable e"
    by auto
  with Inr show ?thesis
    by (simp add: checkLogChains_def ebind_elift check_each_chain_iff [OF c] chains_ok_def)
qed

subsection \<open>Verifying a ref\<close>

definition ref_verified :: "commit_graph \<Rightarrow> (string \<rightharpoonup> string) \<Rightarrow> string \<Rightarrow> glog \<Rightarrow> bool" where
  "ref_verified G refs ref l \<longleftrightarrow>
     (\<exists>kind rs h. ParseRefKind ref = Inr kind \<and> RefRecords l ref = Inr rs \<and> rs \<noteq> [] \<and>
        ratchet_ok G kind (objects rs) \<and> refs ref = Some h \<and>
        (case kind of RefTag \<Rightarrow> h = rr_Object (last rs) | RefBranch \<Rightarrow> is_ancestor G h (rr_Object (last rs))))"

lemma verifySingleRef_iff:
  assumes c: "ancestry_contract os dir graph" and r: "rev_parse_contract os dir refs"
  shows "verifySingleRef os dir ref l w = (Inr (), w') \<longleftrightarrow>
           w' = w \<and> ref_verified (graph w) (refs w) ref l"
proof (cases "ParseRefKind ref")
  case (Inl e)
  then show ?thesis by (simp add: verifySingleRef_def ebind_elift ref_verified_def)
next
  case k: (Inr kind)
  show ?thesis
  proof (cases "RefRecords l ref")
    case (Inl e)
    with k show ?thesis by (simp add: verifySingleRef_def ebind_elift ref_verified_def)
  next
    case (Inr rs)
    show ?thesis
    proof (cases "rs = []")
      case False
      then have "rs ! (length rs - 1) = last rs" by (simp add: last_conv_nth)
      with k Inr False show ?thesis
        by (cases kind)
           (auto simp: verifySingleRef_def ebind_elift ref_verified_def ebind_Inr_iff Let_def ewrap_Inr
              checkRefChain_iff [OF c] ResolveRef_Inr_iff [OF r] IsAncestor_True_iff [OF c]
              split: if_splits)
    qed (use k Inr in \<open>simp add: verifySingleRef_def ebind_elift ref_verified_def\<close>)
  qed
qed

subsection \<open>Consequences of the rule\<close>

lemma ratchet_ok_branch_pairs:
  assumes "ratchet_ok G RefBranch objs" "i < j" "j < length objs"
  shows "objs ! i = objs ! j \<or> is_ancestor G (objs ! i) (objs ! j)"
proof -
  have "sorted_wrt (\<lambda>a b. a = b \<or> is_ancestor G a b) objs"
    using assms(1) by (intro chained_trans) (auto simp: ratchet_ok_def intro: is_ancestor_trans)
  then show ?thesis using assms(2,3) by (rule sorted_wrt_nth_less)
qed

lemma ratchet_ok_prefix: "ratchet_ok G kind (xs @ ys) \<Longrightarrow> ratchet_ok G kind xs"
  by (cases kind) (auto simp: ratchet_ok_def chained_append)

text \<open>
  A clone holds part of the history: what it knows of an object is what the full graph says,
  but objects and parents may be missing from it.
\<close>

definition subgraph :: "commit_graph \<Rightarrow> commit_graph \<Rightarrow> bool" where
  "subgraph G' G \<longleftrightarrow>
     (\<forall>a c. peel G' a = Some c \<longrightarrow> peel G a = Some c) \<and> (\<forall>c. set (parents G' c) \<subseteq> set (parents G c))"

lemma subgraph_refl [simp]: "subgraph G G"
  by (simp add: subgraph_def)

lemma reaches_subgraph: "subgraph G' G \<Longrightarrow> reaches G' a b \<Longrightarrow> reaches G a b"
  unfolding reaches_def by (erule rtranclp_mono [THEN predicate2D, rotated]) (auto simp: subgraph_def)

lemma is_ancestor_subgraph: "subgraph G' G \<Longrightarrow> is_ancestor G' a b \<Longrightarrow> is_ancestor G a b"
  using reaches_subgraph [of G' G]
  by (auto simp: is_ancestor_def subgraph_def split: option.splits)

lemma ratchet_ok_subgraph: "subgraph G' G \<Longrightarrow> ratchet_ok G' kind objs \<Longrightarrow> ratchet_ok G kind objs"
  by (cases kind) (auto simp: ratchet_ok_def intro: chained_mono is_ancestor_subgraph)

lemma ref_verified_extension:
  assumes "ref_verified G' refs ref l'" "subgraph G' G" "log_entries l' = log_entries l @ es"
    "RefRecords l ref = Inr rs" "ParseRefKind ref = Inr kind"
  shows "ratchet_ok G kind (objects rs)"
proof -
  from assms(1,5) obtain rs' where "RefRecords l' ref = Inr rs'" and k: "ratchet_ok G' kind (objects rs')"
    by (auto simp: ref_verified_def)
  with assms(3,4) have "\<exists>ys. rs' = rs @ ys" by (auto simp: RefRecords_Inr_iff)
  with ratchet_ok_subgraph [OF assms(2) k] show ?thesis by (auto dest: ratchet_ok_prefix)
qed

subsection \<open>Recording refs\<close>

text \<open>What \<^verbatim>\<open>logRefs\<close> appends for one ref: nothing if its latest record names the object already.\<close>

definition up_to_date :: "(string \<rightharpoonup> string) \<Rightarrow> glog \<Rightarrow> string \<Rightarrow> bool" where
  "up_to_date refs l ref \<longleftrightarrow>
     (\<exists>rs h. RefRecords l ref = Inr rs \<and> rs \<noteq> [] \<and> refs ref = Some h \<and> rr_Object (last rs) = h)"

lemma log_each_pure: "rev_parse_contract os dir refs \<Longrightarrow> pure_at (log_each os dir l added rest) w"
  by (induction rest arbitrary: l added) (auto intro!: pure_intros ResolveRef_state)

lemma log_each_step:
  fixes w :: 'w
  assumes "rev_parse_contract os dir refs" "refs w ref = Some h" "RefRecords l ref = Inr rs"
  shows "log_each os dir l added (ref # rest) w =
    (if rs \<noteq> [] \<and> rr_Object (last rs) = h then log_each os dir l added rest w
     else case NewRefRecord ref h of Inl e \<Rightarrow> (Inl e, w)
       | Inr e \<Rightarrow> log_each os dir (Append l e) (added @ [ref @ '' '' @ h]) rest w)"
proof -
  have "ResolveRef os dir ref w = (Inr h, w)"
    using ResolveRef_Inr_iff [OF assms(1), of ref w h w] assms(2) by simp
  then have r: "ebind (ewrap ''resolving ref: %w'' [] (ResolveRef os dir ref)) f w = f h w" for f :: "string \<Rightarrow> ('w, glog \<times> string list) io"
    by (intro ebind_Inr) (simp add: ewrap_Inr)
  have "rs \<noteq> [] \<Longrightarrow> rs ! (length rs - 1) = last rs" by (simp add: last_conv_nth)
  then show ?thesis
    unfolding log_each.simps r assms(3) by (auto simp: ebind_elift split: sum.split)
qed

lemma log_each_Cons_iff:
  assumes "rev_parse_contract os dir refs"
  shows "log_each os dir l added (ref # rest) w = (Inr (l', added'), w') \<longleftrightarrow>
    (\<exists>h rs. refs w ref = Some h \<and> RefRecords l ref = Inr rs \<and>
       (if rs \<noteq> [] \<and> rr_Object (last rs) = h
        then log_each os dir l added rest w = (Inr (l', added'), w')
        else \<exists>e. NewRefRecord ref h = Inr e \<and>
          log_each os dir (Append l e) (added @ [ref @ '' '' @ h]) rest w = (Inr (l', added'), w')))"
  (is "?L \<longleftrightarrow> ?R")
proof
  assume l: ?L
  then obtain h rs where h: "refs w ref = Some h" "RefRecords l ref = Inr rs"
    by (auto simp: ebind_Inr_iff ewrap_Inr ResolveRef_Inr_iff [OF assms])
  with l show ?R unfolding log_each_step [OF assms h] by (auto split: if_splits sum.splits)
next
  assume ?R
  then obtain h rs where h: "refs w ref = Some h" "RefRecords l ref = Inr rs" and
    r: "if rs \<noteq> [] \<and> rr_Object (last rs) = h
        then log_each os dir l added rest w = (Inr (l', added'), w')
        else \<exists>e. NewRefRecord ref h = Inr e \<and>
          log_each os dir (Append l e) (added @ [ref @ '' '' @ h]) rest w = (Inr (l', added'), w')"
    by blast
  then show ?L unfolding log_each_step [OF assms h] by (auto split: if_splits)
qed

lemma log_each_appends:
  assumes "rev_parse_contract os dir refs" "log_each os dir l added rest w = (Inr (l', added'), w')"
  shows "\<exists>new. l' = l\<lparr>log_entries := log_entries l @ new\<rparr> \<and> length added' = length added + length new \<and>
     length new \<le> length rest \<and>
     (\<forall>e\<in>set new. \<exists>ref\<in>set rest. \<exists>h. refs w ref = Some h \<and> NewRefRecord ref h = Inr e)"
  using assms(2)
proof (induction rest arbitrary: l added)
  case Nil
  then show ?case by (auto intro!: exI [of _ "[]"])
next
  case (Cons ref rest)
  from Cons.prems [unfolded log_each_Cons_iff [OF assms(1)]] obtain h rs where
    h: "refs w ref = Some h" "RefRecords l ref = Inr rs" and
    r: "if rs \<noteq> [] \<and> rr_Object (last rs) = h
        then log_each os dir l added rest w = (Inr (l', added'), w')
        else \<exists>e. NewRefRecord ref h = Inr e \<and>
          log_each os dir (Append l e) (added @ [ref @ '' '' @ h]) rest w = (Inr (l', added'), w')"
    by blast
  show ?case
  proof (cases "rs \<noteq> [] \<and> rr_Object (last rs) = h")
    case True
    with r Cons.IH [of l added] show ?thesis by fastforce
  next
    case False
    with r obtain e where e: "NewRefRecord ref h = Inr e"
      and "log_each os dir (Append l e) (added @ [ref @ '' '' @ h]) rest w = (Inr (l', added'), w')" by auto
    from Cons.IH [OF this(2)] obtain new where
      "l' = (Append l e)\<lparr>log_entries := log_entries (Append l e) @ new\<rparr>"
      "length added' = Suc (length added) + length new" "length new \<le> length rest"
      "\<forall>e\<in>set new. \<exists>ref\<in>set rest. \<exists>h. refs w ref = Some h \<and> NewRefRecord ref h = Inr e" by auto
    then show ?thesis using e h(1)
      by (intro exI [of _ "e # new"]) (auto simp: Append_def)
  qed
qed

lemma NewRefRecord_record:
  assumes "NewRefRecord ref h = Inr e" "decodable e"
  shows "record_of e = Some \<lparr>rr_Ref = ref, rr_Object = h\<rparr> \<and> entry_ok e"
proof -
  from assms have "entry_Type e = TypeRefRecord" by (auto simp: NewRefRecord_Inr_iff)
  with assms(2) obtain r where "AsRefRecord e = Inr r" by (auto simp: decodable_def)
  with AsRefRecord_New [OF assms(1) this] \<open>entry_Type e = TypeRefRecord\<close> show ?thesis
    by (simp add: record_of_def)
qed

lemma log_each_decodable:
  assumes "rev_parse_contract os dir refs" "log_each os dir l added rest w = (Inr (l', added'), w')"
    "\<forall>e\<in>set (log_entries l'). decodable e"
  shows "\<forall>e\<in>set (log_entries l). decodable e"
  using log_each_appends [OF assms(1,2)] assms(3) by auto

lemma up_to_date_Append_other:
  assumes "up_to_date refs l r" "NewRefRecord ref h = Inr e" "decodable e" "ref \<noteq> r"
  shows "up_to_date refs (Append l e) r"
  using assms NewRefRecord_record [OF assms(2,3)] by (auto simp: up_to_date_def RefRecords_Inr_iff)

lemma up_to_date_Append_self:
  assumes "NewRefRecord ref h = Inr e" "\<forall>x\<in>set (log_entries (Append l e)). decodable x" "refs ref = Some h"
  shows "up_to_date refs (Append l e) ref"
  using assms NewRefRecord_record [OF assms(1)] by (auto simp: up_to_date_def RefRecords_Inr_iff)

lemma log_each_keeps_up_to_date:
  assumes "rev_parse_contract os dir refs"
  shows "log_each os dir l added rest w = (Inr (l', added'), w') \<Longrightarrow>
    \<forall>e\<in>set (log_entries l'). decodable e \<Longrightarrow> up_to_date (refs w) l r \<Longrightarrow> up_to_date (refs w) l' r"
proof (induction rest arbitrary: l added)
  case (Cons ref rest)
  from Cons.prems(1) obtain h rs where h: "refs w ref = Some h" "RefRecords l ref = Inr rs"
    unfolding log_each_Cons_iff [OF assms] by blast
  show ?case
  proof (cases "rs \<noteq> [] \<and> rr_Object (last rs) = h")
    case True
    with Cons.prems(1) have "log_each os dir l added rest w = (Inr (l', added'), w')"
      unfolding log_each_step [OF assms h] by simp
    from Cons.IH [OF this Cons.prems(2,3)] show ?thesis .
  next
    case False
    with Cons.prems(1) obtain e where e: "NewRefRecord ref h = Inr e"
      and run: "log_each os dir (Append l e) (added @ [ref @ '' '' @ h]) rest w = (Inr (l', added'), w')"
      unfolding log_each_step [OF assms h] by (auto split: sum.splits)
    have d: "\<forall>x\<in>set (log_entries (Append l e)). decodable x"
      by (rule log_each_decodable [OF assms run Cons.prems(2)])
    have "ref \<noteq> r" using False h Cons.prems(3) by (auto simp: up_to_date_def)
    with Cons.prems(3) e d have "up_to_date (refs w) (Append l e) r"
      by (intro up_to_date_Append_other) auto
    from Cons.IH [OF run Cons.prems(2) this] show ?thesis .
  qed
qed simp

lemma log_each_up_to_date:
  assumes "rev_parse_contract os dir refs"
  shows "log_each os dir l added rest w = (Inr (l', added'), w') \<Longrightarrow>
    \<forall>e\<in>set (log_entries l'). decodable e \<Longrightarrow> r \<in> set rest \<Longrightarrow> up_to_date (refs w) l' r"
proof (induction rest arbitrary: l added)
  case (Cons ref rest)
  from Cons.prems(1) obtain h rs where h: "refs w ref = Some h" "RefRecords l ref = Inr rs"
    unfolding log_each_Cons_iff [OF assms] by blast
  show ?case
  proof (cases "rs \<noteq> [] \<and> rr_Object (last rs) = h")
    case True
    with Cons.prems(1) have run: "log_each os dir l added rest w = (Inr (l', added'), w')"
      unfolding log_each_step [OF assms h] by simp
    from True h have "up_to_date (refs w) l ref" by (auto simp: up_to_date_def)
    from log_each_keeps_up_to_date [OF assms run Cons.prems(2) this] Cons.IH [OF run Cons.prems(2)] Cons.prems(3)
    show ?thesis by auto
  next
    case False
    with Cons.prems(1) obtain e where e: "NewRefRecord ref h = Inr e"
      and run: "log_each os dir (Append l e) (added @ [ref @ '' '' @ h]) rest w = (Inr (l', added'), w')"
      unfolding log_each_step [OF assms h] by (auto split: sum.splits)
    have "\<forall>x\<in>set (log_entries (Append l e)). decodable x"
      by (rule log_each_decodable [OF assms run Cons.prems(2)])
    then have "up_to_date (refs w) (Append l e) ref"
      by (rule up_to_date_Append_self [where refs = "refs w", OF e _ h(1)])
    from log_each_keeps_up_to_date [OF assms run Cons.prems(2) this]
      Cons.IH [OF run Cons.prems(2)] Cons.prems(3)
    show ?thesis by auto
  qed
qed simp

lemma log_each_idle:
  assumes "rev_parse_contract os dir refs"
  shows "\<forall>r\<in>set rest. up_to_date (refs w) l r \<Longrightarrow> log_each os dir l added rest w = (Inr (l, added), w)"
proof (induction rest)
  case (Cons ref rest)
  then obtain rs h where h: "RefRecords l ref = Inr rs" "rs \<noteq> []" "refs w ref = Some h" "rr_Object (last rs) = h"
    by (auto simp: up_to_date_def)
  show ?case unfolding log_each_step [OF assms h(3,1)] using h(2,4) Cons by simp
qed simp

end
