(* ===== verification/Ratchet_Cosign.thy ===== *)
theory Ratchet_Cosign
  imports Ratchet "HOL-Library.Multiset"
begin

section \<open>Cosigning under every schedule\<close>

text \<open>
  The goroutines of \<^verbatim>\<open>collectCosignatures\<close> interleave freely. Where the witnesses are
  independent of one another, every schedule delivers the same results, one per witness, and
  each is what \<^verbatim>\<open>cosignWithWitness\<close> returns when run alone; whether the command is refused
  therefore does not depend on who answers first.
\<close>

subsection \<open>Progress\<close>

primrec remaining :: "goroutine \<Rightarrow> nat" where
  "remaining Begin = 2"
| "remaining (Retry a) = 1"
| "remaining Sent = 0"

lemma remaining_0 [simp]: "remaining g = 0 \<longleftrightarrow> g = Sent"
  by (cases g) auto

lemma cosign_send_simps [simp]:
  "cos_world (cosign_send i name r w st) = w"
  "cos_procs (cosign_send i name r w st) = (cos_procs st)[i := Sent]"
  "cos_chan (cosign_send i name r w st) = cos_chan st @ [(name, r)]"
  by (simp_all add: cosign_send_def)

lemma goroutine_step_procs:
  "\<exists>g. cos_procs (goroutine_step D ws l old sn i st) = (cos_procs st)[i := g] \<and>
     (i < length (cos_procs st) \<longrightarrow> remaining g \<le> remaining (cos_procs st ! i) - 1)"
proof (cases "i < length (cos_procs st)")
  case True
  have same: "cos_procs st ! i = Sent \<Longrightarrow> (cos_procs st)[i := Sent] = cos_procs st"
    by (metis list_update_id)
  from True show ?thesis
    by (cases "cos_procs st ! i"; cases "w_URL (ws ! i)")
       (auto simp: goroutine_step_def Let_def same split: prod.split option.split
          intro: exI [of _ Sent] exI [of _ "Retry a" for a])
next
  case False
  then show ?thesis by (intro exI [of _ Sent]) (simp add: goroutine_step_def list_update_beyond)
qed

lemma length_procs_step [simp]:
  "length (cos_procs (goroutine_step D ws l old sn i st)) = length (cos_procs st)"
  using goroutine_step_procs [of D ws l old sn i st] by auto

lemma procs_step_other:
  "j \<noteq> i \<Longrightarrow> cos_procs (goroutine_step D ws l old sn i st) ! j = cos_procs st ! j"
  using goroutine_step_procs [of D ws l old sn i st] by auto

lemma remaining_run:
  "j < length (cos_procs st) \<Longrightarrow>
   remaining (cos_procs (fold (goroutine_step D ws l old sn) sched st) ! j)
     \<le> remaining (cos_procs st ! j) - count_list sched j"
proof (induction sched arbitrary: st)
  case (Cons i sched)
  let ?st = "goroutine_step D ws l old sn i st"
  have "remaining (cos_procs ?st ! j) \<le> remaining (cos_procs st ! j) - (if i = j then 1 else 0)"
    using goroutine_step_procs [of D ws l old sn i st] Cons.prems by (auto simp: nth_list_update)
  moreover have "remaining (cos_procs (fold (goroutine_step D ws l old sn) sched ?st) ! j)
      \<le> remaining (cos_procs ?st ! j) - count_list sched j"
    using Cons.prems by (intro Cons.IH) simp
  ultimately show ?case by auto
qed simp

lemma length_procs_run [simp]:
  "length (cos_procs (fold (goroutine_step D ws l old sn) sched st)) = length (cos_procs st)"
  by (induction sched arbitrary: st) auto

lemma cosign_run_all_sent:
  assumes "j < length ws"
  shows "cos_procs (cosign_run D ws l old sn sched w) ! j = Sent"
proof -
  have "count (mset [0..<length ws]) j = 1"
    using assms distinct_count_atmost_1 [of "[0..<length ws]"] by simp
  then have "count_list [0..<length ws] j = 1" by (simp only: count_mset)
  then have "2 \<le> count_list (sched @ [0..<length ws] @ [0..<length ws]) j" by simp
  moreover have "remaining (cos_procs (cosigning_start ws w) ! j) \<le> 2"
    using assms by (simp add: cosigning_start_def)
  ultimately have "remaining (cos_procs (cosign_run D ws l old sn sched w) ! j) = 0"
    using remaining_run [of j "cosigning_start ws w" D ws l old sn "sched @ [0..<length ws] @ [0..<length ws]"]
      assms unfolding cosign_run_def by (simp add: cosigning_start_def)
  then show ?thesis by simp
qed

subsection \<open>Independent witnesses\<close>

text \<open>
  \<open>view w u\<close> is the part of the world behind the endpoint \<open>u\<close>: an exchange with \<open>u\<close> depends
  on it and changes nothing at another endpoint.
\<close>

definition independent ::
    "('w, 'rng, 'nodes) deps \<Rightarrow> ('w \<Rightarrow> url \<Rightarrow> 's) \<Rightarrow> bool" where
  "independent D view \<longleftrightarrow>
     (\<forall>u from sn pf w w'. view w u = view w' u \<longrightarrow>
        fst (d_Update D u from sn pf w) = fst (d_Update D u from sn pf w') \<and>
        view (snd (d_Update D u from sn pf w)) u = view (snd (d_Update D u from sn pf w')) u) \<and>
     (\<forall>u u' from sn pf w. u' \<noteq> u \<longrightarrow> view (snd (d_Update D u from sn pf w)) u' = view w u')"

lemma submit_local:
  assumes "independent D view" "view w u = view w' u"
  shows "fst (submit D u l sn from w) = fst (submit D u l sn from w') \<and>
    view (snd (submit D u l sn from w)) u = view (snd (submit D u l sn from w')) u"
proof (cases "ConsistencyProofFrom (d_merkle D) l from")
  case (Inr pf)
  note I = assms(1) [unfolded independent_def, THEN conjunct1, rule_format, OF assms(2), of "from" sn "rawHashes pf"]
  show ?thesis unfolding submit_def Inr sum.case by (rule I)
qed (use assms(2) in \<open>simp add: submit_def\<close>)

lemma submit_other:
  "independent D view \<Longrightarrow> u' \<noteq> u \<Longrightarrow> view (snd (submit D u l sn from w)) u' = view w u'"
  by (cases "ConsistencyProofFrom (d_merkle D) l from") (simp_all add: submit_def independent_def)

definition outcome ::
    "('w, 'rng, 'nodes) deps \<Rightarrow> glog \<Rightarrow> uint64 \<Rightarrow> string \<Rightarrow> 'w \<Rightarrow> witness_cfg \<Rightarrow> string \<times> string res" where
  "outcome D l old sn w c =
     (w_Name c,
      case w_URL c of
        None \<Rightarrow> Inl (Errorf ''witness %s declares no URL'' [FStr (w_Name c)])
      | Some u \<Rightarrow> fst (cosignWithWitness D u l old sn w))"

definition endpoints_distinct :: "witness_cfg list \<Rightarrow> bool" where
  "endpoints_distinct ws \<longleftrightarrow>
     (\<forall>i j u. i < length ws \<longrightarrow> j < length ws \<longrightarrow> i \<noteq> j \<longrightarrow> w_URL (ws ! i) = Some u \<longrightarrow> w_URL (ws ! j) \<noteq> Some u)"

text \<open>Where a goroutine stands, against the world \<open>w0\<close> all of them started from.\<close>

definition goroutine_ok ::
    "('w, 'rng, 'nodes) deps \<Rightarrow> ('w \<Rightarrow> url \<Rightarrow> 's) \<Rightarrow> glog \<Rightarrow> uint64 \<Rightarrow> string \<Rightarrow> 'w \<Rightarrow> 'w \<Rightarrow>
     witness_cfg \<Rightarrow> goroutine \<Rightarrow> bool" where
  "goroutine_ok D view l old sn w0 w c g \<longleftrightarrow>
     (case g of
        Begin \<Rightarrow> (\<forall>u. w_URL c = Some u \<longrightarrow> view w u = view w0 u)
      | Retry a \<Rightarrow>
          (\<exists>u cosig e w1. w_URL c = Some u \<and> submit D u l sn old w0 = ((cosig, a, Some e), w1) \<and>
             errors_Is e ErrCheckpointStale \<and> a \<noteq> old \<and> view w u = view w1 u)
      | Sent \<Rightarrow> True)"

definition sent :: "goroutine list \<Rightarrow> nat set" where
  "sent gs = {i. i < length gs \<and> gs ! i = Sent}"

lemma finite_sent [simp]: "finite (sent gs)"
  by (rule finite_subset [of _ "{..<length gs}"]) (auto simp: sent_def)

lemma sent_start [simp]: "sent (replicate n Begin) = {}"
  by (auto simp: sent_def)

lemma sent_update: "i < length gs \<Longrightarrow> gs ! i \<noteq> Sent \<Longrightarrow>
   sent (gs[i := g]) = (if g = Sent then insert i (sent gs) else sent gs) \<and> i \<notin> sent gs"
  by (auto simp: sent_def nth_list_update split: if_splits)

definition cosigning_ok ::
    "('w, 'rng, 'nodes) deps \<Rightarrow> ('w \<Rightarrow> url \<Rightarrow> 's) \<Rightarrow> witness_cfg list \<Rightarrow> glog \<Rightarrow> uint64 \<Rightarrow> string \<Rightarrow> 'w \<Rightarrow>
     'w cosigning \<Rightarrow> bool" where
  "cosigning_ok D view ws l old sn w0 st \<longleftrightarrow>
     length (cos_procs st) = length ws \<and>
     (\<forall>i<length ws. goroutine_ok D view l old sn w0 (cos_world st) (ws ! i) (cos_procs st ! i)) \<and>
     mset (cos_chan st) = image_mset (\<lambda>i. outcome D l old sn w0 (ws ! i))
       (mset_set (sent (cos_procs st)))"

lemma cosigning_ok_start: "cosigning_ok D view ws l old sn w (cosigning_start ws w)"
  by (simp add: cosigning_ok_def cosigning_start_def goroutine_ok_def)

lemma goroutine_ok_other:
  assumes "independent D view" "goroutine_ok D view l old sn w0 w c g"
    "\<And>u'. w_URL c = Some u' \<Longrightarrow> u' \<noteq> u" "w' = snd (submit D u l sn from w)"
  shows "goroutine_ok D view l old sn w0 w' c g"
  using assms submit_other [OF assms(1), of _ u l sn "from" w]
  by (cases g) (auto simp: goroutine_ok_def)

lemma cosigning_ok_send:
  assumes ok: "cosigning_ok D view ws l old sn w0 st" and i: "i < length ws" "cos_procs st ! i \<noteq> Sent"
    and r: "outcome D l old sn w0 (ws ! i) = (w_Name (ws ! i), r)"
    and others: "\<And>j. j < length ws \<Longrightarrow> j \<noteq> i \<Longrightarrow>
      goroutine_ok D view l old sn w0 w' (ws ! j) (cos_procs st ! j)"
  shows "cosigning_ok D view ws l old sn w0 (cosign_send i (w_Name (ws ! i)) r w' st)"
proof -
  have len: "length (cos_procs st) = length ws" using ok by (simp add: cosigning_ok_def)
  have sent: "sent ((cos_procs st)[i := Sent]) = insert i (sent (cos_procs st))" "i \<notin> sent (cos_procs st)"
    using sent_update [of i "cos_procs st" Sent] i len by auto
  have "mset (cos_chan st) = image_mset (\<lambda>i. outcome D l old sn w0 (ws ! i)) (mset_set (sent (cos_procs st)))"
    using ok by (simp add: cosigning_ok_def)
  then have "mset (cos_chan (cosign_send i (w_Name (ws ! i)) r w' st)) =
      image_mset (\<lambda>i. outcome D l old sn w0 (ws ! i))
        (mset_set (sent (cos_procs (cosign_send i (w_Name (ws ! i)) r w' st))))"
    using r by (simp add: sent)
  moreover have "goroutine_ok D view l old sn w0 w' (ws ! j) ((cos_procs st)[i := Sent] ! j)"
    if "j < length ws" for j
    using others [OF that] that len by (cases "j = i") (simp_all add: goroutine_ok_def)
  ultimately show ?thesis using len by (simp add: cosigning_ok_def)
qed

lemma goroutine_step_ok:
  assumes ind: "independent D view" and dist: "endpoints_distinct ws"
    and ok: "cosigning_ok D view ws l old sn w0 st"
  shows "cosigning_ok D view ws l old sn w0 (goroutine_step D ws l old sn i st)"
proof (cases "i < length ws")
  case False
  with ok show ?thesis by (simp add: goroutine_step_def cosigning_ok_def)
next
  case i: True
  have len: "length (cos_procs st) = length ws" using ok by (simp add: cosigning_ok_def)
  have gi: "goroutine_ok D view l old sn w0 (cos_world st) (ws ! i) (cos_procs st ! i)"
    and gj: "\<And>j. j < length ws \<Longrightarrow> goroutine_ok D view l old sn w0 (cos_world st) (ws ! j) (cos_procs st ! j)"
    using ok i by (auto simp: cosigning_ok_def)
  show ?thesis
  proof (cases "cos_procs st ! i")
    case Sent
    with i len ok show ?thesis by (simp add: goroutine_step_def Let_def)
  next
    case Begin
    show ?thesis
    proof (cases "w_URL (ws ! i)")
      case None
      with Begin i len gj show ?thesis
        by (simp add: goroutine_step_def Let_def)
           (rule cosigning_ok_send [OF ok]; simp add: outcome_def)
    next
      case (Some u)
      obtain cosig a err w1 where s: "submit D u l sn old (cos_world st) = ((cosig, a, err), w1)"
        by (metis prod.exhaust)
      have v: "view (cos_world st) u = view w0 u" using gi Begin Some by (simp add: goroutine_ok_def)
      obtain w1' where s0: "submit D u l sn old w0 = ((cosig, a, err), w1')" and v1: "view w1 u = view w1' u"
        using submit_local [OF ind v, of l sn old] s by (metis fst_conv snd_conv prod.collapse)
      have others: "goroutine_ok D view l old sn w0 w1 (ws ! j) (cos_procs st ! j)"
        if "j < length ws" "j \<noteq> i" for j
        using that dist i Some s
        by (intro goroutine_ok_other [OF ind gj [OF that(1)], of u w1 old]) (auto simp: endpoints_distinct_def)
      show ?thesis
      proof (cases "\<exists>e. err = Some e \<and> errors_Is e ErrCheckpointStale \<and> a \<noteq> old")
        case True
        then obtain e where e: "err = Some e" "errors_Is e ErrCheckpointStale" "a \<noteq> old" by blast
        have sent: "sent ((cos_procs st)[i := Retry a]) = sent (cos_procs st)"
          using sent_update [of i "cos_procs st" "Retry a"] Begin len i by simp
        have "goroutine_step D ws l old sn i st =
            st\<lparr>cos_world := w1, cos_procs := (cos_procs st)[i := Retry a]\<rparr>"
          using Begin Some i len s e by (simp add: goroutine_step_def Let_def)
        moreover have "goroutine_ok D view l old sn w0 w1 (ws ! i) (Retry a)"
          using s0 e v1 Some by (simp add: goroutine_ok_def)
        ultimately show ?thesis using ok others len i
          by (auto simp: cosigning_ok_def sent nth_list_update)
      next
        case False
        let ?r = "case err of Some e \<Rightarrow> Inl e | None \<Rightarrow> Inr (TrimSpace cosig)"
        have "outcome D l old sn w0 (ws ! i) = (w_Name (ws ! i), ?r)"
          using Some s0 False by (auto simp: outcome_def cosignWithWitness_def split: option.split)
        moreover have "goroutine_step D ws l old sn i st = cosign_send i (w_Name (ws ! i)) ?r w1 st"
          using Begin Some i len s False by (auto simp: goroutine_step_def Let_def split: option.split)
        ultimately show ?thesis using others Begin i
          by (auto intro!: cosigning_ok_send [OF ok])
      qed
    qed
  next
    case (Retry a)
    with gi obtain u cosig e w1 where u: "w_URL (ws ! i) = Some u"
      and s0: "submit D u l sn old w0 = ((cosig, a, Some e), w1)"
      and e: "errors_Is e ErrCheckpointStale" "a \<noteq> old" and v: "view (cos_world st) u = view w1 u"
      by (auto simp: goroutine_ok_def)
    obtain cosig2 b err w2 where s: "submit D u l sn a (cos_world st) = ((cosig2, b, err), w2)"
      by (metis prod.exhaust)
    obtain w2' where s1: "submit D u l sn a w1 = ((cosig2, b, err), w2')"
      using submit_local [OF ind v, of l sn a] s by (metis fst_conv prod.collapse)
    have others: "goroutine_ok D view l old sn w0 w2 (ws ! j) (cos_procs st ! j)"
      if "j < length ws" "j \<noteq> i" for j
      using that dist i u s
      by (intro goroutine_ok_other [OF ind gj [OF that(1)], of u w2 a]) (auto simp: endpoints_distinct_def)
    let ?r = "case err of
        Some e \<Rightarrow> Inl (wrap_err ''retry from witness size %d: %w'' [FNat (unat a)] e)
      | None \<Rightarrow> Inr (TrimSpace cosig2)"
    have "outcome D l old sn w0 (ws ! i) = (w_Name (ws ! i), ?r)"
      using u s0 s1 e by (auto simp: outcome_def cosignWithWitness_def split: option.split)
    moreover have "goroutine_step D ws l old sn i st = cosign_send i (w_Name (ws ! i)) ?r w2 st"
      using Retry u i len s by (simp add: goroutine_step_def Let_def)
    ultimately show ?thesis using others Retry i
      by (auto intro!: cosigning_ok_send [OF ok])
  qed
qed

lemma cosign_run_chan:
  assumes "independent D view" "endpoints_distinct ws"
  shows "mset (cos_chan (cosign_run D ws l old sn sched w)) = mset (map (outcome D l old sn w) ws)"
proof -
  let ?st = "cosign_run D ws l old sn sched w"
  have "cosigning_ok D view ws l old sn w (fold (goroutine_step D ws l old sn) sched st)"
    if "cosigning_ok D view ws l old sn w st" for sched st
    using that by (induction sched arbitrary: st) (auto intro: goroutine_step_ok [OF assms])
  then have "cosigning_ok D view ws l old sn w ?st"
    unfolding cosign_run_def by (simp add: cosigning_ok_start)
  then have "mset (cos_chan ?st) = image_mset (\<lambda>i. outcome D l old sn w (ws ! i))
       (mset_set (sent (cos_procs ?st)))"
    by (simp add: cosigning_ok_def)
  also have "length (cos_procs ?st) = length ws" by (simp add: cosign_run_def cosigning_start_def)
  then have "sent (cos_procs ?st) = {0..<length ws}"
    using cosign_run_all_sent by (fastforce simp: sent_def)
  also have "image_mset (\<lambda>i. outcome D l old sn w (ws ! i)) (mset_set {0..<length ws})
      = mset (map (outcome D l old sn w) (map ((!) ws) [0..<length ws]))"
    by (simp add: comp_def mset_upt)
  finally show ?thesis by (simp add: map_nth)
qed

subsection \<open>The verdict\<close>

definition fatal :: "string res \<Rightarrow> bool" where
  "fatal r \<longleftrightarrow> (case r of Inl e \<Rightarrow> is_panic e \<or> rejection e | Inr _ \<Rightarrow> False)"

definition obtained :: "(string \<times> string res) list \<Rightarrow> string list" where
  "obtained rs = List.map_filter (\<lambda>(n, r). case r of Inl e \<Rightarrow> None | Inr line \<Rightarrow> Some line) rs"

lemma obtained_simps [simp]:
  "obtained [] = []"
  "obtained ((n, Inl e) # rs) = obtained rs"
  "obtained ((n, Inr line) # rs) = line # obtained rs"
  by (simp_all add: obtained_def List.map_filter_def)

lemma collect_results_Inr_iff:
  "collect_results acc rs = Inr ls \<longleftrightarrow> (\<forall>(n, r)\<in>set rs. \<not> fatal r) \<and> ls = acc @ obtained rs"
proof (induction acc rs arbitrary: ls rule: collect_results.induct)
  case (2 acc n r rs)
  then show ?case by (cases r) (auto simp: fatal_def)
qed auto

lemma mset_obtained: "mset (obtained rs) = (\<Sum>(n, r)\<in>#mset rs. case r of Inl e \<Rightarrow> {#} | Inr line \<Rightarrow> {#line#})"
proof (induction rs)
  case (Cons x rs)
  obtain n r where "x = (n, r)" by force
  with Cons show ?case by (cases r) auto
qed simp

definition outcomes ::
    "('w, 'rng, 'nodes) deps \<Rightarrow> tlog_policy \<Rightarrow> glog \<Rightarrow> uint64 \<Rightarrow> string \<Rightarrow> 'w \<Rightarrow> (string \<times> string res) list" where
  "outcomes D pol l old sn w = map (outcome D l old sn w) (pol_Witnesses pol)"

lemma collectCosignatures_verdict:
  assumes "independent D view" "endpoints_distinct (pol_Witnesses pol)"
  shows "case fst (collectCosignatures D sched pol l old sn w) of
      Inl e \<Rightarrow> \<exists>(n, r)\<in>set (outcomes D pol l old sn w). fatal r
    | Inr lines \<Rightarrow> (\<forall>(n, r)\<in>set (outcomes D pol l old sn w). \<not> fatal r) \<and> mset lines = mset (obtained (outcomes D pol l old sn w))"
proof -
  let ?ch = "cos_chan (cosign_run D (pol_Witnesses pol) l old sn sched w)"
  have m: "mset ?ch = mset (outcomes D pol l old sn w)"
    unfolding outcomes_def by (rule cosign_run_chan [OF assms(1,2)])
  then have s: "set ?ch = set (outcomes D pol l old sn w)" by (metis set_mset_mset)
  have o: "mset (obtained ?ch) = mset (obtained (outcomes D pol l old sn w))"
    unfolding mset_obtained m ..
  show ?thesis
  proof (cases "collect_results [] ?ch")
    case (Inr lines)
    then have "(\<forall>(n, r)\<in>set ?ch. \<not> fatal r) \<and> lines = obtained ?ch"
      by (simp add: collect_results_Inr_iff)
    with Inr s o show ?thesis by (simp add: collectCosignatures_def Let_def)
  next
    case (Inl e)
    then have "\<not> (\<forall>(n, r)\<in>set ?ch. \<not> fatal r)"
      using collect_results_Inr_iff [of "[]" ?ch "obtained ?ch"] by auto
    with Inl s show ?thesis by (auto simp: collectCosignatures_def Let_def)
  qed
qed

end
