(* ===== verification/Git_Store.thy ===== *)
theory Git_Store
  imports Gitlog
begin

section \<open>The log in the object store\<close>

text \<open>
  What the git commands \<^verbatim>\<open>gitlog\<close> runs do to a repository, as a contract over an abstract
  database of refs, blobs, trees and commits (\<open>git_db\<close>), and what follows for \<^verbatim>\<open>Save\<close> and
  \<^verbatim>\<open>Open\<close>: what one writes the other reads, only \<^verbatim>\<open>update-ref\<close> moves a ref, and it moves the
  log ref only from the head the log was opened at.
\<close>

subsection \<open>The database\<close>

type_synonym git_tree = "string \<rightharpoonup> string"

record git_db =
  g_refs :: "string \<rightharpoonup> string"
  g_blobs :: "string \<rightharpoonup> string"
  g_trees :: "string \<rightharpoonup> git_tree"
  g_commits :: "string \<rightharpoonup> (string \<times> string list \<times> string)"  \<comment> \<open>tree, parents, message\<close>
  g_index :: "string \<Rightarrow> git_tree"  \<comment> \<open>by \<^verbatim>\<open>GIT_INDEX_FILE\<close>\<close>

text \<open>Objects are never lost or changed.\<close>

definition grows :: "git_db \<Rightarrow> git_db \<Rightarrow> bool" where
  "grows d d' \<longleftrightarrow> g_blobs d \<subseteq>\<^sub>m g_blobs d' \<and> g_trees d \<subseteq>\<^sub>m g_trees d' \<and> g_commits d \<subseteq>\<^sub>m g_commits d'"

lemma grows_refl [simp]: "grows d d"
  by (simp add: grows_def)

lemma grows_trans [trans]: "grows a b \<Longrightarrow> grows b c \<Longrightarrow> grows a c"
  by (auto simp: grows_def intro: map_le_trans)

definition stays :: "git_db \<Rightarrow> git_db \<Rightarrow> bool" where
  "stays d d' \<longleftrightarrow> grows d d' \<and> g_refs d' = g_refs d"

lemma stays_refl [simp]: "stays d d"
  by (simp add: stays_def)

lemma stays_trans [trans]: "stays a b \<Longrightarrow> stays b c \<Longrightarrow> stays a c"
  by (auto simp: stays_def intro: grows_trans)

lemma stays_blob: "stays d d' \<Longrightarrow> g_blobs d b = Some c \<Longrightarrow> g_blobs d' b = Some c"
  by (auto simp: stays_def grows_def map_le_def dom_def)

text \<open>The tree the log ref's commit holds.\<close>

definition log_tree :: "git_db \<Rightarrow> git_tree option" where
  "log_tree d =
     (case g_refs d LogRef of None \<Rightarrow> None
      | Some c \<Rightarrow> (case g_commits d c of None \<Rightarrow> None | Some (t, _, _) \<Rightarrow> g_trees d t))"

subsection \<open>The contract of the commands\<close>

text \<open>
  \<open>git_at os dir args env inp w\<close> is one run. The clauses say what a run that exits with status
  zero has done, and that a run which fails has moved no ref.
\<close>

definition git_at :: "'w os \<Rightarrow> string \<Rightarrow> string list \<Rightarrow> string list option \<Rightarrow> string option \<Rightarrow> 'w \<Rightarrow> exec_result \<times> 'w" where
  "git_at os dir args env inp w = exec_command os ''git'' (git_argv dir args) env inp w"

definition writes_object :: "string list \<Rightarrow> bool" where
  "writes_object args \<longleftrightarrow> args \<noteq> [] \<and> hd args \<in> {''hash-object'', ''update-index'', ''write-tree'', ''commit-tree''}"

definition objects_contract :: "'w os \<Rightarrow> string \<Rightarrow> ('w \<Rightarrow> git_db) \<Rightarrow> bool" where
  "objects_contract os dir db \<longleftrightarrow>
     (\<forall>args env inp w. writes_object args \<longrightarrow> stays (db w) (db (snd (git_at os dir args env inp w))))"

definition hash_object_contract :: "'w os \<Rightarrow> string \<Rightarrow> ('w \<Rightarrow> git_db) \<Rightarrow> bool" where
  "hash_object_contract os dir db \<longleftrightarrow>
     (\<forall>env inp w out err w'. git_at os dir [''hash-object'', ''-w'', ''--stdin''] env inp w = (Exited 0 out err, w') \<longrightarrow>
        (\<exists>b. out = b @ [nl] \<and> object_id b \<and> CHR '','' \<notin> set b \<and>
             g_blobs (db w') b = Some (case inp of Some c \<Rightarrow> c | None \<Rightarrow> [])))"

definition update_index_contract :: "'w os \<Rightarrow> string \<Rightarrow> ('w \<Rightarrow> git_db) \<Rightarrow> bool" where
  "update_index_contract os dir db \<longleftrightarrow>
     (\<forall>env f blob path w out err w'. CHR '','' \<notin> set blob \<longrightarrow>
        git_at os dir [''update-index'', ''--add'', ''--cacheinfo'', cacheinfo blob path]
          (Some (env @ [''GIT_INDEX_FILE='' @ f])) None w = (Exited 0 out err, w') \<longrightarrow>
        g_index (db w') f = (g_index (db w) f)(path \<mapsto> blob))"

definition write_tree_contract :: "'w os \<Rightarrow> string \<Rightarrow> ('w \<Rightarrow> git_db) \<Rightarrow> bool" where
  "write_tree_contract os dir db \<longleftrightarrow>
     (\<forall>env f w out err w'. git_at os dir [''write-tree''] (Some (env @ [''GIT_INDEX_FILE='' @ f])) None w
          = (Exited 0 out err, w') \<longrightarrow>
        (\<exists>t. out = t @ [nl] \<and> object_id t \<and> g_trees (db w') t = Some (g_index (db w) f)))"

definition commit_tree_contract :: "'w os \<Rightarrow> string \<Rightarrow> ('w \<Rightarrow> git_db) \<Rightarrow> bool" where
  "commit_tree_contract os dir db \<longleftrightarrow>
     (\<forall>env tree parent message w out err w'.
        git_at os dir ([''commit-tree'', tree] @ (if parent \<noteq> [] then [''-p'', parent] else []) @ [''-m'', message])
          env None w = (Exited 0 out err, w') \<longrightarrow>
        (\<exists>c. out = c @ [nl] \<and> object_id c \<and>
           g_commits (db w') c = Some (tree, if parent \<noteq> [] then [parent] else [], message)))"

text \<open>
  \<^verbatim>\<open>update-ref ref new old\<close> moves the ref only if it is at \<open>old\<close>; an empty \<open>old\<close> means that it
  must not exist yet.
\<close>

definition update_ref_contract :: "'w os \<Rightarrow> string \<Rightarrow> ('w \<Rightarrow> git_db) \<Rightarrow> bool" where
  "update_ref_contract os dir db \<longleftrightarrow>
     (\<forall>ref new old w. case git_at os dir [''update-ref'', ref, new, old] None None w of
        (Exited code _ _, w') \<Rightarrow>
          (if code = 0
           then g_refs (db w) ref = (if old = [] then None else Some old) \<and>
                db w' = (db w)\<lparr>g_refs := (g_refs (db w))(ref \<mapsto> new)\<rparr>
           else stays (db w) (db w'))
      | (NotRun _, w') \<Rightarrow> stays (db w) (db w'))"

text \<open>A scratch directory holds no index yet; making and removing it leave the repository alone.\<close>

definition scratch_contract :: "'w os \<Rightarrow> ('w \<Rightarrow> git_db) \<Rightarrow> bool" where
  "scratch_contract os db \<longleftrightarrow>
     (\<forall>a b w. stays (db w) (db (snd (MkdirTemp os a b w))) \<and>
        (\<forall>tmp. fst (MkdirTemp os a b w) = Inr tmp \<longrightarrow>
           g_index (db (snd (MkdirTemp os a b w))) (filepath_Join os tmp ''index'') = Map.empty)) \<and>
     (\<forall>tmp w. stays (db w) (db (RemoveAll os tmp w)))"

text \<open>The queries about the log ref: whether it exists, its commit, and a file of its tree.\<close>

definition log_files_contract :: "'w os \<Rightarrow> string \<Rightarrow> ('w \<Rightarrow> git_db) \<Rightarrow> bool" where
  "log_files_contract os dir db \<longleftrightarrow>
     (\<forall>w. \<exists>code out err.
        git_at os dir [''rev-parse'', ''--verify'', ''--quiet'', LogRef] None None w = (Exited code out err, w) \<and>
        (code = 0 \<longleftrightarrow> g_refs (db w) LogRef \<noteq> None)) \<and>
     (\<forall>w c. g_refs (db w) LogRef = Some c \<longrightarrow> object_id c \<longrightarrow> (\<exists>err.
        git_at os dir [''rev-parse'', LogRef] None None w = (Exited 0 (c @ [nl]) err, w))) \<and>
     (\<forall>w m path b content. log_tree (db w) = Some m \<longrightarrow> m path = Some b \<longrightarrow> g_blobs (db w) b = Some content \<longrightarrow>
        (\<exists>err. git_at os dir [''cat-file'', ''-p'', LogRef @ '':'' @ path] None None w = (Exited 0 content err, w)))"

text \<open>The list of the bundles in that tree.\<close>

definition log_listing_contract :: "'w os \<Rightarrow> string \<Rightarrow> ('w \<Rightarrow> git_db) \<Rightarrow> bool" where
  "log_listing_contract os dir db \<longleftrightarrow>
     (\<forall>w m. log_tree (db w) = Some m \<longrightarrow> (\<exists>ps err.
        git_at os dir [''ls-tree'', ''-r'', ''--name-only'', LogRef, entriesPrefix] None None w
          = (Exited 0 (concat (map (\<lambda>p. p @ [nl]) ps)) err, w) \<and>
        distinct ps \<and> set ps = {p. m p \<noteq> None \<and> prefix entriesPrefix p}))"

text \<open>What writing needs.\<close>

definition git_objects :: "'w os \<Rightarrow> string \<Rightarrow> ('w \<Rightarrow> git_db) \<Rightarrow> bool" where
  "git_objects os dir db \<longleftrightarrow>
     objects_contract os dir db \<and> hash_object_contract os dir db \<and> update_index_contract os dir db \<and>
     write_tree_contract os dir db \<and> commit_tree_contract os dir db \<and> update_ref_contract os dir db \<and>
     scratch_contract os db"

lemma git_objectsD:
  assumes "git_objects os dir db"
  shows "objects_contract os dir db" "hash_object_contract os dir db" "update_index_contract os dir db"
    "write_tree_contract os dir db" "commit_tree_contract os dir db" "update_ref_contract os dir db"
    "scratch_contract os db"
  using assms unfolding git_objects_def by blast+

subsection \<open>One run\<close>

definition run_env :: "'w os \<Rightarrow> git_cmd \<Rightarrow> string list option" where
  "run_env os c = (if cmd_env c \<noteq> [] then Some (Environ os @ cmd_env c) else None)"

definition run_stdin :: "git_cmd \<Rightarrow> string option" where
  "run_stdin c = (if cmd_stdin c \<noteq> [] then Some (cmd_stdin c) else None)"

lemma Run_git_at:
  "Run os c args w =
     (case git_at os (cmd_repoDir c) args (run_env os c) (run_stdin c) w of
        (Exited code out err, w') \<Rightarrow> (if code = 0 then (Inr out, w') else (Inl (exit_message args code err), w'))
      | (NotRun err, w') \<Rightarrow> (Inl (Wrapf ''git %s: %w'' [FStr (Join args '' '')] err), w'))"
  by (simp add: Run_def git_at_def run_env_def run_stdin_def)

lemma Run_Inr: "Run os c args w = (Inr out, w') \<longleftrightarrow>
   (\<exists>err. git_at os (cmd_repoDir c) args (run_env os c) (run_stdin c) w = (Exited 0 out err, w'))"
  unfolding Run_git_at by (auto split: prod.split exec_result.split)

lemma snd_Run: "snd (Run os c args w) = snd (git_at os (cmd_repoDir c) args (run_env os c) (run_stdin c) w)"
  unfolding Run_git_at by (auto split: prod.split exec_result.split)

lemma run_env_simps [simp]:
  "run_env os (Git d) = None" "run_env os (WithStdin (Git d) c) = None"
  "run_env os (WithEnv (Git d) e) = (if e = [] then None else Some (Environ os @ e))"
  by (simp_all add: run_env_def Git_def WithEnv_def WithStdin_def)

lemma run_stdin_simps [simp]:
  "run_stdin (Git d) = None" "run_stdin (WithEnv (Git d) e) = None"
  "run_stdin (WithStdin (Git d) c) = (if c = [] then None else Some c)"
  by (simp_all add: run_stdin_def Git_def WithEnv_def WithStdin_def)

lemma cmd_repoDir_simps [simp]:
  "cmd_repoDir (Git d) = d" "cmd_repoDir (WithEnv c e) = cmd_repoDir c" "cmd_repoDir (WithStdin c s) = cmd_repoDir c"
  by (simp_all add: Git_def WithEnv_def WithStdin_def)

subsection \<open>Effects that move no ref\<close>

text \<open>\<open>keeps db m w\<close>: whatever \<open>m\<close> returns, it moved no ref and lost no object.\<close>

definition keeps :: "('w \<Rightarrow> git_db) \<Rightarrow> ('w, 'a) io \<Rightarrow> 'w \<Rightarrow> bool" where
  "keeps db m w \<longleftrightarrow> stays (db w) (db (snd (m w)))"

named_theorems keeps_intros \<open>introduction rules for effects that move no ref\<close>

lemma keeps_eret [keeps_intros, simp]: "keeps db (eret x) w"
  by (simp add: keeps_def)

lemma keeps_efail [keeps_intros, simp]: "keeps db (efail e) w"
  by (simp add: keeps_def)

lemma keeps_elift [keeps_intros, simp]: "keeps db (elift r) w"
  by (simp add: keeps_def)

lemma keeps_ebind [keeps_intros]:
  "keeps db m w \<Longrightarrow> (\<And>x w'. m w = (Inr x, w') \<Longrightarrow> keeps db (f x) w') \<Longrightarrow> keeps db (ebind m f) w"
  unfolding keeps_def ebind_def by (cases "m w") (auto split: sum.split intro: stays_trans)

lemma keeps_ewrap [keeps_intros]: "keeps db m w \<Longrightarrow> keeps db (ewrap f a m) w"
  by (cases "m w") (simp add: keeps_def ewrap_def)

lemma keeps_emap [keeps_intros]:
  "(\<And>x w'. x \<in> set xs \<Longrightarrow> keeps db (f x) w') \<Longrightarrow> keeps db (emap f xs) w"
  by (induction xs arbitrary: w) (auto intro!: keeps_intros)

lemma keeps_pure: "pure_at m w \<Longrightarrow> keeps db m w"
  by (simp add: pure_at_def keeps_def)

lemma keeps_Run: "objects_contract os dir db \<Longrightarrow> writes_object args \<Longrightarrow> cmd_repoDir c = dir \<Longrightarrow>
   keeps db (Run os c args) w"
  by (simp add: keeps_def snd_Run objects_contract_def)

lemma keepsD: "keeps db m w \<Longrightarrow> m w = (r, w') \<Longrightarrow> stays (db w) (db w')"
  by (simp add: keeps_def)

subsection \<open>The operations of \<^verbatim>\<open>Save\<close>\<close>

lemma HashObject_keeps: "git_objects os dir db \<Longrightarrow> keeps db (HashObject os dir content) w"
  unfolding HashObject_def
  by (intro keeps_intros keeps_Run) (auto dest: git_objectsD simp: writes_object_def)

lemma HashObject_post:
  assumes "git_objects os dir db"
  shows "post (HashObject os dir content) w
    (\<lambda>b w'. object_id b \<and> CHR '','' \<notin> set b \<and> g_blobs (db w') b = Some content)"
proof -
  have "\<exists>b. out = b @ [nl] \<and> object_id b \<and> CHR '','' \<notin> set b \<and> g_blobs (db w') b = Some content"
    if "git_at os dir [''hash-object'', ''-w'', ''--stdin''] None (run_stdin (WithStdin (Git dir) content)) w
          = (Exited 0 out err, w')" for out err w'
    using git_objectsD(2) [OF assms, unfolded hash_object_contract_def, rule_format, OF that]
    by (cases "content = []") auto
  then show ?thesis
    unfolding HashObject_def post_simps
    by (intro postI) (auto simp: Run_Inr object_id_def TrimSpace_newline)
qed

lemma MkdirTemp_keeps: "git_objects os dir db \<Longrightarrow> keeps db (MkdirTemp os a b) w"
  by (simp add: keeps_def git_objects_def scratch_contract_def)

abbreviation index_file :: "'w os \<Rightarrow> string \<Rightarrow> string" where
  "index_file os tmp \<equiv> filepath_Join os tmp ''index''"

text \<open>\<^verbatim>\<open>update-index\<close> for every path, in the order of the map.\<close>

definition add_to_index :: "'w os \<Rightarrow> string \<Rightarrow> string \<Rightarrow> (string \<times> string) list \<Rightarrow> string \<Rightarrow> ('w, string) io" where
  "add_to_index os dir tmp blobs path =
     ewrap ''adding %s to log tree: %w'' [FStr path]
       (Run os (WithEnv (Git dir) (index_env os tmp))
          [''update-index'', ''--add'', ''--cacheinfo'',
           cacheinfo (case map_of blobs path of Some b \<Rightarrow> b | None \<Rightarrow> []) path])"

lemma add_to_index_post:
  assumes s: "git_objects os dir db" and b: "map_of blobs path = Some b" "CHR '','' \<notin> set b"
  shows "post (add_to_index os dir tmp blobs path) w
    (\<lambda>_ w'. g_index (db w') (index_file os tmp) = (g_index (db w) (index_file os tmp))(path \<mapsto> b))"
  unfolding add_to_index_def post_simps
proof (rule postI)
  fix out w'
  assume "Run os (WithEnv (Git dir) (index_env os tmp)) [''update-index'', ''--add'', ''--cacheinfo'',
           cacheinfo (case map_of blobs path of Some b \<Rightarrow> b | None \<Rightarrow> []) path] w = (Inr out, w')"
  then obtain err where "git_at os dir [''update-index'', ''--add'', ''--cacheinfo'', cacheinfo b path]
      (Some (Environ os @ [''GIT_INDEX_FILE='' @ index_file os tmp])) None w = (Exited 0 out err, w')"
    using b(1) by (auto simp: Run_Inr index_env_def)
  from git_objectsD(3) [OF s, unfolded update_index_contract_def, rule_format, OF b(2) this]
  show "g_index (db w') (index_file os tmp) = (g_index (db w) (index_file os tmp))(path \<mapsto> b)" .
qed

lemma add_to_index_keeps: "git_objects os dir db \<Longrightarrow> keeps db (add_to_index os dir tmp blobs path) w"
  unfolding add_to_index_def
  by (intro keeps_intros keeps_Run) (auto dest: git_objectsD simp: writes_object_def)

lemma add_all_post:
  assumes s: "git_objects os dir db"
    and b: "\<And>path. path \<in> set paths \<Longrightarrow> \<exists>b. map_of blobs path = Some b \<and> CHR '','' \<notin> set b"
  shows "post (emap (add_to_index os dir tmp blobs) paths) w
    (\<lambda>_ w'. g_index (db w') (index_file os tmp) = (\<lambda>p. if p \<in> set paths then map_of blobs p else g_index (db w) (index_file os tmp) p))"
  using b
proof (induction paths arbitrary: w)
  case (Cons path paths)
  obtain b where b: "map_of blobs path = Some b" "CHR '','' \<notin> set b" using Cons.prems by auto
  show ?case unfolding emap.simps post_simps
  proof (rule postI)
    fix u w1 assume "add_to_index os dir tmp blobs path w = (Inr u, w1)"
    from postD [OF add_to_index_post [OF s b] this]
    have i: "g_index (db w1) (index_file os tmp) = (g_index (db w) (index_file os tmp))(path \<mapsto> b)" .
    show "post (emap (add_to_index os dir tmp blobs) paths) w1
        (\<lambda>x w'. g_index (db w') (index_file os tmp) = (\<lambda>p. if p \<in> set (path # paths) then map_of blobs p else g_index (db w) (index_file os tmp) p))"
      by (rule post_mono [OF Cons.IH]) (use Cons.prems b in \<open>auto simp: i\<close>)
  qed
qed (simp add: post_eret)

lemma write_index_add:
  "write_index os l blobs tmp =
     ebind (emap (add_to_index os (log_repoDir l) tmp blobs) (map_keys_order os (map fst blobs))) (\<lambda>_.
       ebind (ewrap ''writing log tree: %w'' []
                (Run os (WithEnv (Git (log_repoDir l)) (index_env os tmp)) [''write-tree'']))
         (\<lambda>tree. eret (TrimSpace tree)))"
  unfolding write_index_def add_to_index_def ..

lemma writeTree_keeps:
  assumes "git_objects os (log_repoDir l) db"
  shows "keeps db (writeTree os l blobs) w"
proof -
  have k: "keeps db (write_index os l blobs tmp) w" for tmp w
    unfolding write_index_add
    by (intro keeps_intros keeps_Run add_to_index_keeps)
       (use assms in \<open>auto dest: git_objectsD simp: writes_object_def\<close>)
  have r: "stays (db w) (db (RemoveAll os tmp w))" for tmp w
    using git_objectsD(7) [OF assms] by (simp add: scratch_contract_def)
  show ?thesis
    unfolding writeTree_def
  proof (intro keeps_intros MkdirTemp_keeps [OF assms])
    fix tmp w'
    obtain x w1 where "write_index os l blobs tmp w' = (x, w1)" by force
    with keepsD [OF k this] r [of w1 tmp] show "keeps db (\<lambda>w. case write_index os l blobs tmp w of
        (r, w') \<Rightarrow> (r, RemoveAll os tmp w')) w'"
      by (auto simp: keeps_def intro: stays_trans)
  qed
qed

lemma writeTree_post:
  assumes s: "git_objects os (log_repoDir l) db" and m: "map_order_contract os"
    and d: "distinct (map fst blobs)" and b: "\<And>p b. map_of blobs p = Some b \<Longrightarrow> CHR '','' \<notin> set b"
  shows "post (writeTree os l blobs) w (\<lambda>t w'. object_id t \<and> g_trees (db w') t = Some (map_of blobs))"
  unfolding writeTree_def post_simps
proof (rule postI)
  fix tmp w1 assume mk: "MkdirTemp os [] ''git-ratchet-log-index'' w = (Inr tmp, w1)"
  let ?f = "filepath_Join os tmp ''index''" and ?paths = "map_keys_order os (map fst blobs)"
  have e: "g_index (db w1) ?f = Map.empty"
    using git_objectsD(7) [OF s] mk unfolding scratch_contract_def by (metis fst_conv snd_conv)
  have keys: "set ?paths = dom (map_of blobs)"
    using m d unfolding map_order_contract_def by (metis dom_map_of_conv_image_fst list.set_map)
  have add: "post (emap (add_to_index os (log_repoDir l) tmp blobs) ?paths) w1
      (\<lambda>_ w2. g_index (db w2) ?f = map_of blobs)"
    by (rule post_mono [OF add_all_post [OF s]]) (use keys b e in \<open>auto simp: domIff fun_eq_iff\<close>)
  have wrote: "post (write_index os l blobs tmp) w1 (\<lambda>t w'. object_id t \<and> g_trees (db w') t = Some (map_of blobs))"
    unfolding write_index_add post_simps
  proof (rule post_mono [OF add], rule postI)
    fix w2 out w3
    assume i: "g_index (db w2) ?f = map_of blobs"
      and "Run os (WithEnv (Git (log_repoDir l)) (index_env os tmp)) [''write-tree''] w2 = (Inr out, w3)"
    then obtain err where "git_at os (log_repoDir l) [''write-tree'']
        (Some (Environ os @ [''GIT_INDEX_FILE='' @ ?f])) None w2 = (Exited 0 out err, w3)"
      by (auto simp: Run_Inr index_env_def)
    from git_objectsD(4) [OF s, unfolded write_tree_contract_def, rule_format, OF this] i
    show "object_id (TrimSpace out) \<and> g_trees (db w3) (TrimSpace out) = Some (map_of blobs)"
      by (auto simp: object_id_def TrimSpace_newline)
  qed
  have r: "stays (db w) (db (RemoveAll os tmp w))" for tmp w
    using git_objectsD(7) [OF s] by (simp add: scratch_contract_def)
  show "post (\<lambda>w. case write_index os l blobs tmp w of (r, w') \<Rightarrow> (r, RemoveAll os tmp w')) w1
      (\<lambda>t w'. object_id t \<and> g_trees (db w') t = Some (map_of blobs))"
  proof (rule postI)
    fix t w' assume "(case write_index os l blobs tmp w1 of (r, w') \<Rightarrow> (r, RemoveAll os tmp w')) = (Inr t, w')"
    then obtain w2 where w2: "write_index os l blobs tmp w1 = (Inr t, w2)" "w' = RemoveAll os tmp w2"
      by (auto split: prod.splits)
    from postD [OF wrote w2(1)] r [of w2 tmp] w2(2)
    show "object_id t \<and> g_trees (db w') t = Some (map_of blobs)"
      by (auto simp: stays_def grows_def map_le_def dom_def)
  qed
qed

lemma commitTree_keeps: "git_objects os (log_repoDir l) db \<Longrightarrow> keeps db (commitTree os l tree message) w"
  unfolding commitTree_def Let_def
  by (intro keeps_intros keeps_Run) (auto dest: git_objectsD simp: writes_object_def)

lemma commitTree_post:
  assumes "git_objects os (log_repoDir l) db"
  shows "post (commitTree os l tree message) w (\<lambda>c w'. object_id c \<and>
    g_commits (db w') c = Some (tree, if log_head l \<noteq> [] then [log_head l] else [], message))"
  unfolding commitTree_def Let_def post_simps
proof (rule postI)
  fix out w'
  assume "Run os (WithEnv (Git (log_repoDir l)) commit_env) ([''commit-tree'', tree] @
      (if log_head l \<noteq> [] then [''-p'', log_head l] else []) @ [''-m'', message]) w = (Inr out, w')"
  then obtain err where "git_at os (log_repoDir l) ([''commit-tree'', tree] @
      (if log_head l \<noteq> [] then [''-p'', log_head l] else []) @ [''-m'', message])
      (Some (Environ os @ commit_env)) None w = (Exited 0 out err, w')"
    unfolding Run_Inr by (auto simp: commit_env_def)
  from git_objectsD(5) [OF assms, unfolded commit_tree_contract_def, rule_format, OF this]
  show "object_id (TrimSpace out) \<and>
      g_commits (db w') (TrimSpace out) = Some (tree, if log_head l \<noteq> [] then [log_head l] else [], message)"
    by (auto simp: object_id_def TrimSpace_newline)
qed

end
