(* ===== verification/Log_Store.thy ===== *)
theory Log_Store
  imports Git_Store
begin

section \<open>Saving and opening the log\<close>

text \<open>
  The layout of a saved log: bundle \<open>i\<close> holds the entries from \<open>256 * i\<close>, at the path
  \<^verbatim>\<open>layout.EntriesPath\<close> gives it, and \<^verbatim>\<open>checkpoint\<close> holds the checkpoint. \<^verbatim>\<open>Save\<close>
  establishes it, \<^verbatim>\<open>Open\<close> reads it back.
\<close>

subsection \<open>Bundles\<close>

definition slice :: "entry list \<Rightarrow> nat \<Rightarrow> entry list" where
  "slice es i = take EntriesPerBundle (drop (EntriesPerBundle * i) es)"

definition nbundles :: "entry list \<Rightarrow> nat" where
  "nbundles es = (length es + (EntriesPerBundle - 1)) div EntriesPerBundle"

definition bundle_path :: "tessera_lib \<Rightarrow> entry list \<Rightarrow> nat \<Rightarrow> string" where
  "bundle_path TL es i =
     EntriesPath TL (of_nat i)
       (if length (slice es i) < EntriesPerBundle then of_nat (length (slice es i)) else 0)"

lemma nbundles_iff: "i < nbundles es \<longleftrightarrow> EntriesPerBundle * i < length es"
proof -
  have "i < (n + 255) div 256 \<longleftrightarrow> 256 * i < n" for n :: nat
    using less_eq_div_iff_mult_less_eq [of 256 "Suc i" "n + 255"] by auto
  then show ?thesis by (simp add: nbundles_def EntriesPerBundle_def)
qed

lemma concat_slices_upto: "concat (map (slice es) [0..<k]) = take (EntriesPerBundle * k) es"
proof (induction k)
  case (Suc k)
  have "take (EntriesPerBundle * k) es @ take EntriesPerBundle (drop (EntriesPerBundle * k) es)
      = take (EntriesPerBundle * k + EntriesPerBundle) es"
    by (simp only: take_add)
  with Suc show ?case by (simp add: slice_def algebra_simps)
qed simp

lemma concat_slices: "concat (map (slice es) [0..<nbundles es]) = es"
proof -
  have "\<not> EntriesPerBundle * nbundles es < length es" using nbundles_iff [of "nbundles es" es] by simp
  then show ?thesis by (simp add: concat_slices_upto)
qed

lemma slice_ok: "\<forall>e\<in>set es. entry_ok e \<Longrightarrow> \<forall>e\<in>set (slice es i). entry_ok e"
  by (auto simp: slice_def dest: in_set_takeD in_set_dropD)

text \<open>
  \<^verbatim>\<open>layout.EntriesPath\<close> and \<^verbatim>\<open>layout.ParseTileIndexPartial\<close> are inverse to each other, and a
  path is one line that neither starts nor ends with a space. A log has fewer than \<open>2 ^ 63\<close>
  entries, so fewer than \<open>2 ^ 55\<close> bundles.
\<close>

definition layout_contract :: "tessera_lib \<Rightarrow> bool" where
  "layout_contract TL \<longleftrightarrow>
     (\<forall>n p. unat n < 2 ^ 55 \<longrightarrow> (\<exists>sfx. EntriesPath TL n p = entriesPrefix @ sfx \<and> sfx \<noteq> [] \<and>
        nl \<notin> set sfx \<and> \<not> is_space_edge (last sfx) \<and> ParseTileIndexPartial TL sfx = Inr (n, p)))"

lemma go_len_bundles: "go_len es \<Longrightarrow> i < nbundles es \<Longrightarrow> i < 2 ^ 55"
  unfolding nbundles_iff go_len_def EntriesPerBundle_def by simp

lemma bundle_path_layout:
  assumes "layout_contract TL" "i < 2 ^ 55"
  obtains sfx p where "bundle_path TL es i = entriesPrefix @ sfx" "sfx \<noteq> []" "nl \<notin> set sfx"
    "\<not> is_space_edge (last sfx)" "ParseTileIndexPartial TL sfx = Inr (of_nat i, p)"
proof -
  have "unat (of_nat i :: uint64) < 2 ^ 55" using assms(2) by (simp add: unat_of_nat)
  with assms(1) that show ?thesis unfolding layout_contract_def bundle_path_def by metis
qed

lemma of_nat_64_inject:
  assumes "i < 2 ^ 55" "j < 2 ^ 55"
  shows "(of_nat i :: uint64) = of_nat j \<longleftrightarrow> i = j"
proof
  assume "(of_nat i :: uint64) = of_nat j"
  then have "unat (of_nat i :: uint64) = unat (of_nat j :: uint64)" by simp
  with assms show "i = j" by (simp add: unat_of_nat)
qed simp

lemma bundle_path_inject:
  assumes "layout_contract TL" "i < 2 ^ 55" "j < 2 ^ 55" "bundle_path TL es i = bundle_path TL fs j"
  shows "i = j"
proof -
  obtain x p where x: "bundle_path TL es i = entriesPrefix @ x" "ParseTileIndexPartial TL x = Inr (of_nat i, p)"
    by (rule bundle_path_layout [OF assms(1,2)])
  obtain y q where y: "bundle_path TL fs j = entriesPrefix @ y" "ParseTileIndexPartial TL y = Inr (of_nat j, q)"
    by (rule bundle_path_layout [OF assms(1,3)])
  from x y assms(4) have "(of_nat i :: uint64) = of_nat j" by simp
  with of_nat_64_inject [OF assms(2,3)] show ?thesis by simp
qed

lemma checkpointPath_not_bundle: "\<not> prefix entriesPrefix checkpointPath"
  by (simp add: entriesPrefix_def checkpointPath_def)

subsection \<open>What is saved\<close>

text \<open>
  \<open>saved TL d es cp k blobs\<close>: the table names the blob of the checkpoint and those of the
  first \<open>k\<close> bundles, and nothing else.
\<close>

definition saved :: "tessera_lib \<Rightarrow> git_db \<Rightarrow> entry list \<Rightarrow> string \<Rightarrow> nat \<Rightarrow> (string \<times> string) list \<Rightarrow> bool" where
  "saved TL d es cp k blobs \<longleftrightarrow>
     distinct (map fst blobs) \<and>
     dom (map_of blobs) = insert checkpointPath (bundle_path TL es ` {..<k}) \<and>
     (\<forall>p b. map_of blobs p = Some b \<longrightarrow> CHR '','' \<notin> set b) \<and>
     (\<exists>b. map_of blobs checkpointPath = Some b \<and> g_blobs d b = Some cp) \<and>
     (\<forall>j<k. \<exists>b c. map_of blobs (bundle_path TL es j) = Some b \<and>
        marshalBundle (slice es j) = Inr c \<and> g_blobs d b = Some c)"

lemma saved_blobs: "g_blobs d = g_blobs d' \<Longrightarrow> saved TL d es cp k blobs = saved TL d' es cp k blobs"
  by (simp only: saved_def)

lemma saved_stays: "saved TL d es cp k blobs \<Longrightarrow> stays d d' \<Longrightarrow> saved TL d' es cp k blobs"
  using stays_blob [of d d'] unfolding saved_def by meson

lemma saved_update:
  assumes s: "saved TL d es cp k blobs" and l: "layout_contract TL" and k: "k < 2 ^ 55"
    and c: "marshalBundle (slice es k) = Inr c" "g_blobs d b = Some c" "CHR '','' \<notin> set b"
  shows "saved TL d es cp (Suc k) (AList.update (bundle_path TL es k) b blobs)"
proof -
  obtain sfx p where "bundle_path TL es k = entriesPrefix @ sfx" by (rule bundle_path_layout [OF l k])
  then have cp: "bundle_path TL es k \<noteq> checkpointPath" using checkpointPath_not_bundle by (metis prefixI)
  have ne: "bundle_path TL es j \<noteq> bundle_path TL es k" if "j < k" for j
    using bundle_path_inject [OF l, of j k es es] that k by auto
  have d: "dom (map_of (AList.update (bundle_path TL es k) b blobs)) =
      insert (bundle_path TL es k) (dom (map_of blobs))"
    by (auto simp: update_conv split: if_splits)
  have i: "{..<Suc k} = insert k {..<k}" by auto
  show ?thesis
    using s c cp ne unfolding saved_def d i
    by (auto simp: update_conv distinct_update less_Suc_eq)
qed

lemma save_bundles_post:
  assumes s: "git_objects os (log_repoDir l) db" and lay: "layout_contract TL" and g: "go_len (log_entries l)"
  shows "saved TL (db w) (log_entries l) cp i blobs \<Longrightarrow> i \<le> nbundles (log_entries l) \<Longrightarrow>
    post (save_bundles os TL l (EntriesPerBundle * i) blobs) w
      (\<lambda>blobs' w'. saved TL (db w') (log_entries l) cp (nbundles (log_entries l)) blobs')"
proof (induction "nbundles (log_entries l) - i" arbitrary: i blobs w)
  case 0
  then have "\<not> EntriesPerBundle * i < length (log_entries l)" using nbundles_iff [of i "log_entries l"] by simp
  from 0 have "i = nbundles (log_entries l)" by simp
  with 0 show ?case
    unfolding save_bundles.simps [of os TL l "EntriesPerBundle * i"] if_not_P [OF \<open>\<not> EntriesPerBundle * i < _\<close>] post_eret
    by simp
next
  case (Suc n)
  then have i: "i < nbundles (log_entries l)" by simp
  then have lt: "EntriesPerBundle * i < length (log_entries l)" by (simp add: nbundles_iff)
  let ?start = "EntriesPerBundle * i"
  let ?hi = "min (?start + EntriesPerBundle) (length (log_entries l))"
  have sl: "take (?hi - ?start) (drop ?start (log_entries l)) = slice (log_entries l) i"
    by (simp add: slice_def min_def)
  have len: "?hi - ?start = length (slice (log_entries l) i)" by (auto simp: slice_def min_def)
  have p: "EntriesPath TL (of_nat (?start div EntriesPerBundle))
      (if ?hi - ?start < EntriesPerBundle then of_nat (?hi - ?start) else 0) = bundle_path TL (log_entries l) i"
    unfolding bundle_path_def len by (simp add: EntriesPerBundle_def)
  have nxt: "?start + EntriesPerBundle = EntriesPerBundle * Suc i" by simp
  show ?case
    unfolding save_bundles.simps [of os TL l ?start] Let_def if_P [OF lt]
    unfolding sl p
    unfolding nxt post_simps
  proof (intro allI impI postI)
    fix c b w'
    assume c: "marshalBundle (slice (log_entries l) i) = Inr c"
      and b: "HashObject os (log_repoDir l) c w = (Inr b, w')"
    from postD [OF HashObject_post [OF s] b] have
      bb: "CHR '','' \<notin> set b" "g_blobs (db w') b = Some c" by auto
    have "stays (db w) (db w')" by (rule keepsD [OF HashObject_keeps [OF s] b])
    with Suc.prems(1) have "saved TL (db w') (log_entries l) cp i blobs" by (rule saved_stays)
    from saved_update [OF this lay go_len_bundles [OF g i] c bb(2,1)]
    have sv: "saved TL (db w') (log_entries l) cp (Suc i) (AList.update (bundle_path TL (log_entries l) i) b blobs)" .
    fix blobs' w''
    assume "save_bundles os TL l (EntriesPerBundle * Suc i)
        (AList.update (bundle_path TL (log_entries l) i) b blobs) w' = (Inr blobs', w'')"
    moreover have "n = nbundles (log_entries l) - Suc i" "Suc i \<le> nbundles (log_entries l)"
      using Suc.hyps(2) i by simp_all
    ultimately show "saved TL (db w'') (log_entries l) cp (nbundles (log_entries l)) blobs'"
      using postD [OF Suc.hyps(1) [OF _ sv]] by blast
  qed
qed

lemma save_bundles_keeps:
  "git_objects os (log_repoDir l) db \<Longrightarrow> keeps db (save_bundles os TL l start blobs) w"
proof (induction "length (log_entries l) - start" arbitrary: start blobs w rule: less_induct)
  case less
  show ?case
  proof (cases "start < length (log_entries l)")
    case True
    then have d: "length (log_entries l) - (start + EntriesPerBundle) < length (log_entries l) - start"
      by (simp add: EntriesPerBundle_def)
    show ?thesis
      unfolding save_bundles.simps [of os TL l start] if_P [OF True] Let_def
      by (intro keeps_intros HashObject_keeps less.hyps less.prems d)
  next
    case False
    show ?thesis unfolding save_bundles.simps [of os TL l start] if_not_P [OF False] by (rule keeps_eret)
  qed
qed

subsection \<open>\<^verbatim>\<open>Save\<close>\<close>

text \<open>The database after a successful save: the commit, its tree and the saved blobs.\<close>

definition holds_log :: "tessera_lib \<Rightarrow> git_db \<Rightarrow> entry list \<Rightarrow> string \<Rightarrow> string \<Rightarrow> bool" where
  "holds_log TL d es cp head \<longleftrightarrow>
     g_refs d LogRef = Some head \<and> object_id head \<and>
     (\<exists>blobs. log_tree d = Some (map_of blobs) \<and> saved TL d es cp (nbundles es) blobs)"

definition update_log_ref :: "'w os \<Rightarrow> glog \<Rightarrow> string \<Rightarrow> ('w, string) io" where
  "update_log_ref os l commit =
     ewrap ''updating %s (the log may have been advanced concurrently): %w'' [FStr LogRef]
       (Run os (Git (log_repoDir l)) [''update-ref'', LogRef, commit, log_head l])"

definition prepare :: "'w os \<Rightarrow> tessera_lib \<Rightarrow> glog \<Rightarrow> string \<Rightarrow> string \<Rightarrow> ('w, string) io" where
  "prepare os TL l checkpoint message =
     ebind (ewrap ''writing checkpoint blob: %w'' [] (HashObject os (log_repoDir l) checkpoint)) (\<lambda>cpBlob.
     ebind (save_bundles os TL l 0 [(checkpointPath, cpBlob)]) (\<lambda>blobs.
     ebind (writeTree os l blobs) (\<lambda>tree.
     commitTree os l tree message)))"

lemma ebind_assoc: "ebind (ebind m f) g = ebind m (\<lambda>x. ebind (f x) g)"
  by (rule ext) (simp add: ebind_def split: prod.split sum.split)

lemma Save_prepare:
  "Save os TL l checkpoint message =
     ebind (prepare os TL l checkpoint message) (\<lambda>commit. ebind (update_log_ref os l commit) (\<lambda>_.
       eret (l\<lparr>log_head := commit, log_checkpoint := checkpoint\<rparr>)))"
  unfolding Save_def prepare_def update_log_ref_def ebind_assoc ..

lemma prepare_keeps: "git_objects os (log_repoDir l) db \<Longrightarrow> keeps db (prepare os TL l cp msg) w"
  unfolding prepare_def
  by (intro keeps_intros HashObject_keeps save_bundles_keeps writeTree_keeps commitTree_keeps)

lemma saved_start:
  "g_blobs d b = Some cp \<Longrightarrow> CHR '','' \<notin> set b \<Longrightarrow> saved TL d es cp 0 [(checkpointPath, b)]"
  by (auto simp: saved_def)

lemma prepare_post:
  assumes s: "git_objects os (log_repoDir l) db" and m: "map_order_contract os"
    and lay: "layout_contract TL" and g: "go_len (log_entries l)"
  shows "post (prepare os TL l cp msg) w (\<lambda>c w'. object_id c \<and>
    (\<exists>t blobs. g_commits (db w') c = Some (t, if log_head l \<noteq> [] then [log_head l] else [], msg) \<and>
       g_trees (db w') t = Some (map_of blobs) \<and>
       saved TL (db w') (log_entries l) cp (nbundles (log_entries l)) blobs))"
  unfolding prepare_def post_simps
proof (intro postI)
  fix b w1 blobs w2 t w3 c w4
  assume b: "HashObject os (log_repoDir l) cp w = (Inr b, w1)"
    and bl: "save_bundles os TL l 0 [(checkpointPath, b)] w1 = (Inr blobs, w2)"
    and t: "writeTree os l blobs w2 = (Inr t, w3)" and c: "commitTree os l t msg w3 = (Inr c, w4)"
  from postD [OF HashObject_post [OF s] b] have "saved TL (db w1) (log_entries l) cp 0 [(checkpointPath, b)]"
    by (auto intro: saved_start)
  from postD [OF save_bundles_post [OF s lay g this]] bl
  have sv: "saved TL (db w2) (log_entries l) cp (nbundles (log_entries l)) blobs" by simp
  have w3: "stays (db w2) (db w3)" by (rule keepsD [OF writeTree_keeps [OF s] t])
  have w4: "stays (db w3) (db w4)" by (rule keepsD [OF commitTree_keeps [OF s] c])
  have "distinct (map fst blobs)" "\<And>p b. map_of blobs p = Some b \<Longrightarrow> CHR '','' \<notin> set b"
    using sv by (auto simp: saved_def)
  from postD [OF writeTree_post [OF s m this] t] have tt: "g_trees (db w3) t = Some (map_of blobs)" by simp
  with w4 have t4: "g_trees (db w4) t = Some (map_of blobs)"
    by (auto simp: stays_def grows_def map_le_def dom_def)
  have "saved TL (db w4) (log_entries l) cp (nbundles (log_entries l)) blobs"
    using saved_stays [OF saved_stays [OF sv w3] w4] .
  with t4 postD [OF commitTree_post [OF s] c]
  show "object_id c \<and>
    (\<exists>t blobs. g_commits (db w4) c = Some (t, if log_head l \<noteq> [] then [log_head l] else [], msg) \<and>
       g_trees (db w4) t = Some (map_of blobs) \<and>
       saved TL (db w4) (log_entries l) cp (nbundles (log_entries l)) blobs)" by blast
qed

lemma update_log_ref_result:
  assumes "git_objects os (log_repoDir l) db"
  shows "case update_log_ref os l commit w of
      (Inr _, w') \<Rightarrow> g_refs (db w) LogRef = (if log_head l = [] then None else Some (log_head l)) \<and>
        db w' = (db w)\<lparr>g_refs := (g_refs (db w))(LogRef \<mapsto> commit)\<rparr>
    | (Inl _, w') \<Rightarrow> stays (db w) (db w')"
  using git_objectsD(6) [OF assms, unfolded update_ref_contract_def, THEN spec [of _ LogRef],
    THEN spec [of _ commit], THEN spec [of _ "log_head l"], THEN spec [of _ w]]
  by (auto simp: update_log_ref_def ewrap_def Run_git_at split: prod.splits exec_result.splits if_splits)

lemma Save_failure:
  assumes "git_objects os (log_repoDir l) db" "Save os TL l cp msg w = (Inl e, w')"
  shows "stays (db w) (db w')"
proof -
  from assms(2) [unfolded Save_prepare ebind_Inl_iff] consider
      "prepare os TL l cp msg w = (Inl e, w')"
    | c w1 where "prepare os TL l cp msg w = (Inr c, w1)" "update_log_ref os l c w1 = (Inl e, w')"
    by auto
  then show ?thesis
  proof cases
    case 1
    then show ?thesis by (rule keepsD [OF prepare_keeps [OF assms(1)]])
  next
    case 2
    with update_log_ref_result [OF assms(1), where commit = c and w = w1] keepsD [OF prepare_keeps [OF assms(1)] 2(1)]
    show ?thesis by (auto intro: stays_trans)
  qed
qed

lemma Save_success:
  assumes s: "git_objects os (log_repoDir l) db" and m: "map_order_contract os"
    and lay: "layout_contract TL" and g: "go_len (log_entries l)"
    and r: "Save os TL l cp msg w = (Inr l', w')"
  obtains c where "l' = l\<lparr>log_head := c, log_checkpoint := cp\<rparr>"
    "g_refs (db w) LogRef = (if log_head l = [] then None else Some (log_head l))"
    "g_refs (db w') = (g_refs (db w))(LogRef \<mapsto> c)" "grows (db w) (db w')"
    "\<exists>t. g_commits (db w') c = Some (t, if log_head l \<noteq> [] then [log_head l] else [], msg)"
    "holds_log TL (db w') (log_entries l) cp c"
proof -
  from r [unfolded Save_prepare] obtain c w1 where p: "prepare os TL l cp msg w = (Inr c, w1)"
    and u: "ebind (update_log_ref os l c) (\<lambda>_. eret (l\<lparr>log_head := c, log_checkpoint := cp\<rparr>)) w1 = (Inr l', w')"
    by (auto simp: ebind_Inr_iff)
  from u obtain out where u: "update_log_ref os l c w1 = (Inr out, w')"
    and l': "l' = l\<lparr>log_head := c, log_checkpoint := cp\<rparr>"
    by (auto simp: ebind_Inr_iff)
  from keepsD [OF prepare_keeps [OF s] p] have k: "grows (db w) (db w1)" "g_refs (db w1) = g_refs (db w)"
    by (auto simp: stays_def)
  from update_log_ref_result [OF s, where commit = c and w = w1] u
  have refs: "g_refs (db w1) LogRef = (if log_head l = [] then None else Some (log_head l))"
    and d: "db w' = (db w1)\<lparr>g_refs := (g_refs (db w1))(LogRef \<mapsto> c)\<rparr>" by auto
  from postD [OF prepare_post [OF s m lay g] p] obtain t blobs where
    o: "object_id c" and
    c: "g_commits (db w1) c = Some (t, if log_head l \<noteq> [] then [log_head l] else [], msg)"
      "g_trees (db w1) t = Some (map_of blobs)" and
    sv: "saved TL (db w1) (log_entries l) cp (nbundles (log_entries l)) blobs" by blast
  have "saved TL (db w') (log_entries l) cp (nbundles (log_entries l)) blobs"
    using sv saved_blobs [of "db w'" "db w1"] by (simp add: d)
  then have "holds_log TL (db w') (log_entries l) cp c"
    using c o by (auto simp: holds_log_def log_tree_def d)
  then show ?thesis
    using l' refs k d c by (intro that) (auto simp: grows_def)
qed

subsection \<open>\<^verbatim>\<open>Open\<close>\<close>

lemma entriesPrefix_simps [simp]:
  "entriesPrefix \<noteq> []" "nl \<notin> set entriesPrefix" "hd (entriesPrefix @ x) = CHR ''t''"
  "\<not> is_space_edge (hd entriesPrefix)" "\<not> is_space_edge (CHR ''t'')"
  by (simp_all add: entriesPrefix_def space_edge_char)

lemma bundle_path_line:
  assumes "layout_contract TL" "i < 2 ^ 55"
  shows "TrimSpace (bundle_path TL es i) = bundle_path TL es i \<and> bundle_path TL es i \<noteq> [] \<and>
    nl \<notin> set (bundle_path TL es i) \<and> \<not> is_space_edge (hd (bundle_path TL es i)) \<and>
    \<not> is_space_edge (last (bundle_path TL es i)) \<and> prefix entriesPrefix (bundle_path TL es i)"
proof -
  obtain sfx p where b: "bundle_path TL es i = entriesPrefix @ sfx" "sfx \<noteq> []" "nl \<notin> set sfx"
    "\<not> is_space_edge (last sfx)" by (rule bundle_path_layout [OF assms])
  then have "TrimSpace (entriesPrefix @ sfx) = entriesPrefix @ sfx"
    by (intro TrimSpace_fixed) (simp add: hd_append2)
  with b show ?thesis by (simp add: hd_append2)
qed

lemma collect_bundles_paths:
  assumes lay: "layout_contract TL"
  shows "(\<And>p. p \<in> set ps \<Longrightarrow> \<exists>i < 2 ^ 55. p = bundle_path TL es i \<and> map_of acc (of_nat i) = None) \<Longrightarrow>
    distinct ps \<Longrightarrow>
    \<exists>out. collect_bundles TL acc ps = Inr out \<and> length out = length acc + length ps \<and>
      (\<forall>i<2 ^ 55. map_of out (of_nat i) =
         (if bundle_path TL es i \<in> set ps then Some (bundle_path TL es i) else map_of acc (of_nat i)))"
proof (induction ps arbitrary: acc)
  case (Cons p ps)
  from Cons.prems(1) [of p] obtain i where i: "i < 2 ^ 55" "p = bundle_path TL es i"
    and fresh: "map_of acc (of_nat i) = None" by auto
  obtain sfx q where b: "bundle_path TL es i = entriesPrefix @ sfx"
    "ParseTileIndexPartial TL sfx = Inr (of_nat i, q)" by (rule bundle_path_layout [OF lay i(1)])
  let ?acc = "(of_nat i, p) # acc"
  have "\<exists>j < 2 ^ 55. p' = bundle_path TL es j \<and> map_of ?acc (of_nat j) = None" if p': "p' \<in> set ps" for p'
  proof -
    from Cons.prems(1) [of p'] p' obtain j where j: "j < 2 ^ 55" "p' = bundle_path TL es j"
      "map_of acc (of_nat j) = None" by auto
    moreover have "j \<noteq> i" using Cons.prems(2) p' j(2) i(2) by auto
    ultimately show ?thesis using of_nat_64_inject [OF j(1) i(1)] by auto
  qed
  from Cons.IH [OF this] Cons.prems(2) obtain out where
    out: "collect_bundles TL ?acc ps = Inr out" "length out = length ?acc + length ps"
    "\<forall>j<2 ^ 55. map_of out (of_nat j) =
         (if bundle_path TL es j \<in> set ps then Some (bundle_path TL es j) else map_of ?acc (of_nat j))" by auto
  have "collect_bundles TL acc (p # ps) = collect_bundles TL ?acc ps"
    using bundle_path_line [OF lay i(1), of es] b fresh i(2)
    by (simp add: Let_def CutPrefix_append)
  moreover have "map_of out (of_nat j) = (if bundle_path TL es j \<in> set (p # ps)
      then Some (bundle_path TL es j) else map_of acc (of_nat j))" if "j < 2 ^ 55" for j
    using out(3) that of_nat_64_inject [OF that i(1)] bundle_path_inject [OF lay that i(1), of es es] i(2) by auto
  ultimately show ?case using out(1,2) by (intro exI [of _ out]) simp
qed simp

text \<open>The lines \<^verbatim>\<open>ls-tree\<close> printed, as \<^verbatim>\<open>readEntries\<close> splits them.\<close>

lemma Join_nonempty: "ls \<noteq> [] \<Longrightarrow> last ls \<noteq> [] \<Longrightarrow> Join ls sep \<noteq> []"
proof (induction ls)
  case (Cons l ls)
  then show ?case by (cases "ls = []") (auto simp: Join_Cons)
qed simp

lemma Join_last: "ls \<noteq> [] \<Longrightarrow> last ls \<noteq> [] \<Longrightarrow> last (Join ls sep) = last (last ls)"
proof (induction ls)
  case (Cons l ls)
  then show ?case by (cases "ls = []") (auto simp: Join_Cons Join_nonempty)
qed simp

lemma lines_of_output:
  assumes "\<And>p. p \<in> set ps \<Longrightarrow> p \<noteq> [] \<and> nl \<notin> set p \<and> \<not> is_space_edge (hd p) \<and> \<not> is_space_edge (last p)"
  shows "Split (TrimSpace (concat (map (\<lambda>p. p @ [nl]) ps))) nl = (if ps = [] then [[]] else ps)"
proof (cases "ps = []")
  case True
  then show ?thesis by (simp add: TrimSpace_fixed)
next
  case False
  have j: "concat (map (\<lambda>p. p @ [nl]) qs) = Join qs [nl] @ [nl]" if "qs \<noteq> []" for qs :: "string list"
    using that
  proof (induction qs)
    case (Cons q qs)
    then show ?case by (cases "qs = []") (simp_all add: Join_Cons)
  qed simp
  have l: "last ps \<noteq> []" "\<not> is_space_edge (last (last ps))" using assms False by auto
  have h: "hd (Join ps [nl]) = hd (hd ps) \<and> Join ps [nl] \<noteq> []"
    using assms False by (cases ps; cases "tl ps") (auto simp: Join_Cons hd_append2)
  moreover have "hd ps \<in> set ps" using False by simp
  ultimately have "TrimSpace (Join ps [nl] @ [nl]) = Join ps [nl]"
    using assms l False by (intro TrimSpace_newline) (auto simp: Join_last)
  with False show ?thesis using assms by (simp add: j Split_Join)
qed

lemma log_files:
  assumes "log_files_contract os dir db"
  shows
    "(\<exists>code out err. git_at os dir [''rev-parse'', ''--verify'', ''--quiet'', LogRef] None None w = (Exited code out err, w) \<and>
        (code = 0 \<longleftrightarrow> g_refs (db w) LogRef \<noteq> None))"
    "g_refs (db w) LogRef = Some c \<Longrightarrow> object_id c \<Longrightarrow> \<exists>err.
        git_at os dir [''rev-parse'', LogRef] None None w = (Exited 0 (c @ [nl]) err, w)"
    "log_tree (db w) = Some m \<Longrightarrow> m path = Some b \<Longrightarrow> g_blobs (db w) b = Some content \<Longrightarrow>
        \<exists>err. git_at os dir [''cat-file'', ''-p'', LogRef @ '':'' @ path] None None w = (Exited 0 content err, w)"
  using assms unfolding log_files_contract_def by meson+

lemma RefExists_LogRef:
  assumes "log_files_contract os dir db"
  shows "RefExists os dir LogRef w = (Inr (g_refs (db w) LogRef \<noteq> None), w)"
proof -
  from log_files(1) [OF assms, of w] obtain code out err where
    "git_at os dir [''rev-parse'', ''--verify'', ''--quiet'', LogRef] None None w = (Exited code out err, w)"
    "code = 0 \<longleftrightarrow> g_refs (db w) LogRef \<noteq> None" by blast
  then show ?thesis by (auto simp: RefExists_def etry_def Run_git_at)
qed

lemma ResolveRef_LogRef:
  assumes "log_files_contract os dir db" "g_refs (db w) LogRef = Some c" "object_id c"
  shows "ResolveRef os dir LogRef w = (Inr c, w)"
proof -
  from log_files(2) [OF assms] obtain err where
    "git_at os dir [''rev-parse'', LogRef] None None w = (Exited 0 (c @ [nl]) err, w)" by blast
  with assms(3) show ?thesis
    by (simp add: ResolveRef_def ebind_def ewrap_def Run_git_at TrimSpace_newline object_id_def)
qed

lemma CatFile_log:
  assumes "log_files_contract os dir db" "log_tree (db w) = Some m" "m path = Some b" "g_blobs (db w) b = Some content"
  shows "CatFile os dir (LogRef @ '':'' @ path) w = (Inr content, w)"
  using log_files(3) [OF assms] by (auto simp: CatFile_def Run_Inr)

lemma read_bundle_saved:
  assumes s: "log_files_contract os dir db" and b: "bundle_contract TL" and ok: "\<forall>e\<in>set es. entry_ok e"
    and t: "log_tree (db w) = Some (map_of blobs)" and sv: "saved TL (db w) es cp (nbundles es) blobs"
    and i: "i < nbundles es" "map_of bundles (of_nat i) = Some (bundle_path TL es i)"
  shows "read_bundle os TL dir bundles i w = (Inr (slice es i), w)"
proof -
  from sv i(1) obtain b' c where c: "map_of blobs (bundle_path TL es i) = Some b'"
    "marshalBundle (slice es i) = Inr c" "g_blobs (db w) b' = Some c" unfolding saved_def by blast
  have "CatFile os dir (LogRef @ '':'' @ bundle_path TL es i) w = (Inr c, w)"
    by (rule CatFile_log [OF s t c(1,3)])
  moreover have "EntryBundle_UnmarshalText TL c = Inr (map entry_raw (slice es i))"
    by (rule marshalBundle_roundtrip [OF b c(2)])
  moreover have "res_map ParseEntry (map entry_raw (slice es i)) = Inr (slice es i)"
    by (rule ParseEntry_raws) (use slice_ok [OF ok] in blast)
  ultimately show ?thesis unfolding read_bundle_def i(2) by (simp add: ebind_def ewrap_def)
qed

lemma emap_results:
  "(\<And>x. x \<in> set xs \<Longrightarrow> f x w = (Inr (g x), w)) \<Longrightarrow> emap f xs w = (Inr (map g xs), w)"
  by (induction xs) (auto simp: ebind_def)

text \<open>The bundles that a listing of the tree names.\<close>

lemma listed_bundles:
  assumes lay: "layout_contract TL" and g: "go_len es" and sv: "saved TL d es cp (nbundles es) blobs"
    and ps: "distinct ps" "set ps = {p. map_of blobs p \<noteq> None \<and> prefix entriesPrefix p}"
  obtains out where "collect_bundles TL [] (Split (TrimSpace (concat (map (\<lambda>p. p @ [nl]) ps))) nl) = Inr out"
    "length out = nbundles es" "\<forall>i<nbundles es. map_of out (of_nat i) = Some (bundle_path TL es i)"
proof -
  have k: "i < 2 ^ 55" if "i < nbundles es" for i using go_len_bundles [OF g that] .
  have "dom (map_of blobs) = insert checkpointPath (bundle_path TL es ` {..<nbundles es})"
    using sv unfolding saved_def by (elim conjE)
  then have mem: "map_of blobs p \<noteq> None \<longleftrightarrow> p = checkpointPath \<or> p \<in> bundle_path TL es ` {..<nbundles es}" for p
    unfolding dom_def by blast
  then have set: "set ps = bundle_path TL es ` {..<nbundles es}"
    unfolding ps(2) mem using checkpointPath_not_bundle bundle_path_line [OF lay k] by auto
  have inj: "inj_on (bundle_path TL es) {..<nbundles es}"
    using bundle_path_inject [OF lay k k] by (auto simp: inj_on_def)
  have len: "length ps = nbundles es"
    using distinct_card [OF ps(1)] card_image [OF inj] set by simp
  have split: "Split (TrimSpace (concat (map (\<lambda>p. p @ [nl]) ps))) nl = (if ps = [] then [[]] else ps)"
    by (rule lines_of_output) (use set bundle_path_line [OF lay k] in auto)
  have "\<exists>i<2 ^ 55. p = bundle_path TL es i \<and> map_of [] (of_nat i :: uint64) = None" if "p \<in> set ps" for p
    using that set k by auto
  from collect_bundles_paths [OF lay this ps(1)]
  have "\<exists>out. collect_bundles TL [] ps = Inr out \<and> length out = length ps \<and>
      (\<forall>i<2 ^ 55. map_of out (of_nat i) =
         (if bundle_path TL es i \<in> set ps then Some (bundle_path TL es i) else None))"
    by (simp only: map_of.simps list.size add_0)
  then obtain out where out: "collect_bundles TL [] ps = Inr out" "length out = nbundles es"
    "\<forall>i<nbundles es. map_of out (of_nat i) = Some (bundle_path TL es i)"
    using len set k by auto
  have "collect_bundles TL [] (if ps = [] then [[]] else ps) = Inr out"
    using out(1) by (auto simp: TrimSpace_fixed)
  then show ?thesis using out(2,3) by (intro that) (simp_all only: split)
qed

lemma readEntries_saved:
  assumes s: "log_files_contract os dir db" and ll: "log_listing_contract os dir db" and b: "bundle_contract TL"
    and lay: "layout_contract TL" and ok: "\<forall>e\<in>set es. entry_ok e" and g: "go_len es"
    and t: "log_tree (db w) = Some (map_of blobs)" and sv: "saved TL (db w) es cp (nbundles es) blobs"
  shows "readEntries os TL dir w = (Inr es, w)"
proof -
  from ll [unfolded log_listing_contract_def, rule_format, OF t] obtain ps err where
    ls: "git_at os dir [''ls-tree'', ''-r'', ''--name-only'', LogRef, entriesPrefix] None None w
          = (Exited 0 (concat (map (\<lambda>p. p @ [nl]) ps)) err, w)"
    and ps: "distinct ps" "set ps = {p. map_of blobs p \<noteq> None \<and> prefix entriesPrefix p}" by blast
  obtain out where c: "collect_bundles TL [] (Split (TrimSpace (concat (map (\<lambda>p. p @ [nl]) ps))) nl) = Inr out"
    and out: "length out = nbundles es" "\<forall>i<nbundles es. map_of out (of_nat i) = Some (bundle_path TL es i)"
    by (rule listed_bundles [OF lay g sv ps])
  have "emap (read_bundle os TL dir out) [0..<length out] w = (Inr (map (slice es) [0..<nbundles es]), w)"
    unfolding out(1) by (intro emap_results read_bundle_saved [OF s b ok t sv]) (use out(2) in auto)
  then show ?thesis
    using ls by (simp add: readEntries_def etry_def Run_git_at c ebind_def concat_slices)
qed

lemma Open_saved:
  assumes s: "log_files_contract os dir db" and ll: "log_listing_contract os dir db" and b: "bundle_contract TL" and lay: "layout_contract TL"
    and ok: "\<forall>e\<in>set es. entry_ok e" and g: "go_len es" and h: "holds_log TL (db w) es cp c"
  shows "Open os TL dir w = (Inr \<lparr>log_repoDir = dir, log_entries = es, log_checkpoint = cp, log_head = c\<rparr>, w)"
proof -
  from h obtain blobs where r: "g_refs (db w) LogRef = Some c" "object_id c"
    and t: "log_tree (db w) = Some (map_of blobs)" and sv: "saved TL (db w) es cp (nbundles es) blobs"
    by (auto simp: holds_log_def)
  from sv obtain bl where "map_of blobs checkpointPath = Some bl" "g_blobs (db w) bl = Some cp"
    by (auto simp: saved_def)
  from CatFile_log [OF s t this]
  have cp: "CatFile os dir (LogRef @ '':'' @ checkpointPath) w = (Inr cp, w)" .
  show ?thesis
    using RefExists_LogRef [OF s, of w] ResolveRef_LogRef [OF s r] cp readEntries_saved [OF s ll b lay ok g t sv] r
    by (simp add: Open_def Let_def ebind_def ewrap_def etry_def empty_log_def)
qed

lemma Open_absent:
  assumes "log_files_contract os dir db" "g_refs (db w) LogRef = None"
  shows "Open os TL dir w = (Inr (empty_log dir), w)"
  using RefExists_LogRef [OF assms(1), of w] assms(2) by (simp add: Open_def Let_def ebind_def)

end
