(* ===== verification/Ratchet_Commands.thy ===== *)
theory Ratchet_Commands
  imports Ratchet_Rules Ratchet_Cosign Log_Store
begin

section \<open>The commands on a repository\<close>

text \<open>
  \<^verbatim>\<open>logRefs\<close>, \<^verbatim>\<open>checkpointLog\<close> and \<^verbatim>\<open>checkpointedLog\<close> from the repository they find to the
  repository they leave, under the contracts of git and of the libraries gathered in
  \<open>repo_env\<close>.
\<close>

subsection \<open>The environment\<close>

definition repo_env ::
    "('w, 'rng, 'nodes) deps \<Rightarrow> string \<Rightarrow> ('w \<Rightarrow> git_db) \<Rightarrow> ('w \<Rightarrow> commit_graph) \<Rightarrow> ('w \<Rightarrow> string \<rightharpoonup> string) \<Rightarrow> bool" where
  "repo_env D dir db graph refs \<longleftrightarrow>
     git_objects (d_os D) dir db \<and> ancestry_contract (d_os D) dir graph \<and>
     rev_parse_contract (d_os D) dir refs \<and> map_order_contract (d_os D) \<and>
     layout_contract (d_tessera D) \<and> bundle_contract (d_tessera D) \<and>
     log_files_contract (d_os D) dir db \<and> log_listing_contract (d_os D) dir db"

lemma repo_envD:
  assumes "repo_env D dir db graph refs"
  shows "git_objects (d_os D) dir db" "ancestry_contract (d_os D) dir graph"
    "rev_parse_contract (d_os D) dir refs" "map_order_contract (d_os D)"
    "layout_contract (d_tessera D)" "bundle_contract (d_tessera D)"
    "log_files_contract (d_os D) dir db" "log_listing_contract (d_os D) dir db"
  using assms unfolding repo_env_def by blast+

text \<open>
  The log a repository holds: the entries, the stored checkpoint and the head commit; a
  repository without a log ref holds the empty log.
\<close>

definition repo_log :: "tessera_lib \<Rightarrow> git_db \<Rightarrow> entry list \<Rightarrow> string \<Rightarrow> string \<Rightarrow> bool" where
  "repo_log TL d es cp head \<longleftrightarrow>
     (\<forall>e\<in>set es. entry_ok e) \<and> go_len es \<and>
     (if head = [] then g_refs d LogRef = None \<and> es = [] \<and> cp = [] else holds_log TL d es cp head)"

definition the_log :: "string \<Rightarrow> entry list \<Rightarrow> string \<Rightarrow> string \<Rightarrow> glog" where
  "the_log dir es cp head = \<lparr>log_repoDir = dir, log_entries = es, log_checkpoint = cp, log_head = head\<rparr>"

lemma the_log_simps [simp]:
  "log_repoDir (the_log dir es cp h) = dir" "log_entries (the_log dir es cp h) = es"
  "log_checkpoint (the_log dir es cp h) = cp" "log_head (the_log dir es cp h) = h"
  "(the_log dir es cp h)\<lparr>log_entries := es'\<rparr> = the_log dir es' cp h"
  "(the_log dir es cp h)\<lparr>log_head := h', log_checkpoint := cp'\<rparr> = the_log dir es cp' h'"
  "Append (the_log dir es cp h) e = the_log dir (es @ [e]) cp h"
  "Size (the_log dir es cp h) = of_nat (length es)"
  "StoredCheckpoint (the_log dir es cp h) = cp"
  by (simp_all add: the_log_def Append_def Size_def StoredCheckpoint_def)

lemma Open_repo_log:
  assumes "repo_env D dir db graph refs" "repo_log (d_tessera D) (db w) es cp head"
  shows "Open (d_os D) (d_tessera D) dir w = (Inr (the_log dir es cp head), w)"
proof (cases "head = []")
  case True
  with Open_absent [OF repo_envD(7) [OF assms(1)], of w "d_tessera D"] assms(2) show ?thesis
    by (simp add: repo_log_def the_log_def empty_log_def)
next
  case False
  with assms(2) show ?thesis unfolding the_log_def
    by (intro Open_saved [where db = db] repo_envD [OF assms(1)]) (simp_all add: repo_log_def)
qed

lemma repo_log_head: "repo_log TL d es cp head \<Longrightarrow> g_refs d LogRef = (if head = [] then None else Some head)"
  by (auto simp: repo_log_def holds_log_def)

lemma Save_repo_log:
  assumes env: "git_objects (d_os D) dir db" "map_order_contract (d_os D)" "layout_contract (d_tessera D)" and ok: "\<forall>e\<in>set es. entry_ok e" "go_len es"
    and r: "Save (d_os D) (d_tessera D) (the_log dir es cp h) cp' msg w = (Inr l', w')"
  obtains c where "l' = the_log dir es cp' c" "repo_log (d_tessera D) (db w') es cp' c"
    "g_refs (db w) LogRef = (if h = [] then None else Some h)"
    "g_refs (db w') = (g_refs (db w))(LogRef \<mapsto> c)" "grows (db w) (db w')"
    "\<exists>t. g_commits (db w') c = Some (t, if h \<noteq> [] then [h] else [], msg)"
proof -
  have g: "go_len (log_entries (the_log dir es cp h))"
    and s: "git_objects (d_os D) (log_repoDir (the_log dir es cp h)) db"
    using ok(2) env(1) by simp_all
  from Save_success [OF s env(2,3) g r]
  obtain c where c: "l' = (the_log dir es cp h)\<lparr>log_head := c, log_checkpoint := cp'\<rparr>"
    "g_refs (db w) LogRef = (if h = [] then None else Some h)"
    "g_refs (db w') = (g_refs (db w))(LogRef \<mapsto> c)" "grows (db w) (db w')"
    "\<exists>t. g_commits (db w') c = Some (t, if h \<noteq> [] then [h] else [], msg)"
    "holds_log (d_tessera D) (db w') es cp' c" unfolding the_log_simps by blast
  then have "repo_log (d_tessera D) (db w') es cp' c"
    using ok by (auto simp: repo_log_def holds_log_def object_id_def)
  with c show ?thesis by (intro that) auto
qed

subsection \<open>Recording\<close>

text \<open>The recording step of \<^verbatim>\<open>logRefs\<close>, before anything is written.\<close>

lemma logRefs_opened:
  assumes c: "ancestry_contract (d_os D) dir graph" and r: "rev_parse_contract (d_os D) dir refs"
    and m: "map_order_contract (d_os D)"
    and op: "Open (d_os D) (d_tessera D) dir w = (Inr (the_log dir es cp head), w)"
  shows "\<exists>e. logRefs D dir rs w =
    (case log_each (d_os D) dir (the_log dir es cp head) [] rs w of
       (Inl e, _) \<Rightarrow> (Inl e, w)
     | (Inr (l', added), _) \<Rightarrow>
         if added = [] then (Inr (NothingToLog (of_nat (length es))), w)
         else if \<not> chains_ok (graph w) l' then (Inl e, w)
         else ebind (Save (d_os D) (d_tessera D) l' cp (''ratchet: log '' @ Join added '', ''))
                (\<lambda>l. ebind (elift (storedSize (d_log D) l)) (\<lambda>stored.
                   eret (Logged (length added) (Size l) (Size l - stored)))) w)"
proof -
  have o: "ebind (ewrap ''opening log: %w'' [] (Open (d_os D) (d_tessera D) dir)) f w
      = f (the_log dir es cp head) w" for f :: "glog \<Rightarrow> ('a, log_summary) io"
    by (intro ebind_Inr) (simp add: ewrap_Inr op)
  obtain res where le: "log_each (d_os D) dir (the_log dir es cp head) [] rs w = (res, w)"
    using pure_atD [OF log_each_pure [OF r]] by metis
  show ?thesis
  proof (cases res)
    case (Inl e)
    then show ?thesis unfolding logRefs_def o using le by (simp add: ebind_def Let_def)
  next
    case (Inr p)
    obtain l' added where p: "p = (l', added)" by force
    have st: "StoredCheckpoint l' = cp"
      using log_each_appends [OF r le [unfolded Inr p]] by (auto simp: StoredCheckpoint_def)
    obtain cr where cr: "checkLogChains (d_os D) dir l' w = (cr, w)"
      using pure_atD [OF checkLogChains_pure [OF c]] by metis
    have "cr = Inr () \<longleftrightarrow> chains_ok (graph w) l'"
      using cr checkLogChains_iff [OF c m, of l' w w] by auto
    then show ?thesis unfolding logRefs_def o using le Inr p st cr
      by (cases cr) (auto simp: ebind_def ewrap_def Let_def)
  qed
qed

lemmas logRefs_unfold = logRefs_opened [OF repo_envD(2) repo_envD(3) repo_envD(4) Open_repo_log]

text \<open>Which entries a run appended, and the ref's object each records.\<close>

definition records_of_refs :: "(string \<rightharpoonup> string) \<Rightarrow> string list \<Rightarrow> entry list \<Rightarrow> bool" where
  "records_of_refs refs rs new \<longleftrightarrow>
     (\<forall>e\<in>set new. entry_ok e \<and>
        (\<exists>ref\<in>set rs. \<exists>h. refs ref = Some h \<and> record_of e = Some \<lparr>rr_Ref = ref, rr_Object = h\<rparr>))"

lemma chains_ok_entries: "log_entries l = log_entries l' \<Longrightarrow> chains_ok G l = chains_ok G l'"
  by (simp add: chains_ok_def)

lemma up_to_date_entries: "log_entries l = log_entries l' \<Longrightarrow> up_to_date refs l r = up_to_date refs l' r"
  by (simp add: up_to_date_def RefRecords_Inr_iff)

lemma log_each_records:
  assumes r: "rev_parse_contract (d_os D) dir refs" and ok: "\<forall>e\<in>set es. entry_ok e" "length es + length rs < 2 ^ 63"
    and le: "log_each (d_os D) dir (the_log dir es cp head) [] rs w = (Inr (l', added), w1)"
    and ch: "chains_ok G l'"
  obtains new where "l' = the_log dir (es @ new) cp head" "length added = length new"
    "records_of_refs (refs w) rs new" "\<forall>e\<in>set (es @ new). entry_ok e" "go_len (es @ new)"
    "\<forall>r\<in>set rs. up_to_date (refs w) l' r"
proof -
  from log_each_appends [OF r le] obtain new where new: "l' = the_log dir (es @ new) cp head"
      "length added = length new" "length new \<le> length rs"
      "\<forall>e\<in>set new. \<exists>ref\<in>set rs. \<exists>h. refs w ref = Some h \<and> NewRefRecord ref h = Inr e" by auto
  from ch have dec: "\<forall>e\<in>set (log_entries l'). decodable e" by (simp add: chains_ok_def)
  then have "records_of_refs (refs w) rs new"
    using new(1,4) NewRefRecord_record unfolding records_of_refs_def by fastforce
  moreover from this ok(1) have "\<forall>e\<in>set (es @ new). entry_ok e" by (auto simp: records_of_refs_def)
  moreover have "go_len (es @ new)" using ok(2) new(3) by (simp add: go_len_def)
  moreover have "\<forall>x\<in>set rs. up_to_date (refs w) l' x"
    using log_each_up_to_date [OF r le dec] by blast
  ultimately show ?thesis using new by (intro that)
qed

lemma storedSize_the_log: "storedSize FL (the_log d es cp h) = storedSize FL (the_log d' es' cp h')"
  by (simp add: storedSize_def)

text \<open>
  What a run that saved has done: only the log ref moved, to a child of the old head that holds the old
  entries, then the new records \<open>new\<close> of the given refs, under the old checkpoint; every chain
  obeys the ratchet, and every given ref's last record is its current object.
\<close>

definition log_recorded ::
    "('w, 'rng, 'nodes) deps \<Rightarrow> string \<Rightarrow> ('w \<Rightarrow> git_db) \<Rightarrow> ('w \<Rightarrow> commit_graph) \<Rightarrow> ('w \<Rightarrow> string \<rightharpoonup> string) \<Rightarrow>
     string list \<Rightarrow> glog \<Rightarrow> 'w \<Rightarrow> entry list \<Rightarrow> 'w \<Rightarrow> bool" where
  "log_recorded D dir db graph refs rs l w new w' \<longleftrightarrow> (\<exists>c. let l' = the_log dir (log_entries l @ new) (log_checkpoint l) c in
     new \<noteq> [] \<and> records_of_refs (refs w) rs new \<and> chains_ok (graph w) l' \<and>
     repo_log (d_tessera D) (db w') (log_entries l @ new) (log_checkpoint l) c \<and>
     g_refs (db w') = (g_refs (db w))(LogRef \<mapsto> c) \<and> grows (db w) (db w') \<and>
     (\<exists>t msg. g_commits (db w') c = Some (t, if log_head l \<noteq> [] then [log_head l] else [], msg)) \<and>
     (\<forall>x\<in>set rs. up_to_date (refs w) l' x))"

lemma log_recordedI:
  assumes "new \<noteq> []" "records_of_refs (refs w) rs new" "chains_ok (graph w) (the_log dir (es @ new) cp c)"
    "repo_log (d_tessera D) (db w') (es @ new) cp c"
    "g_refs (db w') = (g_refs (db w))(LogRef \<mapsto> c)" "grows (db w) (db w')"
    "\<exists>t msg. g_commits (db w') c = Some (t, if head \<noteq> [] then [head] else [], msg)"
    "\<forall>x\<in>set rs. up_to_date (refs w) (the_log dir (es @ new) cp c) x"
  shows "log_recorded D dir db graph refs rs (the_log dir es cp head) w new w'"
  unfolding log_recorded_def Let_def the_log_simps by (rule exI [of _ c]) (intro conjI; fact)

lemma log_recordedE:
  assumes "log_recorded D dir db graph refs rs (the_log dir es cp head) w new w'"
  obtains c where "new \<noteq> []" "records_of_refs (refs w) rs new" "chains_ok (graph w) (the_log dir (es @ new) cp c)"
    "repo_log (d_tessera D) (db w') (es @ new) cp c"
    "g_refs (db w') = (g_refs (db w))(LogRef \<mapsto> c)" "grows (db w) (db w')"
    "\<exists>t msg. g_commits (db w') c = Some (t, if head \<noteq> [] then [head] else [], msg)"
    "\<forall>x\<in>set rs. up_to_date (refs w) (the_log dir (es @ new) cp c) x"
  using assms unfolding log_recorded_def Let_def the_log_simps by blast

lemma logRefs_saved:
  assumes rev: "rev_parse_contract (d_os D) dir refs"
    and g: "git_objects (d_os D) dir db" "map_order_contract (d_os D)" "layout_contract (d_tessera D)"
    and ok: "\<forall>e\<in>set es. entry_ok e" and len: "length es + length rs < 2 ^ 63"
    and le: "log_each (d_os D) dir (the_log dir es cp head) [] rs w = (Inr (l', added), w)"
    and ne: "added \<noteq> []" and ch: "chains_ok (graph w) l'"
    and sv: "Save (d_os D) (d_tessera D) l' cp msg w = (Inr l2, w')"
  obtains new c where "l2 = the_log dir (es @ new) cp c" "length added = length new"
    "log_recorded D dir db graph refs rs (the_log dir es cp head) w new w'"
proof -
  obtain new where new: "l' = the_log dir (es @ new) cp head" "length added = length new"
    "records_of_refs (refs w) rs new" "\<forall>e\<in>set (es @ new). entry_ok e" "go_len (es @ new)"
    "\<forall>r\<in>set rs. up_to_date (refs w) l' r"
    by (rule log_each_records [OF rev ok len le ch])
  obtain c where c: "l2 = the_log dir (es @ new) cp c" "repo_log (d_tessera D) (db w') (es @ new) cp c"
    "g_refs (db w') = (g_refs (db w))(LogRef \<mapsto> c)" "grows (db w) (db w')"
    "\<exists>t. g_commits (db w') c = Some (t, if head \<noteq> [] then [head] else [], msg)"
    by (rule Save_repo_log [OF g new(4,5) sv [unfolded new(1)]])
  have "new \<noteq> []" using ne new(2) by auto
  moreover have "chains_ok (graph w) (the_log dir (es @ new) cp c)"
    using ch new(1) chains_ok_entries [of l' "the_log dir (es @ new) cp c"] by simp
  moreover have "\<forall>x\<in>set rs. up_to_date (refs w) (the_log dir (es @ new) cp c) x"
    using new(1,6) up_to_date_entries [of l' "the_log dir (es @ new) cp c"] by simp
  moreover have "\<exists>t msg. g_commits (db w') c = Some (t, if head \<noteq> [] then [head] else [], msg)"
    using c(5) by blast
  ultimately have "log_recorded D dir db graph refs rs (the_log dir es cp head) w new w'"
    using c(2-4) new(3) by (intro log_recordedI)
  with c(1) new(2) show ?thesis by (rule that)
qed

lemma logRefs_opened_Logged:
  assumes anc: "ancestry_contract (d_os D) dir graph" and rev: "rev_parse_contract (d_os D) dir refs"
    and g: "git_objects (d_os D) dir db" "map_order_contract (d_os D)" "layout_contract (d_tessera D)"
    and op: "Open (d_os D) (d_tessera D) dir w = (Inr (the_log dir es cp head), w)" and ok: "\<forall>e\<in>set es. entry_ok e"
    and len: "length es + length rs < 2 ^ 63"
    and r: "logRefs D dir rs w = (Inr (Logged n sz pend), w')"
  obtains new c where "new \<noteq> []" "n = length new" "sz = of_nat (length (es @ new))"
    "records_of_refs (refs w) rs new" "chains_ok (graph w) (the_log dir (es @ new) cp c)"
    "repo_log (d_tessera D) (db w') (es @ new) cp c"
    "g_refs (db w') = (g_refs (db w))(LogRef \<mapsto> c)" "grows (db w) (db w')"
    "\<exists>t msg. g_commits (db w') c = Some (t, if head \<noteq> [] then [head] else [], msg)"
    "\<forall>x\<in>set rs. up_to_date (refs w) (the_log dir (es @ new) cp c) x"
    "\<exists>st. storedSize (d_log D) (the_log dir es cp head) = Inr st \<and> pend = sz - st"
proof -
  obtain res where le: "log_each (d_os D) dir (the_log dir es cp head) [] rs w = (res, w)"
    using pure_atD [OF log_each_pure [OF rev]] by metis
  from logRefs_opened [OF anc rev g(2) op, of rs] r le obtain l' added where res: "res = Inr (l', added)"
    and ne: "added \<noteq> []" and ch: "chains_ok (graph w) l'"
    and sv: "ebind (Save (d_os D) (d_tessera D) l' cp (''ratchet: log '' @ Join added '', ''))
                (\<lambda>l. ebind (elift (storedSize (d_log D) l)) (\<lambda>stored.
                   eret (Logged (length added) (Size l) (Size l - stored)))) w = (Inr (Logged n sz pend), w')"
    by (cases res) (auto split: if_splits)
  from sv obtain l2 where s: "Save (d_os D) (d_tessera D) l' cp (''ratchet: log '' @ Join added '', '') w = (Inr l2, w')"
    and out: "n = length added" "sz = Size l2" "\<exists>st. storedSize (d_log D) l2 = Inr st \<and> pend = sz - st"
    by (auto simp: ebind_Inr_iff)
  obtain new c0 where l2: "l2 = the_log dir (es @ new) cp c0" "length added = length new"
    and rec: "log_recorded D dir db graph refs rs (the_log dir es cp head) w new w'"
    by (rule logRefs_saved [where w = w and graph = graph, OF rev g ok len le [unfolded res] ne ch s])
  have st: "\<exists>st. storedSize (d_log D) (the_log dir es cp head) = Inr st \<and> pend = sz - st"
    using out(3) storedSize_the_log [of "d_log D" dir es cp head dir "es @ new" c0] l2(1) by simp
  have n: "n = length new" "sz = of_nat (length (es @ new))" using out(1,2) l2 by simp_all
  obtain c where c: "new \<noteq> []" "records_of_refs (refs w) rs new" "chains_ok (graph w) (the_log dir (es @ new) cp c)"
    "repo_log (d_tessera D) (db w') (es @ new) cp c"
    "g_refs (db w') = (g_refs (db w))(LogRef \<mapsto> c)" "grows (db w) (db w')"
    "\<exists>t msg. g_commits (db w') c = Some (t, if head \<noteq> [] then [head] else [], msg)"
    "\<forall>x\<in>set rs. up_to_date (refs w) (the_log dir (es @ new) cp c) x"
    by (rule log_recordedE [OF rec])
  show ?thesis by (rule that [OF c(1) n c(2-8) st])
qed

lemma logRefs_Logged:
  assumes env: "repo_env D dir db graph refs" and l: "repo_log (d_tessera D) (db w) es cp head"
    and len: "length es + length rs < 2 ^ 63" and r: "logRefs D dir rs w = (Inr (Logged n sz pend), w')"
  obtains new c where "new \<noteq> []" "n = length new" "sz = of_nat (length (es @ new))"
    "records_of_refs (refs w) rs new" "chains_ok (graph w) (the_log dir (es @ new) cp c)"
    "repo_log (d_tessera D) (db w') (es @ new) cp c"
    "g_refs (db w') = (g_refs (db w))(LogRef \<mapsto> c)" "grows (db w) (db w')"
    "\<exists>t msg. g_commits (db w') c = Some (t, if head \<noteq> [] then [head] else [], msg)"
    "\<forall>x\<in>set rs. up_to_date (refs w) (the_log dir (es @ new) cp c) x"
    "\<exists>st. storedSize (d_log D) (the_log dir es cp head) = Inr st \<and> pend = sz - st"
proof (rule logRefs_opened_Logged [OF repo_envD(2,3,1,4,5) [OF env] Open_repo_log [OF env l] _ len r])
  show "\<forall>e\<in>set es. entry_ok e" using l by (simp add: repo_log_def)
qed (rule that)

text \<open>A run that fails after it saved could not read the stored checkpoint, which is looked at last.\<close>

lemma logRefs_failed:
  assumes env: "repo_env D dir db graph refs" and l: "repo_log (d_tessera D) (db w) es cp head"
    and len: "length es + length rs < 2 ^ 63" and r: "logRefs D dir rs w = (Inl e, w')"
  shows "stays (db w) (db w') \<or> storedSize (d_log D) (the_log dir es cp head) = Inl e \<and>
    (\<exists>new. log_recorded D dir db graph refs rs (the_log dir es cp head) w new w')"
proof (rule disjCI)
  assume saved: "\<not> (storedSize (d_log D) (the_log dir es cp head) = Inl e \<and>
    (\<exists>new. log_recorded D dir db graph refs rs (the_log dir es cp head) w new w'))"
  have ok: "\<forall>e\<in>set es. entry_ok e" using l by (simp add: repo_log_def)
  obtain res where le: "log_each (d_os D) dir (the_log dir es cp head) [] rs w = (res, w)"
    using pure_atD [OF log_each_pure [OF repo_envD(3) [OF env]]] by metis
  show "stays (db w) (db w')"
  proof (rule ccontr)
    assume n: "\<not> stays (db w) (db w')"
    with logRefs_unfold [OF env env env env l, of rs] r le obtain l' added where res: "res = Inr (l', added)"
      and ne: "added \<noteq> []" and ch: "chains_ok (graph w) l'"
      and sv: "ebind (Save (d_os D) (d_tessera D) l' cp (''ratchet: log '' @ Join added '', ''))
                (\<lambda>l. ebind (elift (storedSize (d_log D) l)) (\<lambda>stored.
                   eret (Logged (length added) (Size l) (Size l - stored)))) w = (Inl e, w')"
      by (cases res) (auto split: if_splits)
    obtain new where new: "l' = the_log dir (es @ new) cp head"
      by (rule log_each_records [OF repo_envD(3) [OF env] ok len le [unfolded res] ch])
    have s: "git_objects (d_os D) (log_repoDir l') db" using repo_envD(1) [OF env] new by simp
    from sv [unfolded ebind_Inl_iff] consider
        "Save (d_os D) (d_tessera D) l' cp (''ratchet: log '' @ Join added '', '') w = (Inl e, w')"
      | l2 where "Save (d_os D) (d_tessera D) l' cp (''ratchet: log '' @ Join added '', '') w = (Inr l2, w')"
        "storedSize (d_log D) l2 = Inl e"
      by auto
    then show False
    proof cases
      case 1
      from Save_failure [OF s 1] n show False by simp
    next
      case 2
      obtain new c where "l2 = the_log dir (es @ new) cp c"
        and rec: "log_recorded D dir db graph refs rs (the_log dir es cp head) w new w'"
        by (rule logRefs_saved [where w = w and graph = graph, OF repo_envD(3,1,4,5) [OF env] ok len le [unfolded res] ne ch 2(1)])
      with 2(2) storedSize_the_log [of "d_log D" dir "es @ new" cp c dir es head] saved show False by auto
    qed
  qed
qed

lemma logRefs_failure:
  assumes env: "repo_env D dir db graph refs" and l: "repo_log (d_tessera D) (db w) es cp head"
    and st: "storedSize (d_log D) (the_log dir es cp head) = Inr stored"
    and len: "length es + length rs < 2 ^ 63"
    and r: "logRefs D dir rs w = (Inl e, w')"
  shows "stays (db w) (db w')"
  using logRefs_failed [OF env l len r] st by simp

lemma logRefs_nothing:
  assumes env: "repo_env D dir db graph refs" and l: "repo_log (d_tessera D) (db w) es cp head"
    and r: "logRefs D dir rs w = (Inr (NothingToLog n), w')"
  shows "w' = w \<and> n = of_nat (length es)"
proof -
  obtain res where le: "log_each (d_os D) dir (the_log dir es cp head) [] rs w = (res, w)"
    using pure_atD [OF log_each_pure [OF repo_envD(3) [OF env]]] by metis
  show ?thesis
  proof (rule ccontr)
    assume n: "\<not> (w' = w \<and> n = of_nat (length es))"
    with logRefs_unfold [OF env env env env l, of rs] r le obtain l' added where
      "ebind (Save (d_os D) (d_tessera D) l' cp (''ratchet: log '' @ Join added '', ''))
                (\<lambda>l. ebind (elift (storedSize (d_log D) l)) (\<lambda>stored.
                   eret (Logged (length added) (Size l) (Size l - stored)))) w = (Inr (NothingToLog n), w')"
      by (cases res) (auto split: if_splits)
    then show False by (auto simp: ebind_Inr_iff)
  qed
qed

lemma logRefs_idle:
  assumes env: "repo_env D dir db graph refs" and l: "repo_log (d_tessera D) (db w) es cp head"
    and u: "\<forall>x\<in>set rs. up_to_date (refs w) (the_log dir es cp head) x"
  shows "logRefs D dir rs w = (Inr (NothingToLog (of_nat (length es))), w)"
  using logRefs_unfold [OF env env env env l, of rs] log_each_idle [OF repo_envD(3) [OF env] u, of "[]"] by simp

text \<open>\<^verbatim>\<open>rev-parse\<close> of a branch or tag that exists prints what the ref points at.\<close>

definition refs_view :: "('w \<Rightarrow> git_db) \<Rightarrow> ('w \<Rightarrow> string \<rightharpoonup> string) \<Rightarrow> bool" where
  "refs_view db refs \<longleftrightarrow>
     (\<forall>w r k h. ParseRefKind r = Inr k \<longrightarrow> g_refs (db w) r = Some h \<longrightarrow> object_id h \<longrightarrow> refs w r = Some h)"

lemma LogRef_no_kind: "ParseRefKind r = Inr k \<Longrightarrow> r \<noteq> LogRef"
  by (auto simp: ParseRefKind_Inr_iff LogRef_def tags_prefix_def heads_prefix_def)

lemma up_to_date_refs: "refs r = refs' r \<Longrightarrow> up_to_date refs l r = up_to_date refs' l r"
  by (simp add: up_to_date_def)

lemma logRefs_again:
  assumes env: "repo_env D dir db graph refs" and view: "refs_view db refs"
    and l: "repo_log (d_tessera D) (db w) es cp head" and len: "length es + length rs < 2 ^ 63"
    and ex: "\<forall>x\<in>set rs. (\<exists>k. ParseRefKind x = Inr k) \<and> (\<exists>h. g_refs (db w) x = Some h \<and> object_id h)"
    and r: "logRefs D dir rs w = (Inr (Logged n sz pend), w')"
  shows "logRefs D dir rs w' = (Inr (NothingToLog sz), w')"
proof -
  obtain new c where sz: "sz = of_nat (length (es @ new))" and
    l': "repo_log (d_tessera D) (db w') (es @ new) cp c" and
    g: "g_refs (db w') = (g_refs (db w))(LogRef \<mapsto> c)" and
    u: "\<forall>x\<in>set rs. up_to_date (refs w) (the_log dir (es @ new) cp c) x"
    by (rule logRefs_Logged [OF env l len r])
  have "up_to_date (refs w') (the_log dir (es @ new) cp c) x" if x: "x \<in> set rs" for x
  proof -
    from ex x obtain k h where k: "ParseRefKind x = Inr k" "g_refs (db w) x = Some h" "object_id h" by blast
    with LogRef_no_kind [OF k(1)] g have "g_refs (db w') x = g_refs (db w) x" by simp
    with view k have "refs w' x = refs w x" unfolding refs_view_def by metis
    with u x up_to_date_refs [of "refs w'" x "refs w"] show ?thesis by simp
  qed
  then show ?thesis unfolding sz by (intro logRefs_idle [OF env l']) simp
qed

subsection \<open>Checkpointing\<close>

text \<open>Neither the witnesses nor the key service touch the repository.\<close>

definition network_contract :: "('w, 'rng, 'nodes) deps \<Rightarrow> ('w \<Rightarrow> git_db) \<Rightarrow> bool" where
  "network_contract D db \<longleftrightarrow>
     (\<forall>u from sn pf w. stays (db w) (db (snd (d_Update D u from sn pf w)))) \<and>
     (\<forall>r m crc w. keeps db (AsymmetricSign (d_crypto D) r m crc) w) \<and>
     (\<forall>body s w. keeps db (sumdb_Sign (d_formats D) body s) w)"

lemma signer_Sign_keeps: "network_contract D db \<Longrightarrow> keeps db (signer_Sign (d_crypto D) k m) w"
  unfolding signer_Sign_def kmsSigner_Sign_def Let_def
  by (cases k) (auto simp: network_contract_def intro!: keeps_intros split: pubkey.split option.split)

lemma SignTlogCheckpoint_keeps:
  "network_contract D db \<Longrightarrow> keeps db (SignTlogCheckpoint (d_crypto D) (d_formats D) FL body s) w"
  unfolding SignTlogCheckpoint_def Sign_def Let_def
  by (auto intro!: keeps_intros signer_Sign_keeps simp: network_contract_def)

lemma submit_stays: "network_contract D db \<Longrightarrow> stays (db w) (db (snd (submit D u l sn from w)))"
  by (cases "ConsistencyProofFrom (d_merkle D) l from") (simp_all add: submit_def network_contract_def)

lemma goroutine_step_stays:
  assumes "network_contract D db"
  shows "stays (db (cos_world st)) (db (cos_world (goroutine_step D ws l old sn i st)))"
proof -
  have s: "submit D u l sn fr w = (r, w') \<Longrightarrow> stays (db w) (db w')" for u fr w r w'
    using submit_stays [OF assms, of w u l sn fr] by simp
  show ?thesis
    by (cases "cos_procs st ! i"; cases "w_URL (ws ! i)")
       (auto simp: goroutine_step_def Let_def dest!: s split: prod.splits option.splits)
qed

lemma collectCosignatures_keeps:
  assumes "network_contract D db"
  shows "keeps db (collectCosignatures D sched pol l old sn) w"
proof -
  have "stays (db (cos_world st)) (db (cos_world (fold (goroutine_step D ws l old sn) is' st)))" for ws is' st
    by (induction is' arbitrary: st) (auto intro: stays_trans goroutine_step_stays [OF assms])
  moreover have "cos_world (cosigning_start (pol_Witnesses pol) w) = w" by (simp add: cosigning_start_def)
  ultimately show ?thesis
    unfolding keeps_def collectCosignatures_def Let_def cosign_run_def snd_conv by metis
qed

lemma logToCheckpoint_iff:
  assumes env: "repo_env D dir db graph refs" and l: "repo_log (d_tessera D) (db w) es cp head"
  shows "logToCheckpoint D dir w = (Inr (l', old), w') \<longleftrightarrow>
     w' = w \<and> l' = the_log dir es cp head \<and> es \<noteq> [] \<and> chains_ok (graph w) l' \<and>
     storedSize (d_log D) l' = Inr old"
proof -
  have g: "go_len es" using l by (simp add: repo_log_def)
  have z: "(of_nat (length es) :: uint64) = 0 \<longleftrightarrow> es = []"
    unfolding unat_0_iff [symmetric] go_len_unat [OF g] by simp
  show ?thesis
    using Open_repo_log [OF env l]
    by (auto simp: logToCheckpoint_def ebind_Inr_iff ewrap_Inr z
        checkLogChains_iff [OF repo_envD(2,4) [OF env]] split: if_splits)
qed

lemma logToCheckpoint_pure:
  assumes env: "repo_env D dir db graph refs" and l: "repo_log (d_tessera D) (db w) es cp head"
  shows "pure_at (logToCheckpoint D dir) w"
proof -
  have "pure_at (Open (d_os D) (d_tessera D) dir) w"
    using Open_repo_log [OF env l] by (simp add: pure_at_def)
  moreover have "pure_at (checkLogChains (d_os D) dir l') w" for l'
    by (rule checkLogChains_pure [OF repo_envD(2) [OF env]])
  ultimately show ?thesis
    unfolding logToCheckpoint_def by (auto intro!: pure_intros)
qed

text \<open>What \<^verbatim>\<open>checkpointLog\<close> has established when it returns.\<close>

lemma checkpointLog_success:
  assumes env: "repo_env D dir db graph refs" and l: "repo_log (d_tessera D) (db w) es cp head"
    and net: "network_contract D db"
    and r: "checkpointLog D sched dir origin signer pol w = (Inr (n, k), w')"
  obtains root signedNote w1 lines w2 old c where
    "es \<noteq> []" "n = of_nat (length es)" "k = length lines"
    "chains_ok (graph w) (the_log dir es cp head)"
    "storedSize (d_log D) (the_log dir es cp head) = Inr old"
    "LogRoot (d_merkle D) (the_log dir es cp head) = Inr root"
    "SignTlogCheckpoint (d_crypto D) (d_formats D) (d_log D)
       (checkpoint_Marshal (d_log D) (NewCheckpoint origin (of_nat (length es)) root)) signer w = (Inr signedNote, w1)"
    "collectCosignatures D sched pol (the_log dir es cp head) old signedNote w1 = (Inr lines, w2)"
    "pol_Satisfied pol (foldl AppendSignature signedNote lines)"
    "repo_log (d_tessera D) (db w') es (foldl AppendSignature signedNote lines) c"
    "g_refs (db w') = (g_refs (db w))(LogRef \<mapsto> c)" "grows (db w) (db w')"
proof -
  let ?l = "the_log dir es cp head"
  from r [unfolded checkpointLog_def ebind_Inr_iff] obtain l' old w0 where
    "logToCheckpoint D dir w = (Inr (l', old), w0)" and r1:
    "ebind (elift (LogRoot (d_merkle D) l')) (\<lambda>root.
     let cp = NewCheckpoint origin (Size l') root in
     ebind (ewrap ''signing checkpoint: %w'' []
              (SignTlogCheckpoint (d_crypto D) (d_formats D) (d_log D)
                 (checkpoint_Marshal (d_log D) cp) signer)) (\<lambda>signedNote.
     ebind (collectCosignatures D sched pol l' old signedNote) (\<lambda>cosigLines.
     let assembled = foldl AppendSignature signedNote cosigLines in
       if \<not> pol_Satisfied pol assembled then
         efail (Errorf ''quorum %q not satisfied by %d cosignatures''
                  [FStr (pol_Quorum pol), FNat (length cosigLines)])
       else
         ebind (Save (d_os D) (d_tessera D) l' assembled (checkpointMessage l')) (\<lambda>l.
           eret (Size l, length cosigLines))))) w0 = (Inr (n, k), w')"
    by (auto simp del: ebind_Inr_iff)
  then have h: "w0 = w" "l' = ?l" "es \<noteq> []" "chains_ok (graph w) ?l" "storedSize (d_log D) ?l = Inr old"
    unfolding logToCheckpoint_iff [OF env l] by auto
  from r1 [unfolded h(1,2)] obtain root signedNote w1 lines w2 l2 where
    root: "LogRoot (d_merkle D) ?l = Inr root" and
    sg: "SignTlogCheckpoint (d_crypto D) (d_formats D) (d_log D)
       (checkpoint_Marshal (d_log D) (NewCheckpoint origin (of_nat (length es)) root)) signer w = (Inr signedNote, w1)" and
    co: "collectCosignatures D sched pol ?l old signedNote w1 = (Inr lines, w2)" and
    q: "pol_Satisfied pol (foldl AppendSignature signedNote lines)" and
    sv: "Save (d_os D) (d_tessera D) ?l (foldl AppendSignature signedNote lines) (checkpointMessage ?l) w2 = (Inr l2, w')"
    and nk: "n = Size l2" "k = length lines"
    by (auto simp: ebind_Inr_iff ewrap_Inr Let_def split: if_splits)
  have ok: "\<forall>e\<in>set es. entry_ok e" "go_len es" using l by (auto simp: repo_log_def)
  from Save_repo_log [OF repo_envD(1,4,5) [OF env] ok sv] obtain c where c: "l2 = the_log dir es (foldl AppendSignature signedNote lines) c"
    "repo_log (d_tessera D) (db w') es (foldl AppendSignature signedNote lines) c"
    "g_refs (db w') = (g_refs (db w2))(LogRef \<mapsto> c)" "grows (db w2) (db w')" by blast
  have "stays (db w) (db w2)"
    using keepsD [OF SignTlogCheckpoint_keeps [OF net] sg] keepsD [OF collectCosignatures_keeps [OF net] co]
    by (rule stays_trans)
  then have "g_refs (db w2) = g_refs (db w)" "grows (db w) (db w2)" by (simp_all add: stays_def)
  with c have "g_refs (db w') = (g_refs (db w))(LogRef \<mapsto> c)" "grows (db w) (db w')"
    by (auto intro: grows_trans)
  with c nk show ?thesis by (intro that [OF h(3) _ _ h(4,5) root sg co q c(2)]) simp_all
qed

lemma checkpointLog_failure:
  assumes env: "repo_env D dir db graph refs" and l: "repo_log (d_tessera D) (db w) es cp head"
    and net: "network_contract D db"
    and r: "checkpointLog D sched dir origin signer pol w = (Inl e, w')"
  shows "stays (db w) (db w')"
proof (cases "logToCheckpoint D dir w")
  case (Pair res w0)
  have w0: "w0 = w" using pure_at_result [OF logToCheckpoint_pure [OF env l] Pair] .
  show ?thesis
  proof (cases res)
    case (Inl e')
    with r Pair w0 show ?thesis by (simp add: checkpointLog_def ebind_def)
  next
    case (Inr p)
    obtain l' old where p: "p = (l', old)" by force
    from Pair Inr p w0 have l': "l' = the_log dir es cp head" using logToCheckpoint_iff [OF env l] by auto
    have "git_objects (d_os D) (log_repoDir l') db" using repo_envD(1) [OF env] l' by simp
    note sv = Save_failure [OF this]
    have k: "keeps db (SignTlogCheckpoint (d_crypto D) (d_formats D) (d_log D) b signer) w"
      "keeps db (collectCosignatures D sched pol l' old sn) w1" for b sn w1
      by (rule SignTlogCheckpoint_keeps [OF net], rule collectCosignatures_keeps [OF net])
    from r Pair Inr p w0 show ?thesis
      by (auto simp: checkpointLog_def ebind_Inl_iff ewrap_Inr ewrap_Inl Let_def
          dest!: keepsD [OF k(1)] keepsD [OF k(2)] sv intro: stays_trans split: if_splits)
  qed
qed

subsection \<open>The checkpointed part\<close>

lemma checkpointedLog_Inr_iff:
  assumes env: "repo_env D dir db graph refs" and l: "repo_log (d_tessera D) (db w) es cp head"
  shows "checkpointedLog D dir pol w = (Inr t, w') \<longleftrightarrow>
    w' = w \<and> cp \<noteq> [] \<and> pol_Verify pol cp = Inr () \<and>
    (\<exists>body c root. ExtractBody cp = Inr body \<and> ParseCheckpoint (d_log D) body = Inr (c, root) \<and>
       Checkpointed (d_merkle D) (the_log dir es cp head) c = Inr t)"
  using Open_repo_log [OF env l]
  by (auto simp: checkpointedLog_def ebind_Inr_iff ewrap_Inr Let_def)

lemma checkpointedLog_pure:
  assumes env: "repo_env D dir db graph refs" and l: "repo_log (d_tessera D) (db w) es cp head"
  shows "pure_at (checkpointedLog D dir pol) w"
proof -
  have "pure_at (Open (d_os D) (d_tessera D) dir) w"
    using Open_repo_log [OF env l] by (simp add: pure_at_def)
  then show ?thesis unfolding checkpointedLog_def by (auto intro!: pure_intros simp: Let_def)
qed

end
