(* ===== verification/Example_Repository.thy ===== *)
theory Example_Repository
  imports Example_Libraries Ratchet_Commands
begin

section \<open>An example repository\<close>

text \<open>
  A small git, on association lists, that satisfies the contracts of \<open>repo_env\<close> for every
  state: the hypotheses about git can hold together. Object names are a letter and a number.
\<close>

record ex_world =
  x_refs :: "(string \<times> string) list"
  x_blobs :: "(string \<times> string) list"
  x_trees :: "(string \<times> (string \<times> string) list) list"
  x_commits :: "(string \<times> string \<times> string list \<times> string) list"
  x_index :: "(string \<times> (string \<times> string) list) list"
  x_next :: nat

definition x_index_at :: "ex_world \<Rightarrow> string \<Rightarrow> (string \<times> string) list" where
  "x_index_at w f = (case map_of (x_index w) f of Some t \<Rightarrow> t | None \<Rightarrow> [])"

definition ex_db :: "ex_world \<Rightarrow> git_db" where
  "ex_db w =
     \<lparr>g_refs = map_of (x_refs w), g_blobs = map_of (x_blobs w),
      g_trees = (\<lambda>t. map_option map_of (map_of (x_trees w) t)), g_commits = map_of (x_commits w),
      g_index = (\<lambda>f. map_of (x_index_at w f))\<rparr>"

definition ex_graph :: "ex_world \<Rightarrow> commit_graph" where
  "ex_graph w =
     \<lparr>peel = (\<lambda>h. if map_of (x_commits w) h = None then None else Some h),
      parents = (\<lambda>c. case map_of (x_commits w) c of Some (t, ps, m) \<Rightarrow> ps | None \<Rightarrow> [])\<rparr>"

definition ex_refs :: "ex_world \<Rightarrow> string \<rightharpoonup> string" where
  "ex_refs w r = (case map_of (x_refs w) r of Some h \<Rightarrow> if object_id h then Some h else None | None \<Rightarrow> None)"

definition failed :: "ex_world \<Rightarrow> exec_result \<times> ex_world" where
  "failed w = (Exited 128 [] ''fatal'', w)"

definition printed :: "string \<Rightarrow> ex_world \<Rightarrow> exec_result \<times> ex_world" where
  "printed out w = (Exited 0 out [], w)"

definition ex_hash_object :: "string option \<Rightarrow> ex_world \<Rightarrow> exec_result \<times> ex_world" where
  "ex_hash_object inp w =
     (let b = ''b'' @ decimal (x_next w) in
      if map_of (x_blobs w) b \<noteq> None then failed w
      else printed (b @ [nl]) (w\<lparr>x_blobs := (b, case inp of Some c \<Rightarrow> c | None \<Rightarrow> []) # x_blobs w,
                                 x_next := Suc (x_next w)\<rparr>))"

definition index_file_of :: "string list option \<Rightarrow> string option" where
  "index_file_of env =
     (case env of Some e \<Rightarrow> (if e = [] then None else CutPrefix (last e) ''GIT_INDEX_FILE='') | None \<Rightarrow> None)"

definition ex_update_index :: "string \<Rightarrow> string list option \<Rightarrow> ex_world \<Rightarrow> exec_result \<times> ex_world" where
  "ex_update_index s env w =
     (case (index_file_of env, CutPrefix s ''100644,'') of
        (Some f, Some bp) \<Rightarrow>
          (let (blob, path, found) = Cut bp '','' in
           if found then printed [] (w\<lparr>x_index := (f, (path, blob) # x_index_at w f) # x_index w\<rparr>) else failed w)
      | _ \<Rightarrow> failed w)"

definition ex_write_tree :: "string list option \<Rightarrow> ex_world \<Rightarrow> exec_result \<times> ex_world" where
  "ex_write_tree env w =
     (case index_file_of env of
        None \<Rightarrow> failed w
      | Some f \<Rightarrow>
          let t = ''t'' @ decimal (x_next w) in
          if map_of (x_trees w) t \<noteq> None then failed w
          else printed (t @ [nl]) (w\<lparr>x_trees := (t, x_index_at w f) # x_trees w, x_next := Suc (x_next w)\<rparr>))"

definition ex_commit_tree :: "string \<Rightarrow> string list \<Rightarrow> string \<Rightarrow> ex_world \<Rightarrow> exec_result \<times> ex_world" where
  "ex_commit_tree tree ps message w =
     (let c = ''c'' @ decimal (x_next w) in
      if map_of (x_commits w) c \<noteq> None then failed w
      else printed (c @ [nl]) (w\<lparr>x_commits := (c, tree, ps, message) # x_commits w, x_next := Suc (x_next w)\<rparr>))"

definition ex_update_ref :: "string \<Rightarrow> string \<Rightarrow> string \<Rightarrow> ex_world \<Rightarrow> exec_result \<times> ex_world" where
  "ex_update_ref ref new old w =
     (if map_of (x_refs w) ref = (if old = [] then None else Some old)
      then printed [] (w\<lparr>x_refs := (ref, new) # x_refs w\<rparr>) else failed w)"

definition ex_rev_parse :: "string \<Rightarrow> ex_world \<Rightarrow> exec_result \<times> ex_world" where
  "ex_rev_parse name w = (case ex_refs w name of Some h \<Rightarrow> printed (h @ [nl]) w | None \<Rightarrow> failed w)"

definition ex_tree :: "ex_world \<Rightarrow> (string \<times> string) list option" where
  "ex_tree w =
     (case map_of (x_refs w) LogRef of None \<Rightarrow> None
      | Some c \<Rightarrow> (case map_of (x_commits w) c of None \<Rightarrow> None | Some (t, _, _) \<Rightarrow> map_of (x_trees w) t))"

definition ex_cat_file :: "string \<Rightarrow> ex_world \<Rightarrow> exec_result \<times> ex_world" where
  "ex_cat_file obj w =
     (case (CutPrefix obj (LogRef @ '':''), ex_tree w) of
        (Some path, Some m) \<Rightarrow>
          (case map_of m path of None \<Rightarrow> failed w
           | Some b \<Rightarrow> (case map_of (x_blobs w) b of Some content \<Rightarrow> printed content w | None \<Rightarrow> failed w))
      | _ \<Rightarrow> failed w)"

definition ex_ls_tree :: "string \<Rightarrow> ex_world \<Rightarrow> exec_result \<times> ex_world" where
  "ex_ls_tree pre w =
     (case ex_tree w of None \<Rightarrow> failed w
      | Some m \<Rightarrow>
          printed (concat (map (\<lambda>p. p @ [nl]) (filter (\<lambda>p. HasPrefix p pre) (remdups (map fst m))))) w)"

definition ex_merge_base :: "string \<Rightarrow> string \<Rightarrow> ex_world \<Rightarrow> exec_result \<times> ex_world" where
  "ex_merge_base a d w =
     (if is_ancestor (ex_graph w) a d then printed [] w
      else if peel (ex_graph w) a \<noteq> None \<and> peel (ex_graph w) d \<noteq> None then (Exited 1 [] [], w)
      else failed w)"

text \<open>Reachability in the example is a search bounded by the number of parent edges.\<close>

primrec within :: "nat \<Rightarrow> ('a \<Rightarrow> 'a list) \<Rightarrow> 'a \<Rightarrow> 'a \<Rightarrow> bool" where
  "within 0 f d a \<longleftrightarrow> d = a"
| "within (Suc n) f d a \<longleftrightarrow> d = a \<or> (\<exists>p\<in>set (f d). within n f p a)"

lemma within_reaches: "within n f d a \<Longrightarrow> (\<lambda>c p. p \<in> set (f c))\<^sup>*\<^sup>* d a"
proof (induction n arbitrary: d)
  case (Suc n)
  then show ?case by (auto intro: converse_rtranclp_into_rtranclp)
qed simp

lemma relpow_within: "((\<lambda>c p. p \<in> set (f c)) ^^ n) d a \<Longrightarrow> n \<le> m \<Longrightarrow> within m f d a"
proof (induction m arbitrary: n d)
  case (Suc m)
  show ?case
  proof (cases n)
    case (Suc k)
    with Suc.prems(1) obtain p where "p \<in> set (f d)" "((\<lambda>c p. p \<in> set (f c)) ^^ k) p a"
      using relpowp_Suc_D2 by metis
    with Suc.IH [of k p] Suc.prems(2) Suc show ?thesis by auto
  qed (use Suc.prems(1) in simp)
qed simp

definition edge_count :: "ex_world \<Rightarrow> nat" where
  "edge_count w = sum_list (map (\<lambda>(c, t, ps, m). length ps) (x_commits w))"

lemma reaches_code: "reaches (ex_graph w) d a \<longleftrightarrow> within (edge_count w) (parents (ex_graph w)) d a"
proof
  let ?R = "{(c, p). p \<in> set (parents (ex_graph w) c)}"
  let ?E = "concat (map (\<lambda>(c, t, ps, m). map (Pair c) ps) (x_commits w))"
  have sub: "?R \<subseteq> set ?E"
  proof
    fix e assume "e \<in> ?R"
    then obtain c p where e: "e = (c, p)" "p \<in> set (parents (ex_graph w) c)" by blast
    then obtain t ps m where "map_of (x_commits w) c = Some (t, ps, m)" "p \<in> set ps"
      by (cases "map_of (x_commits w) c") (auto simp: ex_graph_def)
    then have "(c, t, ps, m) \<in> set (x_commits w)" "p \<in> set ps" by (auto dest: map_of_SomeD)
    then show "e \<in> set ?E" unfolding e by force
  qed
  have fin: "finite ?R" by (rule finite_subset [OF sub List.finite_set])
  have "card ?R \<le> length ?E"
    by (rule order_trans [OF card_mono [OF List.finite_set sub] card_length])
  also have "length ?E = edge_count w"
    by (simp add: edge_count_def length_concat comp_def case_prod_unfold)
  finally have le: "card ?R \<le> edge_count w" .
  assume "reaches (ex_graph w) d a"
  then have "(d, a) \<in> ?R\<^sup>*" by (simp add: reaches_def Enum.rtranclp_rtrancl_eq)
  then obtain n where "n \<le> card ?R" "(d, a) \<in> ?R ^^ n" unfolding rtrancl_finite_eq_relpow [OF fin] by blast
  moreover from this have "((\<lambda>c p. (c, p) \<in> ?R) ^^ n) d a" by (simp only: relpowp_relpow_eq)
  ultimately show "within (edge_count w) (parents (ex_graph w)) d a"
    using le by (intro relpow_within [of n]) simp_all
qed (simp add: reaches_def within_reaches)

lemma ex_merge_base_code [code]:
  "ex_merge_base a d w =
     (case (peel (ex_graph w) a, peel (ex_graph w) d) of
        (Some x, Some y) \<Rightarrow>
          if within (edge_count w) (parents (ex_graph w)) y x then printed [] w else (Exited 1 [] [], w)
      | _ \<Rightarrow> failed w)"
  by (simp add: ex_merge_base_def is_ancestor_def reaches_code split: option.split)

definition ex_git :: "string list \<Rightarrow> string list option \<Rightarrow> string option \<Rightarrow> ex_world \<Rightarrow> exec_result \<times> ex_world" where
  "ex_git args env inp w =
     (case args of
        [] \<Rightarrow> failed w
      | cmd # rest \<Rightarrow>
          if cmd = ''hash-object'' then ex_hash_object inp w
          else if cmd = ''update-index'' then
            (case rest of [_, _, s] \<Rightarrow> ex_update_index s env w | _ \<Rightarrow> failed w)
          else if cmd = ''write-tree'' then ex_write_tree env w
          else if cmd = ''commit-tree'' then
            (case rest of [tree, _, message] \<Rightarrow> ex_commit_tree tree [] message w
             | [tree, _, parent, _, message] \<Rightarrow> ex_commit_tree tree [parent] message w
             | _ \<Rightarrow> failed w)
          else if cmd = ''update-ref'' then
            (case rest of [ref, new, old] \<Rightarrow> ex_update_ref ref new old w | _ \<Rightarrow> failed w)
          else if cmd = ''rev-parse'' then
            (case rest of [name] \<Rightarrow> ex_rev_parse name w
             | [_, _, name] \<Rightarrow> (if map_of (x_refs w) name \<noteq> None then printed [] w else failed w)
             | _ \<Rightarrow> failed w)
          else if cmd = ''cat-file'' then (case rest of [_, obj] \<Rightarrow> ex_cat_file obj w | _ \<Rightarrow> failed w)
          else if cmd = ''ls-tree'' then (case rest of [_, _, _, pre] \<Rightarrow> ex_ls_tree pre w | _ \<Rightarrow> failed w)
          else if cmd = ''merge-base'' then (case rest of [_, a, d] \<Rightarrow> ex_merge_base a d w | _ \<Rightarrow> failed w)
          else failed w)"

definition ex_os :: "ex_world os" where
  "ex_os =
     \<lparr>exec_command = (\<lambda>name argv env inp w. ex_git (drop 3 argv) env inp w), Environ = [],
      MkdirTemp = (\<lambda>a b w. (Inr ''/tmp/index'', w\<lparr>x_index := []\<rparr>)), RemoveAll = (\<lambda>d w. w),
      filepath_Join = (\<lambda>a b. a @ ''/'' @ b), map_keys_order = (\<lambda>ks. ks)\<rparr>"

lemma ex_os_git: "git_at ex_os dir args env inp w = ex_git args env inp w"
  by (simp add: git_at_def ex_os_def git_argv_def)

lemma ex_os_exec: "exec_command ex_os name (git_argv dir args) env inp w = ex_git args env inp w"
  by (simp add: ex_os_def git_argv_def)

lemmas ex_outcomes = failed_def printed_def

lemma ex_git_commands:
  "ex_git (''hash-object'' # rest) env inp w = ex_hash_object inp w"
  "ex_git [''update-index'', x, y, s] env inp w = ex_update_index s env w"
  "ex_git (''write-tree'' # rest) env inp w = ex_write_tree env w"
  "ex_git [''commit-tree'', tree, x, message] env inp w = ex_commit_tree tree [] message w"
  "ex_git [''commit-tree'', tree, x, parent, y, message] env inp w = ex_commit_tree tree [parent] message w"
  "ex_git [''update-ref'', ref, new, old] env inp w = ex_update_ref ref new old w"
  "ex_git [''rev-parse'', name] env inp w = ex_rev_parse name w"
  "ex_git [''rev-parse'', x, y, name] env inp w = (if map_of (x_refs w) name \<noteq> None then printed [] w else failed w)"
  "ex_git [''cat-file'', x, obj] env inp w = ex_cat_file obj w"
  "ex_git [''ls-tree'', x, y, z, pre] env inp w = ex_ls_tree pre w"
  "ex_git [''merge-base'', x, a, d] env inp w = ex_merge_base a d w"
  by (simp_all add: ex_git_def)

lemma ex_git_other:
  "ex_git (''update-index'' # rest) env inp w = failed w \<or> (\<exists>s. ex_git (''update-index'' # rest) env inp w = ex_update_index s env w)"
  "ex_git (''commit-tree'' # rest) env inp w = failed w \<or>
     (\<exists>t ps m. ex_git (''commit-tree'' # rest) env inp w = ex_commit_tree t ps m w)"
  by (auto simp: ex_git_def split: list.split)

lemma ex_stays:
  "stays (ex_db w) (ex_db (snd (failed w)))"
  "stays (ex_db w) (ex_db (snd (ex_hash_object inp w)))"
  "stays (ex_db w) (ex_db (snd (ex_update_index s env w)))"
  "stays (ex_db w) (ex_db (snd (ex_write_tree env w)))"
  "stays (ex_db w) (ex_db (snd (ex_commit_tree t ps m w)))"
  by (auto simp: ex_outcomes ex_hash_object_def ex_update_index_def ex_write_tree_def ex_commit_tree_def Let_def
      stays_def grows_def ex_db_def map_le_def split: option.split prod.split)

lemma ex_objects: "objects_contract ex_os dir ex_db"
  unfolding objects_contract_def ex_os_git writes_object_def
proof (intro allI impI)
  fix args env inp w
  assume "args \<noteq> [] \<and> hd args \<in> {''hash-object'', ''update-index'', ''write-tree'', ''commit-tree''}"
  then obtain rest where "args = ''hash-object'' # rest \<or> args = ''update-index'' # rest \<or>
      args = ''write-tree'' # rest \<or> args = ''commit-tree'' # rest"
    by (cases args) auto
  then show "stays (ex_db w) (ex_db (snd (ex_git args env inp w)))"
  proof (elim disjE)
    assume "args = ''update-index'' # rest"
    then show ?thesis using ex_git_other(1) [of rest env inp w] ex_stays by auto
  next
    assume "args = ''commit-tree'' # rest"
    then show ?thesis using ex_git_other(2) [of rest env inp w] ex_stays by auto
  qed (simp_all add: ex_git_commands ex_stays)
qed

lemma ex_object_id: "object_id (c # decimal n) \<longleftrightarrow> \<not> is_space_edge c"
proof -
  have "last (decimal n) \<in> set (decimal n)" by simp
  then have "\<not> is_space_edge (last (decimal n))" using decimal_digits digit_not by blast
  then show ?thesis by (simp add: object_id_def)
qed

lemma ex_letters [simp]: "\<not> is_space_edge (CHR ''b'')" "\<not> is_space_edge (CHR ''t'')" "\<not> is_space_edge (CHR ''c'')"
  by (simp_all add: space_edge_char)

lemma ex_comma: "CHR '','' \<notin> set (decimal n)"
  using decimal_digits [of "CHR '',''" n] by (auto simp: is_digit_def)

lemma ex_hash_object_ok: "hash_object_contract ex_os dir ex_db"
  unfolding hash_object_contract_def ex_os_git ex_git_commands
  by (auto simp: ex_hash_object_def ex_outcomes Let_def ex_db_def ex_object_id ex_comma split: if_splits)

lemma ex_index_file: "index_file_of (Some (env @ [''GIT_INDEX_FILE='' @ f])) = Some f"
  unfolding index_file_of_def by (simp add: CutPrefix_def)

lemma ex_update_index_ok: "update_index_contract ex_os dir ex_db"
  unfolding update_index_contract_def ex_os_git ex_git_commands
proof (intro allI impI)
  fix env :: "string list" and f blob path out err and w w' :: ex_world
  assume c: "CHR '','' \<notin> set blob"
    and r: "ex_update_index (cacheinfo blob path) (Some (env @ [''GIT_INDEX_FILE='' @ f])) w = (Exited 0 out err, w')"
  have "CutPrefix (cacheinfo blob path) ''100644,'' = Some (blob @ CHR '','' # path)"
    unfolding cacheinfo_def CutPrefix_append by simp
  with r have "w' = w\<lparr>x_index := (f, (path, blob) # x_index_at w f) # x_index w\<rparr>"
    using Cut_char [OF c, of path] unfolding ex_update_index_def ex_index_file by (simp add: ex_outcomes)
  then show "g_index (ex_db w') f = (g_index (ex_db w) f)(path \<mapsto> blob)"
    by (simp add: ex_db_def x_index_at_def fun_eq_iff)
qed

lemma ex_write_tree_ok: "write_tree_contract ex_os dir ex_db"
  unfolding write_tree_contract_def ex_os_git ex_git_commands ex_write_tree_def ex_index_file
  by (auto simp: ex_outcomes Let_def ex_db_def ex_object_id x_index_at_def split: if_splits)

lemma ex_commit_tree_ok: "commit_tree_contract ex_os dir ex_db"
  unfolding commit_tree_contract_def ex_os_git
proof (intro allI impI)
  fix env tree parent message out err and w w' :: ex_world
  assume "ex_git ([''commit-tree'', tree] @ (if parent \<noteq> [] then [''-p'', parent] else []) @ [''-m'', message]) env None w
      = (Exited 0 out err, w')"
  then have "ex_commit_tree tree (if parent \<noteq> [] then [parent] else []) message w = (Exited 0 out err, w')"
    by (cases "parent = []") (simp_all add: ex_git_commands)
  then show "\<exists>c. out = c @ [nl] \<and> object_id c \<and>
      g_commits (ex_db w') c = Some (tree, if parent \<noteq> [] then [parent] else [], message)"
    by (auto simp: ex_commit_tree_def ex_outcomes Let_def ex_db_def ex_object_id split: if_splits)
qed

lemma ex_update_ref_ok: "update_ref_contract ex_os dir ex_db"
  unfolding update_ref_contract_def ex_os_git ex_git_commands
  by (auto simp: ex_update_ref_def ex_outcomes ex_db_def x_index_at_def)

lemma ex_scratch: "scratch_contract ex_os ex_db"
  by (auto simp: scratch_contract_def ex_os_def ex_db_def stays_def grows_def x_index_at_def)

lemma ex_log_tree: "log_tree (ex_db w) = map_option map_of (ex_tree w)"
  by (auto simp: log_tree_def ex_db_def ex_tree_def split: option.split)

lemma ex_log_files: "log_files_contract ex_os dir ex_db"
  unfolding log_files_contract_def ex_os_git ex_git_commands
proof (intro conjI allI impI)
  fix w
  show "\<exists>code out err. (if map_of (x_refs w) LogRef \<noteq> None then printed [] w else failed w) = (Exited code out err, w) \<and>
      (code = 0) = (g_refs (ex_db w) LogRef \<noteq> None)"
    by (auto simp: ex_outcomes ex_db_def)
next
  fix w c assume "g_refs (ex_db w) LogRef = Some c" "object_id c"
  then show "\<exists>err. ex_rev_parse LogRef w = (Exited 0 (c @ [nl]) err, w)"
    by (simp add: ex_rev_parse_def ex_refs_def ex_db_def ex_outcomes)
next
  fix w m path b content
  assume "log_tree (ex_db w) = Some m" "m path = Some b" "g_blobs (ex_db w) b = Some content"
  then obtain t where "ex_tree w = Some t" "map_of t path = Some b" "map_of (x_blobs w) b = Some content"
    unfolding ex_log_tree by (auto simp: ex_db_def)
  moreover have "CutPrefix (LogRef @ '':'' @ path) (LogRef @ '':'') = Some path"
    using CutPrefix_append [of "LogRef @ '':''" path] by simp
  ultimately show "\<exists>err. ex_cat_file (LogRef @ '':'' @ path) w = (Exited 0 content err, w)"
    unfolding ex_cat_file_def by (simp add: ex_outcomes)
qed

lemma ex_log_listing: "log_listing_contract ex_os dir ex_db"
  unfolding log_listing_contract_def ex_os_git ex_git_commands
proof (intro conjI allI impI)
  fix w m assume "log_tree (ex_db w) = Some m"
  then obtain t where t: "ex_tree w = Some t" "m = map_of t" by (auto simp: ex_log_tree)
  let ?ps = "filter (\<lambda>p. HasPrefix p entriesPrefix) (remdups (map fst t))"
  have "set ?ps = {p. m p \<noteq> None \<and> prefix entriesPrefix p}"
    by (auto simp: t(2) map_of_eq_None_iff)
  then show "\<exists>ps err. ex_ls_tree entriesPrefix w = (Exited 0 (concat (map (\<lambda>p. p @ [nl]) ps)) err, w) \<and>
        distinct ps \<and> set ps = {p. m p \<noteq> None \<and> prefix entriesPrefix p}"
    using t(1) by (intro exI [of _ ?ps] exI [of _ "[]"]) (simp add: ex_ls_tree_def ex_outcomes)
qed

lemma ex_objects_ok: "git_objects ex_os dir ex_db"
  unfolding git_objects_def
  by (intro conjI ex_objects ex_hash_object_ok ex_update_index_ok ex_write_tree_ok ex_commit_tree_ok
      ex_update_ref_ok ex_scratch)

lemma ex_ancestry: "ancestry_contract ex_os dir ex_graph"
  unfolding ancestry_contract_def ex_os_exec ex_git_commands ex_merge_base_def
  using is_ancestor_commits by (auto simp: ex_outcomes)

lemma ex_rev_parse_ok: "rev_parse_contract ex_os dir ex_refs"
  unfolding rev_parse_contract_def ex_os_exec ex_git_commands ex_rev_parse_def
  by (auto simp: ex_outcomes ex_refs_def split: option.split)

lemma ex_map_order: "map_order_contract ex_os"
  by (simp add: map_order_contract_def ex_os_def)

lemma ex_refs_view: "refs_view ex_db ex_refs"
  by (simp add: refs_view_def ex_refs_def ex_db_def)

subsection \<open>The commands' dependencies\<close>

text \<open>A witness that cosigns every note it is sent.\<close>

definition ex_cosign :: "string \<Rightarrow> string res" where
  "ex_cosign sn = fst (Cosign (ex_crypto :: unit crypto) sn ex_cosigner ())"

definition ex_deps :: "(ex_world, string list, uint64 \<times> uint64) deps" where
  "ex_deps =
     \<lparr>d_os = ex_os, d_tessera = ex_tessera, d_merkle = ex_merkle, d_log = ex_log, d_crypto = ex_crypto,
      d_formats = ex_formats,
      d_Update = (\<lambda>u from sn pf w.
        (case ex_cosign sn of Inr line \<Rightarrow> (line @ [nl], from, None) | Inl e \<Rightarrow> ([], from, Some e), w))\<rparr>"

lemma ex_deps_simps [simp]:
  "d_os ex_deps = ex_os" "d_tessera ex_deps = ex_tessera" "d_merkle ex_deps = ex_merkle"
  "d_log ex_deps = ex_log" "d_crypto ex_deps = ex_crypto" "d_formats ex_deps = ex_formats"
  by (simp_all add: ex_deps_def)

lemma ex_env: "repo_env ex_deps dir ex_db ex_graph ex_refs"
  using ex_objects_ok ex_log_files ex_log_listing ex_ancestry ex_rev_parse_ok ex_map_order ex_tessera_bundle ex_tessera_path
  by (simp add: repo_env_def layout_contract_def)

lemma ex_network: "network_contract ex_deps ex_db"
  by (simp add: network_contract_def ex_deps_def ex_crypto_def ex_formats_def Let_def)

end
