(* ===== verification/Example_Run.thy ===== *)
theory Example_Run
  imports Example_Repository
begin

section \<open>An example log\<close>

text \<open>
  A repository with two commits, a branch and a log of that branch: a concrete state in which
  the hypotheses of the commands hold together.
\<close>

definition ex_c1 :: string where "ex_c1 = replicate 40 (CHR ''a'')"
definition ex_c2 :: string where "ex_c2 = replicate 40 (CHR ''b'')"
definition ex_main :: string where "ex_main = ''refs/heads/main''"

definition ex_record :: "string \<Rightarrow> RefRecord" where
  "ex_record h = \<lparr>rr_Ref = ex_main, rr_Object = h\<rparr>"

definition ex_entry :: "string \<Rightarrow> entry" where
  "ex_entry h = \<lparr>entry_raw = encode_record (ex_record h), entry_Type = TypeRefRecord\<rparr>"

text \<open>The branch at \<open>h\<close>, the second commit a child of the first, no log.\<close>

definition ex_start :: "string \<Rightarrow> ex_world" where
  "ex_start h = \<lparr>x_refs = [(ex_main, h)], x_blobs = [], x_trees = [],
     x_commits = [(ex_c1, ''t'', [], ''one''), (ex_c2, ''t'', [ex_c1], ''two'')], x_index = [], x_next = 0\<rparr>"

text \<open>The same with a log of the entries \<open>es\<close> in one bundle, and the checkpoint \<open>cp\<close>.\<close>

definition ex_bundle :: "entry list \<Rightarrow> string" where
  "ex_bundle es = (case marshalBundle es of Inr s \<Rightarrow> s | Inl e \<Rightarrow> [])"

definition ex_repo :: "string \<Rightarrow> entry list \<Rightarrow> string \<Rightarrow> ex_world" where
  "ex_repo h es cp =
     \<lparr>x_refs = [(LogRef, ''c3''), (ex_main, h)], x_blobs = [(''b1'', ex_bundle es), (''b0'', cp)],
      x_trees = [(''t2'', [(bundle_path ex_tessera es 0, ''b1''), (checkpointPath, ''b0'')])],
      x_commits = [(''c3'', ''t2'', [], ''log''), (ex_c1, ''t'', [], ''one''), (ex_c2, ''t'', [ex_c1], ''two'')],
      x_index = [], x_next = 4\<rparr>"

lemma ex_object: "object_ok ex_c1" "object_ok ex_c2"
  by (simp_all add: object_ok_def ex_c1_def ex_c2_def lower_hex_char_def)

lemma ex_record_ok: "object_ok h \<Longrightarrow> record_ok (ex_record h)"
  by (auto simp: record_ok_def ex_record_def ex_main_def ParseRefKind_Inr_iff encode_record_def
      TypeRefRecord_def MaxEntrySize_def object_ok_def heads_prefix_def)

lemma ex_entry_ok: "object_ok h \<Longrightarrow> entry_ok (ex_entry h)"
  by (simp add: entry_ok_def ex_entry_def ParseEntry_encode ex_record_ok)

lemma ex_record_of: "object_ok h \<Longrightarrow> record_of (ex_entry h) = Some (ex_record h)"
  by (simp add: record_of_def ex_entry_def AsRefRecord_encode ex_record_ok)

text \<open>The example repository holds its log.\<close>

lemma ex_bundle_marshal:
  assumes "\<forall>e\<in>set es. entry_ok e"
  shows "marshalBundle es = Inr (ex_bundle es)"
  using marshalBundle_Inr_iff [of es] assms entry_ok_size by (auto simp: ex_bundle_def)

lemma ex_repo_log:
  assumes "es \<noteq> []" "length es \<le> 255" "\<forall>e\<in>set es. entry_ok e"
  shows "repo_log ex_tessera (ex_db (ex_repo h es cp)) es cp ''c3''"
proof -
  have n: "nbundles es = 1" "slice es 0 = es"
    using assms(1,2) by (auto simp: nbundles_def slice_def EntriesPerBundle_def Suc_le_eq
        length_greater_0_conv [symmetric] simp del: length_greater_0_conv intro!: div_nat_eqI)
  have "bundle_path ex_tessera es 0 \<noteq> checkpointPath"
    using ex_tessera_path checkpointPath_not_bundle unfolding bundle_path_def by (metis prefixI)
  then have "saved ex_tessera (ex_db (ex_repo h es cp)) es cp 1
      [(bundle_path ex_tessera es 0, ''b1''), (checkpointPath, ''b0'')]"
    using ex_bundle_marshal [OF assms(3)]
    by (auto simp: saved_def n ex_db_def ex_repo_def lessThan_Suc split: if_splits)
  moreover have "log_tree (ex_db (ex_repo h es cp))
      = Some (map_of [(bundle_path ex_tessera es 0, ''b1''), (checkpointPath, ''b0'')])"
    by (simp add: log_tree_def ex_db_def ex_repo_def)
  moreover have "object_id ''c3''" by (simp add: object_id_def space_edge_char)
  moreover have "g_refs (ex_db (ex_repo h es cp)) LogRef = Some ''c3''" by (simp add: ex_db_def ex_repo_def)
  ultimately have "holds_log ex_tessera (ex_db (ex_repo h es cp)) es cp ''c3''"
    unfolding holds_log_def n by blast
  moreover have "go_len es" using assms(2) by (simp add: go_len_def)
  ultimately show ?thesis using assms(3) by (simp add: repo_log_def)
qed

lemma ex_start_log: "repo_log ex_tessera (ex_db (ex_start h)) [] [] []"
  by (simp add: repo_log_def go_len_def ex_db_def ex_start_def LogRef_def ex_main_def)

lemma ex_names: "ex_c1 \<noteq> ''c3''" "ex_c2 \<noteq> ''c3''" "ex_c1 \<noteq> ex_c2"
proof -
  have "x \<noteq> ''c3''" if "length x = 40" for x :: string using that by auto
  moreover have "length ex_c1 = 40" "length ex_c2 = 40" "hd ex_c1 \<noteq> hd ex_c2" by (simp_all add: ex_c1_def ex_c2_def)
  ultimately show "ex_c1 \<noteq> ''c3''" "ex_c2 \<noteq> ''c3''" "ex_c1 \<noteq> ex_c2" by auto
qed

text \<open>The branch's commits and what the ref names.\<close>

lemma ex_main_kind: "ParseRefKind ex_main = Inr RefBranch"
  by (simp add: ParseRefKind_def ex_main_def tags_prefix_def heads_prefix_def)

lemma ex_graph_repo:
  "peel (ex_graph (ex_repo h es cp)) ex_c1 = Some ex_c1" "peel (ex_graph (ex_repo h es cp)) ex_c2 = Some ex_c2"
  "parents (ex_graph (ex_repo h es cp)) ex_c2 = [ex_c1]" "parents (ex_graph (ex_repo h es cp)) ex_c1 = []"
  by (simp_all add: ex_graph_def ex_repo_def ex_names ex_names [symmetric])

lemma ex_ancestor: "is_ancestor (ex_graph (ex_repo h es cp)) ex_c1 ex_c2"
  "is_ancestor (ex_graph (ex_repo h es cp)) ex_c2 ex_c2"
  by (auto simp: is_ancestor_def reaches_def ex_graph_repo)

lemma ex_refs_repo: "object_id h \<Longrightarrow> ex_refs (ex_repo h es cp) ex_main = Some h"
  by (simp add: ex_refs_def ex_repo_def ex_main_def LogRef_def)

lemma ex_commit_id: "object_id ex_c1" "object_id ex_c2"
  by (simp_all add: object_id_def ex_c1_def ex_c2_def space_edge_char)

text \<open>The log of both commits, in order.\<close>

definition ex_log_entries :: "entry list" where
  "ex_log_entries = [ex_entry ex_c1, ex_entry ex_c2]"

lemma ex_log_entries: "ex_log_entries \<noteq> []" "length ex_log_entries \<le> 255" "\<forall>e\<in>set ex_log_entries. entry_ok e"
  by (simp_all add: ex_log_entries_def ex_entry_ok ex_object)

lemma ex_statements: "statements ex_log_entries = [ex_record ex_c1, ex_record ex_c2]"
  by (simp add: ex_log_entries_def ex_record_of ex_object)

lemma ex_verified:
  "ref_verified (ex_graph (ex_repo ex_c1 es cp)) (ex_refs (ex_repo ex_c1 es cp)) ex_main
     (the_log dir ex_log_entries cp' head)"
  using ex_log_entries(3) entry_ok_decodable
  by (auto simp: ref_verified_def ex_main_kind RefRecords_Inr_iff ex_statements ex_record_def ratchet_ok_def
      ex_refs_repo ex_commit_id ex_ancestor)

end
