(* ===== verification/Log_Properties.thy ===== *)
theory Log_Properties
  imports Example_Run
begin

section \<open>Properties of the log\<close>

text \<open>
  Entries, bundles, the Merkle tree over the entries, and the log as git stores it
  (\<^verbatim>\<open>internal/gitlog\<close>, \<^verbatim>\<open>internal/tlog\<close>).
\<close>

subsection \<open>Entries\<close>

text \<open>
  C21: Canonical entries. A byte string parses as an entry that states a ref record exactly if
  it is that record's one written form: two entries that differ never make the same
  statement, and every well-formed record has an entry.
\<close>

theorem entry_canonical:
  "(\<exists>e. ParseEntry raw = Inr e \<and> AsRefRecord e = Inr r) \<longleftrightarrow> record_ok r \<and> raw = encode_record r"
proof
  assume "\<exists>e. ParseEntry raw = Inr e \<and> AsRefRecord e = Inr r"
  then obtain e where "ParseEntry raw = Inr e" "AsRefRecord e = Inr r" by blast
  with ParseEntry_raw ParseEntry_ok entry_ok_canonical [of e r]
  show "record_ok r \<and> raw = encode_record r" by metis
qed (use ParseEntry_encode AsRefRecord_encode in metis)

text \<open>
  C35: Recording. \<^verbatim>\<open>NewRefRecord\<close> succeeds exactly on a branch or tag name and a lower-case hex
  object name that fit an entry; the entry it makes decodes to that ref and object, or, when the
  ref contains a space or a line break, not at all: never to another statement.
\<close>

theorem new_record_decided:
  "case NewRefRecord ref object of
     Inr e \<Rightarrow> (\<exists>k. ParseRefKind ref = Inr k) \<and> object_ok object \<and> length (entry_raw e) \<le> MaxEntrySize \<and>
       (\<forall>r. AsRefRecord e = Inr r \<longleftrightarrow> r = \<lparr>rr_Ref = ref, rr_Object = object\<rparr> \<and> record_ok r)
   | Inl _ \<Rightarrow> (\<forall>k. ParseRefKind ref \<noteq> Inr k) \<or> \<not> object_ok object \<or>
       MaxEntrySize < length (encode_record \<lparr>rr_Ref = ref, rr_Object = object\<rparr>)"
proof (cases "NewRefRecord ref object")
  case (Inr e)
  then have e: "e = \<lparr>entry_raw = encode_record \<lparr>rr_Ref = ref, rr_Object = object\<rparr>, entry_Type = TypeRefRecord\<rparr>"
    by (simp add: NewRefRecord_Inr_iff)
  have "AsRefRecord e = Inr r \<longleftrightarrow> r = \<lparr>rr_Ref = ref, rr_Object = object\<rparr> \<and> record_ok r" for r
    using AsRefRecord_New [OF Inr] AsRefRecord_encode [of r] unfolding e by blast
  moreover from Inr have "(\<exists>k. ParseRefKind ref = Inr k) \<and> object_ok object \<and> length (entry_raw e) \<le> MaxEntrySize"
    unfolding NewRefRecord_Inr_iff by blast
  ultimately show ?thesis unfolding Inr sum.case by blast
next
  case (Inl err)
  then show ?thesis using NewRefRecord_Inr_iff [of ref object] by (auto simp: not_le)
qed

theorem new_record_decided_witness:
  "(case NewRefRecord ex_main ex_c1 of Inr e \<Rightarrow> AsRefRecord e = Inr (ex_record ex_c1) | Inl _ \<Rightarrow> False) \<and>
   (case NewRefRecord ''refs/heads/a b'' ex_c1 of Inr e \<Rightarrow> \<forall>r. AsRefRecord e \<noteq> Inr r | Inl _ \<Rightarrow> False)"
proof
  have k: "\<exists>k. ParseRefKind ex_main = Inr k" "\<exists>k. ParseRefKind ''refs/heads/a b'' = Inr k"
    by (auto simp: ParseRefKind_Inr_iff ex_main_def heads_prefix_def)
  have l: "length (encode_record \<lparr>rr_Ref = ''refs/heads/a b'', rr_Object = ex_c1\<rparr>) \<le> MaxEntrySize"
    by (simp add: encode_record_def TypeRefRecord_def MaxEntrySize_def ex_c1_def)
  have m: "record_ok (ex_record ex_c1)" "length (encode_record (ex_record ex_c1)) \<le> MaxEntrySize"
    using ex_record_ok [OF ex_object(1)] by (simp_all add: record_ok_def)
  show "case NewRefRecord ex_main ex_c1 of Inr e \<Rightarrow> AsRefRecord e = Inr (ex_record ex_c1) | Inl _ \<Rightarrow> False"
    using new_record_decided [of ex_main ex_c1] k(1) ex_object(1) m
    by (auto simp: ex_record_def split: sum.splits)
  show "case NewRefRecord ''refs/heads/a b'' ex_c1 of Inr e \<Rightarrow> \<forall>r. AsRefRecord e \<noteq> Inr r | Inl _ \<Rightarrow> False"
    using new_record_decided [of "''refs/heads/a b''" ex_c1] k(2) ex_object(1) l
    by (auto simp: record_ok_def split: sum.splits)
qed

text \<open>
  Framing. An entry parses exactly if it is at most 65535 bytes of newline-terminated lines
  without carriage returns or trailing blanks, its first line is a type without blanks, and, if
  that type is the known one, the entry decodes; a type this program does not know is accepted
  with its bytes.
\<close>

theorem parse_entry_decided:
  "ParseEntry raw = Inr e \<longleftrightarrow>
     (\<exists>ls. length raw \<le> MaxEntrySize \<and> ls \<noteq> [] \<and> raw = Join ls [nl] @ [nl] \<and> list_all line_ok ls \<and>
        hd ls \<noteq> [] \<and> sp \<notin> set (hd ls) \<and> tab \<notin> set (hd ls) \<and>
        e = \<lparr>entry_raw = raw, entry_Type = hd ls\<rparr> \<and> decodable e)"
proof -
  have ne: "entryLines raw = Inr ls \<Longrightarrow> ls \<noteq> [] \<and> ls ! 0 = hd ls" for ls
    by (simp add: entryLines_Inr_iff hd_conv_nth)
  have "ParseEntry raw = Inr e \<longleftrightarrow>
      (\<exists>ls. entryLines raw = Inr ls \<and> hd ls \<noteq> [] \<and> \<not> ContainsAny (hd ls) [sp, tab] \<and>
        e = \<lparr>entry_raw = raw, entry_Type = hd ls\<rparr> \<and> decodable e)"
    unfolding ParseEntry_def rbind_Inr_iff Let_def
    by (intro ex_cong1) (auto simp: ne entry_known_def knownTypes_def entry_validate_def decodable_def rbind_Inr_iff
        TypeRefRecord_def split: if_splits)
  moreover have "ContainsAny s [sp, tab] \<longleftrightarrow> sp \<in> set s \<or> tab \<in> set s" for s
    by (auto simp: ContainsAny_def list_ex_iff)
  ultimately show ?thesis unfolding entryLines_Inr_iff list_all_iff by blast
qed

text \<open>
  Bundles. \<^verbatim>\<open>marshalBundle\<close> fails exactly if an entry is longer than the bundle's 16-bit length
  can say; otherwise the tlog-tiles reader returns the entries' bytes, and parsing those returns
  the entries.
\<close>

theorem bundle_roundtrip:
  assumes "bundle_contract TL" "\<forall>e\<in>set es. ParseEntry (entry_raw e) = Inr e"
  shows "\<exists>s. marshalBundle es = Inr s \<and> EntryBundle_UnmarshalText TL s = Inr (map entry_raw es) \<and>
    res_map ParseEntry (map entry_raw es) = Inr es"
proof -
  have ok: "\<forall>e\<in>set es. entry_ok e" using assms(2) by (simp add: entry_ok_def)
  then obtain s where "marshalBundle es = Inr s" using marshalBundle_Inr_iff [of es] entry_ok_size by blast
  with marshalBundle_roundtrip [OF assms(1)] ParseEntry_raws ok show ?thesis by blast
qed

theorem bundle_roundtrip_witness:
  "\<exists>s. marshalBundle ex_log_entries = Inr s \<and>
    EntryBundle_UnmarshalText ex_tessera s = Inr (map entry_raw ex_log_entries) \<and>
    res_map ParseEntry (map entry_raw ex_log_entries) = Inr ex_log_entries"
  using bundle_roundtrip [OF ex_tessera_bundle] ex_log_entries(3) by (simp add: entry_ok_def)

text \<open>
  Unknown entries. An entry of a type the program does not know counts as a leaf of the tree
  and changes nothing any ref's records say, wherever it stands in the log.
\<close>

theorem unknown_entry_ignored:
  assumes "\<not> entry_known e"
  shows "(RefRecords (l\<lparr>log_entries := es @ e # fs\<rparr>) ref = Inr rs \<longleftrightarrow>
      RefRecords (l\<lparr>log_entries := es @ fs\<rparr>) ref = Inr rs) \<and>
    Size (l\<lparr>log_entries := es @ e # fs\<rparr>) = Size (l\<lparr>log_entries := es @ fs\<rparr>) + 1"
  using assms
  by (auto simp: RefRecords_Inr_iff record_of_def decodable_def entry_known_def knownTypes_def Size_def)

theorem unknown_entry_ignored_witness:
  "RefRecords (the_log ''dir'' [\<lparr>entry_raw = ''future/v9'' @ [nl], entry_Type = ''future/v9''\<rparr>, ex_entry ex_c1] [] []) ex_main
     = Inr [ex_record ex_c1]"
proof -
  have "\<not> entry_known \<lparr>entry_raw = ''future/v9'' @ [nl], entry_Type = ''future/v9''\<rparr>"
    by (simp add: entry_known_def knownTypes_def TypeRefRecord_def)
  from unknown_entry_ignored [OF this, where l = "the_log ''dir'' [] [] []" and es = "[]" and fs = "[ex_entry ex_c1]" and
      ref = ex_main and rs = "[ex_record ex_c1]"] show ?thesis
    by (simp add: RefRecords_Inr_iff ex_record_of ex_object ex_record_def entry_ok_decodable ex_entry_ok)
qed

subsection \<open>The tree\<close>

lemma mth_pair: "mth hc e [a, b] = hc a b"
proof -
  have "split_point 2 = 1" using split_point_unique [of 2 0] by simp
  then have "mth hc e [a, b] = hc (mth hc e (take 1 [a, b])) (mth hc e (drop 1 [a, b]))"
    by (intro rfc.root_split) (simp_all add: numeral_2_eq_2)
  then show ?thesis by (simp add: rfc.root_single)
qed

text \<open>
  C22: The root. \<^verbatim>\<open>Log.Root\<close> is the RFC 6962 tree head over the entries' leaf hashes, for every
  log, the empty one included.
\<close>

theorem root_is_tree_head:
  assumes "hasher_contract L" "range_contract L repr"
  shows "LogRoot L l = Inr (mth (hasher_HashChildren L) (hasher_EmptyRoot L)
    (map (\<lambda>e. hasher_HashLeaf L (entry_raw e)) (log_entries l)))"
  using LogRoot_Inr [OF assms] by (simp add: leaf_list_def)

theorem root_is_tree_head_witness:
  "LogRoot ex_merkle (the_log ''dir'' ex_log_entries [] []) =
    Inr (hasher_HashChildren ex_merkle (hasher_HashLeaf ex_merkle (encode_record (ex_record ex_c1)))
           (hasher_HashLeaf ex_merkle (encode_record (ex_record ex_c2))))"
  using root_is_tree_head [OF ex_merkle_hasher ex_merkle_range, of "the_log ''dir'' ex_log_entries [] []"]
  by (simp add: ex_log_entries_def ex_entry_def mth_pair)

text \<open>
  C17: Consistency proofs. The proof from size \<open>m\<close> is empty if \<open>m\<close> is zero or the log's size, an
  error beyond it, and otherwise one that RFC 6962 verification accepts between the head of the
  first \<open>m\<close> entries and the head of the log.
\<close>

theorem consistency_proof_verifies:
  assumes "hasher_contract L" "range_contract L repr" "proof_contract L" "go_len (log_entries l)"
  shows "case ConsistencyProofFrom L l m of
      Inl _ \<Rightarrow> length (log_entries l) < unat m
    | Inr p \<Rightarrow> unat m \<le> length (log_entries l) \<and>
        (if m = 0 \<or> unat m = length (log_entries l) then p = []
         else proof_accepted (hasher_HashChildren L) (unat m) (length (log_entries l))
                (tree_hash L (leaf_list L (take (unat m) (log_entries l))))
                (tree_hash L (leaf_list L (log_entries l))) p)"
  by (rule ConsistencyProofFrom_verified [OF assms])

theorem consistency_proof_verifies_witness:
  "case ConsistencyProofFrom ex_merkle (the_log ''dir'' ex_log_entries [] []) 1 of
     Inl _ \<Rightarrow> False
   | Inr p \<Rightarrow> proof_accepted (hasher_HashChildren ex_merkle) 1 (length ex_log_entries)
                (tree_hash ex_merkle (leaf_list ex_merkle [ex_entry ex_c1]))
                (tree_hash ex_merkle (leaf_list ex_merkle ex_log_entries)) p"
  using consistency_proof_verifies [OF ex_merkle_hasher ex_merkle_range ex_merkle_proof,
      of "the_log ''dir'' ex_log_entries [] []" 1]
  by (simp add: go_len_def ex_log_entries_def split: sum.splits)

text \<open>
  C13: What a checkpoint commits to. If two logs both reproduce a checkpoint, then the entries it
  covers have the same bytes in both, unless two different leaves, or two different pairs of
  nodes met while hashing them, have the same hash.
\<close>

theorem checkpoint_binds_entries:
  assumes "hasher_contract L" "range_contract L repr" "go_len (log_entries l)" "go_len (log_entries l')"
    and "Checkpointed L l cp = Inr t" "Checkpointed L l' cp = Inr t'"
  shows "raws t = raws t' \<or>
    (\<exists>a\<in>set (raws t). \<exists>b\<in>set (raws t'). a \<noteq> b \<and> hasher_HashLeaf L a = hasher_HashLeaf L b) \<or>
    node_collision (hasher_HashChildren L) (tree_hash L)
      (leaf_list L (log_entries t)) (leaf_list L (log_entries t'))"
proof -
  let ?xs = "leaf_list L (log_entries t)" and ?ys = "leaf_list L (log_entries t')"
  note c = Checkpointed_Inr_iff [OF assms(1,2)]
  have len: "length (raws t) = length (raws t')" and root: "tree_hash L ?xs = tree_hash L ?ys"
    using assms(5,6) c [OF assms(3)] c [OF assms(4)] by (auto simp: raws_def)
  then have "?xs = ?ys \<or> node_collision (hasher_HashChildren L) (tree_hash L) ?xs ?ys"
    by (intro rfc.head_binds_leaves) (simp_all add: leaf_list_def raws_def)
  moreover have "\<exists>a\<in>set (raws t). \<exists>b\<in>set (raws t'). a \<noteq> b \<and> hasher_HashLeaf L a = hasher_HashLeaf L b"
    if "?xs = ?ys" "raws t \<noteq> raws t'"
  proof -
    from that(2) len obtain i where i: "i < length (raws t)" "raws t ! i \<noteq> raws t' ! i"
      by (auto simp: list_eq_iff_nth_eq)
    have "map (hasher_HashLeaf L) (raws t) = map (hasher_HashLeaf L) (raws t')"
      using that(1) by (simp add: leaf_list_def raws_def comp_def)
    with i len have "hasher_HashLeaf L (raws t ! i) = hasher_HashLeaf L (raws t' ! i)"
      by (metis nth_map)
    with i len show ?thesis by (metis nth_mem)
  qed
  ultimately show ?thesis by blast
qed

text \<open>The checkpoint of the example's first entry.\<close>

definition ex_checkpoint :: checkpoint where
  "ex_checkpoint = \<lparr>cp_Origin = ''log'', cp_Size = 1,
     cp_Hash = tree_hash ex_merkle (leaf_list ex_merkle [ex_entry ex_c1])\<rparr>"

lemma ex_checkpointed:
  "Checkpointed ex_merkle (the_log ''dir'' (ex_entry ex_c1 # es) cp h) ex_checkpoint
     = Inr (the_log ''dir'' [ex_entry ex_c1] cp h)" if "go_len (ex_entry ex_c1 # es)"
proof -
  have "is_hash (tree_hash ex_merkle (leaf_list ex_merkle [ex_entry ex_c1]))"
    by (rule tree_hash_is_hash [OF ex_merkle_hasher leaf_list_hashes [OF ex_merkle_hasher]])
  then show ?thesis
    using that Checkpointed_Inr_iff [OF ex_merkle_hasher ex_merkle_range, of "the_log ''dir'' (ex_entry ex_c1 # es) cp h"]
    by (simp add: ex_checkpoint_def)
qed

theorem checkpoint_binds_entries_witness:
  "raws (the_log ''dir'' [ex_entry ex_c1] [] []) = raws (the_log ''dir'' [ex_entry ex_c1] [] ''c3'') \<or>
    (\<exists>a. a \<noteq> a \<and> hasher_HashLeaf ex_merkle a = hasher_HashLeaf ex_merkle a)"
  using checkpoint_binds_entries [OF ex_merkle_hasher ex_merkle_range _ _ ex_checkpointed ex_checkpointed, of "[]" "[]" "[]" "[]" "[]" "''c3''"]
  by (simp add: go_len_def raws_def)

text \<open>
  Reading under a checkpoint. \<^verbatim>\<open>Checkpointed\<close> keeps exactly the first \<^verbatim>\<open>cp.Size\<close> entries, and
  only if the log holds that many and their tree head is the signed hash.
\<close>

theorem checkpointed_decided:
  assumes "hasher_contract L" "range_contract L repr" "go_len (log_entries l)"
  shows "Checkpointed L l cp = Inr t \<longleftrightarrow>
     unat (cp_Size cp) \<le> length (log_entries l) \<and>
     t = l\<lparr>log_entries := take (unat (cp_Size cp)) (log_entries l)\<rparr> \<and>
     length (cp_Hash cp) = 32 \<and> LogRoot L t = Inr (cp_Hash cp)"
  using Checkpointed_Inr_iff [OF assms, of cp t] LogRoot_Inr [OF assms(1,2), of t]
  by (auto simp: is_hash_def HashSize_def)

theorem checkpointed_decided_witness:
  "LogRoot ex_merkle (the_log ''dir'' [ex_entry ex_c1] [] []) = Inr (cp_Hash ex_checkpoint)"
proof -
  have "Checkpointed ex_merkle (the_log ''dir'' [ex_entry ex_c1, ex_entry ex_c2] [] []) ex_checkpoint
      = Inr (the_log ''dir'' [ex_entry ex_c1] [] [])"
    by (rule ex_checkpointed) (simp add: go_len_def)
  moreover have g: "go_len (log_entries (the_log ''dir'' [ex_entry ex_c1, ex_entry ex_c2] [] []))"
    by (simp add: go_len_def)
  ultimately show ?thesis
    unfolding checkpointed_decided [OF ex_merkle_hasher ex_merkle_range g] by (elim conjE)
qed

text \<open>
  Entries past a checkpoint. What anyone appends to a log after a checkpoint changes nothing
  in what is read under it: the same log, or the same refusal for a wrong hash; only a log that
  was too short can become long enough.
\<close>

theorem appended_entries_ignored:
  assumes "hasher_contract L" "range_contract L repr" "go_len (log_entries l @ es)"
    and "unat (cp_Size cp) \<le> length (log_entries l)"
  shows "(case Checkpointed L (l\<lparr>log_entries := log_entries l @ es\<rparr>) cp of
      Inr t \<Rightarrow> Checkpointed L l cp = Inr t | Inl e \<Rightarrow> \<exists>e'. Checkpointed L l cp = Inl e')"
proof -
  let ?l' = "l\<lparr>log_entries := log_entries l @ es\<rparr>"
  have g: "go_len (log_entries l)" "go_len (log_entries ?l')" using assms(3) by (simp_all add: go_len_def)
  have "Checkpointed L ?l' cp = Inr t \<longleftrightarrow> Checkpointed L l cp = Inr t" for t
    unfolding Checkpointed_Inr_iff [OF assms(1,2) g(1)] Checkpointed_Inr_iff [OF assms(1,2) g(2)]
    using assms(4) by simp
  then show ?thesis by (cases "Checkpointed L l cp"; cases "Checkpointed L ?l' cp") auto
qed

theorem appended_entries_ignored_witness:
  "case Checkpointed ex_merkle (the_log ''dir'' [ex_entry ex_c1, ex_entry ex_c2] [] []) ex_checkpoint of
     Inr t \<Rightarrow> Checkpointed ex_merkle (the_log ''dir'' [ex_entry ex_c1] [] []) ex_checkpoint = Inr t
   | Inl e \<Rightarrow> False"
  using appended_entries_ignored [OF ex_merkle_hasher ex_merkle_range, of "the_log ''dir'' [ex_entry ex_c1] [] []"
      "[ex_entry ex_c2]" ex_checkpoint] ex_checkpointed [of "[]" "[]" "[]"]
  by (simp add: go_len_def ex_checkpoint_def split: sum.splits)


subsection \<open>The log in git\<close>

text \<open>
  Append-only records. Appending entries to a log keeps each ref's records and adds, at the
  end, the records that the new entries state of that ref.
\<close>

theorem append_extends_records:
  assumes "\<forall>e\<in>set (log_entries l) \<union> set es. ParseEntry (entry_raw e) = Inr e"
  shows "\<exists>rs. RefRecords l ref = Inr rs \<and>
    RefRecords (fold (\<lambda>e l. Append l e) es l) ref = Inr (rs @ filter (\<lambda>r. rr_Ref r = ref) (statements es)) \<and>
    length (log_entries (fold (\<lambda>e l. Append l e) es l)) = length (log_entries l) + length es"
proof -
  have wf: "log_ok l" "\<And>e. e \<in> set es \<Longrightarrow> entry_ok e"
    using assms by (auto simp: log_ok_def entry_ok_def)
  obtain rs where "RefRecords l ref = Inr rs" using gl.records_wf [OF wf(1)] by blast
  with gl.records_appends [OF wf this] gl.size_appends show ?thesis by blast
qed

theorem append_extends_records_witness:
  "RefRecords (fold (\<lambda>e l. Append l e) [ex_entry ex_c2] (the_log ''dir'' [ex_entry ex_c1] [] [])) ex_main
     = Inr [ex_record ex_c1, ex_record ex_c2]"
proof -
  have "\<forall>e\<in>set (log_entries (the_log ''dir'' [ex_entry ex_c1] [] [])) \<union> set [ex_entry ex_c2].
      ParseEntry (entry_raw e) = Inr e"
    using ex_entry_ok [OF ex_object(1)] ex_entry_ok [OF ex_object(2)] by (simp add: entry_ok_def)
  from append_extends_records [OF this, of ex_main] show ?thesis
    by (auto simp: RefRecords_Inr_iff ex_record_of ex_object ex_record_def)
qed

text \<open>
  C16: Saving and opening. \<^verbatim>\<open>Save\<close> of a log read from a repository, with entries and a checkpoint
  of the caller's choice, either fails and moves no ref and loses no object, or writes one
  commit whose parent is the head it was read at, moves only the log ref, and \<^verbatim>\<open>Open\<close> then
  returns exactly the saved log.
\<close>

theorem save_then_open:
  assumes env: "repo_env D dir db graph refs" and ok: "\<forall>e\<in>set es. ParseEntry (entry_raw e) = Inr e" "go_len es"
  shows "case Save (d_os D) (d_tessera D) (the_log dir es old head) cp msg w of
      (Inl _, w') \<Rightarrow> g_refs (db w') = g_refs (db w) \<and> grows (db w) (db w')
    | (Inr l, w') \<Rightarrow> (\<exists>c. l = the_log dir es cp c \<and>
        g_refs (db w) LogRef = (if head = [] then None else Some head) \<and>
        g_refs (db w') = (g_refs (db w))(LogRef \<mapsto> c) \<and> grows (db w) (db w') \<and>
        (\<exists>t. g_commits (db w') c = Some (t, if head = [] then [] else [head], msg)) \<and>
        Open (d_os D) (d_tessera D) dir w' = (Inr l, w'))"
proof -
  have ok': "\<forall>e\<in>set es. entry_ok e" using ok(1) by (simp add: entry_ok_def)
  obtain r w' where s: "Save (d_os D) (d_tessera D) (the_log dir es old head) cp msg w = (r, w')" by fastforce
  show ?thesis
  proof (cases r)
    case (Inl e)
    have g: "git_objects (d_os D) (log_repoDir (the_log dir es old head)) db" using repo_envD(1) [OF env] by simp
    show ?thesis using Save_failure [OF g] s Inl by (auto simp: stays_def)
  next
    case (Inr l)
    with s have i: "Save (d_os D) (d_tessera D) (the_log dir es old head) cp msg w = (Inr l, w')" by simp
    obtain c where c: "l = the_log dir es cp c" "repo_log (d_tessera D) (db w') es cp c"
      "g_refs (db w) LogRef = (if head = [] then None else Some head)"
      "g_refs (db w') = (g_refs (db w))(LogRef \<mapsto> c)" "grows (db w) (db w')"
      "\<exists>t. g_commits (db w') c = Some (t, if head \<noteq> [] then [head] else [], msg)"
      by (rule Save_repo_log [OF repo_envD(1,4,5) [OF env] ok' ok(2) i])
    have "(if head \<noteq> [] then [head] else []) = (if head = [] then [] else [head])" by simp
    with c(6) have com: "\<exists>t. g_commits (db w') c = Some (t, if head = [] then [] else [head], msg)" by simp
    have o: "Open (d_os D) (d_tessera D) dir w' = (Inr l, w')" using Open_repo_log [OF env c(2)] c(1) by simp
    show ?thesis unfolding s Inr prod.case sum.case
      by (rule exI [of _ c], intro conjI) (fact c com o)+
  qed
qed

theorem save_then_open_witness:
  "case Save ex_os ex_tessera (the_log ''dir'' ex_log_entries [] []) ''cp'' ''msg'' (ex_start ex_c1) of
     (Inl _, w') \<Rightarrow> g_refs (ex_db w') = g_refs (ex_db (ex_start ex_c1))
   | (Inr l, w') \<Rightarrow> Open ex_os ex_tessera ''dir'' w' = (Inr l, w')"
proof -
  have "\<forall>e\<in>set ex_log_entries. ParseEntry (entry_raw e) = Inr e" "go_len ex_log_entries"
    using ex_log_entries by (auto simp: entry_ok_def go_len_def)
  from save_then_open [OF ex_env [of "''dir''"] this, where w = "ex_start ex_c1" and old = "[]" and head = "[]" and cp = "''cp''" and msg = "''msg''"]
  show ?thesis unfolding ex_deps_simps
    by (cases "Save ex_os ex_tessera (the_log ''dir'' ex_log_entries [] []) ''cp'' ''msg'' (ex_start ex_c1)" rule: prod.exhaust)
      (rename_tac r w', case_tac r, auto)
qed

text \<open>
  C8: Concurrent writers. If the log ref no longer names the head a log was opened at, because
  someone else saved in between, \<^verbatim>\<open>Save\<close> fails and the other writer's log stays what is stored.
\<close>

theorem stale_save_fails:
  assumes env: "repo_env D dir db graph refs" and ok: "\<forall>e\<in>set es. ParseEntry (entry_raw e) = Inr e" "go_len es"
    and other: "repo_log (d_tessera D) (db w) es' cp' head'" and stale: "head \<noteq> head'"
  shows "\<exists>e w'. Save (d_os D) (d_tessera D) (the_log dir es old head) cp msg w = (Inl e, w') \<and>
    g_refs (db w') = g_refs (db w)"
proof -
  obtain r w' where s: "Save (d_os D) (d_tessera D) (the_log dir es old head) cp msg w = (r, w')" by fastforce
  have g: "git_objects (d_os D) (log_repoDir (the_log dir es old head)) db" using repo_envD(1) [OF env] by simp
  have "\<exists>e. r = Inl e"
  proof (rule ccontr)
    assume "\<not> (\<exists>e. r = Inl e)"
    then obtain l where "r = Inr l" by (cases r) auto
    with s have i: "Save (d_os D) (d_tessera D) (the_log dir es old head) cp msg w = (Inr l, w')" by simp
    have ok': "\<forall>e\<in>set es. entry_ok e" using ok(1) by (simp add: entry_ok_def)
    have "g_refs (db w) LogRef = (if head = [] then None else Some head)"
      by (rule Save_repo_log [OF repo_envD(1,4,5) [OF env] ok' ok(2) i])
    with repo_log_head [OF other] stale show False by (auto split: if_splits)
  qed
  with s Save_failure [OF g] show ?thesis by (auto simp: stays_def)
qed

theorem stale_save_fails_witness:
  "\<exists>e w'. Save ex_os ex_tessera (the_log ''dir'' ex_log_entries [] []) [] ''msg'' (ex_repo ex_c1 ex_log_entries []) = (Inl e, w') \<and>
    g_refs (ex_db w') = g_refs (ex_db (ex_repo ex_c1 ex_log_entries []))"
proof -
  have "\<forall>e\<in>set ex_log_entries. ParseEntry (entry_raw e) = Inr e" "go_len ex_log_entries"
    using ex_log_entries by (auto simp: entry_ok_def go_len_def)
  from stale_save_fails [OF ex_env this, unfolded ex_deps_simps, OF ex_repo_log [OF ex_log_entries]]
  show ?thesis by simp
qed

end
