(* ===== verification/Witness_Message.thy ===== *)
theory Witness_Message
  imports Policy
begin

section \<open>HTTP messages as text (\<^verbatim>\<open>internal/witness/httpmsg.go\<close>)\<close>

text \<open>
  The line-ending rule, the fenced block a message travels in, and the origin read from an
  add-checkpoint body. Serialising a request or response is \<^verbatim>\<open>net/http\<close>'s: its result is the
  argument of \<open>MarshalMessage\<close>.
\<close>

definition AddCheckpointPath :: string where
  "AddCheckpointPath = ''/add-checkpoint''"

definition MessageHost :: string where
  "MessageHost = ''witness.invalid''"

definition MarshalMessage :: "string res \<Rightarrow> string res" where
  "MarshalMessage written =
     rbind (rwrap ''serialising message: %w'' [] written) (\<lambda>buf.
       let out = ReplaceCRLF buf in
       if ContainsRune out cr then
         Inl (Errorf ''message contains a carriage return outside its line endings'' [])
       else Inr out)"

text \<open>Three backquotes, and the regular expression \<^verbatim>\<open>(?s)```http\n(.*?)```\<close>: leftmost, shortest.\<close>

definition ticks :: string where
  "ticks = [CHR 0x60, CHR 0x60, CHR 0x60]"

definition fence_open :: string where
  "fence_open = ticks @ ''http'' @ [nl]"

definition fence :: "string \<Rightarrow> string" where
  "fence message = fence_open @ message @ ticks"

definition httpFence_FindStringSubmatch :: "string \<Rightarrow> string option" where
  "httpFence_FindStringSubmatch s =
     (case Index s fence_open of
        None \<Rightarrow> None
      | Some i \<Rightarrow>
          let rest = drop (i + length fence_open) s in
          case Index rest ticks of None \<Rightarrow> None | Some j \<Rightarrow> Some (take j rest))"

definition originFromAddCheckpoint :: "string \<Rightarrow> string res" where
  "originFromAddCheckpoint body =
     (let (_, note, found) = Cut body [nl, nl] in
      if \<not> found then Inl (Errorf ''add-checkpoint body has no checkpoint'' [])
      else
        let (origin, _, _) = Cut note [nl] in
        if origin = [] then Inl (Errorf ''checkpoint names no origin'' [])
        else Inr origin)"

subsection \<open>Line endings\<close>

lemma MarshalMessage_Inr_iff:
  "MarshalMessage written = Inr out \<longleftrightarrow>
     (\<exists>buf. written = Inr buf \<and> out = ReplaceCRLF buf \<and> cr \<notin> set out)"
  by (auto simp: MarshalMessage_def rbind_Inr_iff Let_def ContainsRune_def)

lemma ReplaceCRLF_line: "cr \<notin> set l \<Longrightarrow> ReplaceCRLF (l @ cr # nl # rest) = l @ nl # ReplaceCRLF rest"
proof (induction l)
  case (Cons c l)
  then show ?case by (cases l) auto
qed simp

text \<open>A message as RFC 9112 frames it: a start line and fields ending in CRLF, an empty line, a body.\<close>

definition framed :: "string list \<Rightarrow> string \<Rightarrow> string" where
  "framed hdrs body = concat (map (\<lambda>l. l @ [cr, nl]) hdrs) @ [cr, nl] @ body"

definition unframed :: "string list \<Rightarrow> string \<Rightarrow> string" where
  "unframed hdrs body = concat (map (\<lambda>l. l @ [nl]) hdrs) @ [nl] @ body"

lemma ReplaceCRLF_framed:
  "(\<forall>l\<in>set hdrs. cr \<notin> set l) \<Longrightarrow> cr \<notin> set body \<Longrightarrow> ReplaceCRLF (framed hdrs body) = unframed hdrs body"
proof (induction hdrs)
  case Nil
  then show ?case using ReplaceCRLF_line [of "[]" body] by (simp add: framed_def unframed_def ReplaceCRLF_no_cr)
next
  case (Cons l hdrs)
  then show ?case using ReplaceCRLF_line [of l "framed hdrs body"] by (simp add: framed_def unframed_def)
qed

lemma MarshalMessage_framed:
  assumes "\<forall>l\<in>set hdrs. cr \<notin> set l" "cr \<notin> set body"
  shows "MarshalMessage (Inr (framed hdrs body)) = Inr (unframed hdrs body)"
  using assms ReplaceCRLF_framed [OF assms] by (auto simp: MarshalMessage_Inr_iff unframed_def)

subsection \<open>The fence\<close>

lemma fence_match:
  assumes pre: "\<not> sublist fence_open (pre @ butlast fence_open)" and msg: "\<not> sublist ticks (message @ butlast ticks)"
  shows "httpFence_FindStringSubmatch (pre @ fence message @ trailer) = Some message"
proof -
  have first: "Index (x @ w @ y) w = Some (length x)" if "\<not> sublist w (x @ butlast w)" "w \<noteq> []" for x w y :: string
  proof (rule Index_append_first)
    fix j assume j: "j < length x"
    show "\<not> prefix w (drop j x @ w @ y)"
    proof
      assume "prefix w (drop j x @ w @ y)"
      then have "w = take (length w) (drop j x @ w @ y)" by (metis append_eq_conv_conj prefix_def)
      also have "\<dots> = take (length w) (drop j x @ butlast w)"
        using j that(2) by (cases w rule: rev_cases) (auto simp: take_append not_less_eq_eq min_def)
      finally have "sublist w (drop j x @ butlast w)" by (metis sublist_take)
      then have "sublist w (drop j (x @ butlast w))" using j by simp
      with that(1) show False by (meson sublist_drop sublist_order.order_trans)
    qed
  qed
  have o: "Index (pre @ fence_open @ message @ ticks @ trailer) fence_open = Some (length pre)"
    by (rule first [OF pre]) (simp add: fence_open_def ticks_def)
  have t: "Index (message @ ticks @ trailer) ticks = Some (length message)"
    by (rule first [OF msg]) (simp add: ticks_def)
  show ?thesis using o t by (simp add: httpFence_FindStringSubmatch_def fence_def Let_def)
qed

subsection \<open>The origin\<close>

lemma no_empty_line: "\<forall>l\<in>set ls. l \<noteq> [] \<and> nl \<notin> set l \<Longrightarrow> \<not> sublist [nl, nl] (concat (map (\<lambda>l. l @ [nl]) ls))"
proof (induction ls)
  case (Cons l ls)
  let ?r = "concat (map (\<lambda>l. l @ [nl]) ls)"
  have h: "?r = [] \<or> hd ?r \<noteq> nl" using Cons.prems by (cases ls) (auto simp: hd_append dest: hd_in_set)
  have "\<not> sublist [nl, nl] (l @ nl # ?r)" if "nl \<notin> set l" "\<not> sublist [nl, nl] ?r" for l
    using that(1)
  proof (induction l)
    case Nil
    with h that(2) show ?case by (cases ?r) (auto simp: sublist_Cons_right)
  qed (auto simp: sublist_Cons_right)
  with Cons show ?case by simp
qed simp

lemma Index_blank_line:
  assumes "\<not> sublist [nl, nl] (p @ [nl])"
  shows "Index (p @ nl # nl # rest) [nl, nl] = Some (length p)"
proof -
  have "Index (p @ [nl, nl] @ rest) [nl, nl] = Some (length p)"
  proof (rule Index_append_first)
    fix j assume j: "j < length p"
    show "\<not> prefix [nl, nl] (drop j p @ [nl, nl] @ rest)"
    proof
      assume "prefix [nl, nl] (drop j p @ [nl, nl] @ rest)"
      then have "prefix [nl, nl] (drop j p @ [nl])"
        using j by (cases "drop j p"; cases "tl (drop j p)") auto
      then have "sublist [nl, nl] (drop j (p @ [nl]))" using j by (simp add: prefix_imp_sublist)
      with assms show False by (meson sublist_drop sublist_order.order_trans)
    qed
  qed
  then show ?thesis by simp
qed

lemma originFromAddCheckpoint_body:
  assumes "\<not> sublist [nl, nl] (proof @ [nl])" "origin \<noteq> []" "nl \<notin> set origin"
  shows "originFromAddCheckpoint (proof @ [nl, nl] @ origin @ [nl] @ rest) = Inr origin"
  using Index_blank_line [OF assms(1), of "origin @ nl # rest"] assms(2,3) Cut_char [of nl origin rest]
  by (simp add: originFromAddCheckpoint_def Cut_def)

end
