(* ===== verification/Issue_Transport.thy ===== *)
theory Issue_Transport
  imports Witness_Message
begin

section \<open>The github-issue transport (\<^verbatim>\<open>internal/witness/issuetransport.go\<close>)\<close>

text \<open>
  One exchange over a GitHub issue: the request becomes an issue, the reply is polled for.
  GitHub's API, \<^verbatim>\<open>net/http\<close>'s serialisation and parsing, the timer and the clock are
  parameters (\<open>issue_env\<close>). Durations and instants are nanoseconds. The polling loop may not
  end, so it is a partial function; that a deadline ends it is proved.
\<close>

definition IssueScheme :: string where
  "IssueScheme = ''github-issue''"

record http_request =
  r_URL :: url
  r_Host :: string
  r_Header :: "(string \<times> string) list"
  r_Body :: "string res"
  r_ContentLength :: nat

text \<open>A GitHub client: the API root it sends to, and the token it sends.\<close>

record github_client =
  gh_BaseURL :: url
  gh_Token :: string

record ('w, 'resp) issue_env =
  ie_Create :: "github_client \<Rightarrow> string \<Rightarrow> string \<Rightarrow> string \<Rightarrow> string \<Rightarrow> ('w, int) io"
  ie_Get :: "github_client \<Rightarrow> string \<Rightarrow> string \<Rightarrow> int \<Rightarrow> ('w, string) io"
  ie_ListComments :: "github_client \<Rightarrow> string \<Rightarrow> string \<Rightarrow> int \<Rightarrow> int \<Rightarrow> ('w, string list \<times> int) io"
  ie_wait :: "int \<Rightarrow> ('w, unit) io"  \<comment> \<open>the timer of \<open>sleep\<close> against the context's end\<close>
  ie_now :: "'w \<Rightarrow> int"
  ie_Write :: "http_request \<Rightarrow> string res"
  ie_ReadResponse :: "string \<Rightarrow> http_request \<Rightarrow> 'resp res"
  ie_Getenv :: "string \<Rightarrow> string"
  ie_Parse :: "string \<Rightarrow> url res"

record transport =
  t_API :: "url option"
  t_Token :: string
  t_Poll :: int

definition Second :: int where "Second = 1000000000"
definition Minute :: int where "Minute = 60 * Second"

subsection \<open>Addressing and the request\<close>

definition issueTarget :: "url \<Rightarrow> (string \<times> string) res" where
  "issueTarget u =
     (let owner = url_Host u;
          repo = Trim (url_Path u) ''/'';
          repo = (case Index repo ''/'' of Some i \<Rightarrow> take i repo | None \<Rightarrow> repo)
      in if owner = [] \<or> repo = [] then
           Inl (Errorf ''witness URL %q names no owner and repository'' [FStr (url_Scheme u), FStr (url_Host u), FStr (url_Path u)])
         else Inr (owner, repo))"

definition Header_Set :: "(string \<times> string) list \<Rightarrow> string \<Rightarrow> string \<Rightarrow> (string \<times> string) list" where
  "Header_Set h k v = filter (\<lambda>(k', _). k' \<noteq> k) h @ [(k, v)]"

definition issueRequest :: "('w, 'resp) issue_env \<Rightarrow> http_request \<Rightarrow> (string \<times> string) res" where
  "issueRequest E req =
     rbind (rwrap ''reading request body: %w'' [] (r_Body req)) (\<lambda>body.
     rbind (originFromAddCheckpoint body) (\<lambda>origin.
       let out = req\<lparr>r_URL := \<lparr>url_Scheme = [], url_Host = [], url_Path = AddCheckpointPath\<rparr>,
                     r_Host := MessageHost, r_Body := Inr body, r_ContentLength := length body,
                     r_Header := Header_Set (r_Header req) ''User-Agent'' []\<rparr>
       in rbind (MarshalMessage (ie_Write E out)) (\<lambda>message. Inr (message, origin))))"

definition DefaultAPIRoot :: "('w, 'resp) issue_env \<Rightarrow> url" where
  "DefaultAPIRoot E =
     (let env = ie_Getenv E ''GITHUB_API_URL'';
          default_root = \<lparr>url_Scheme = ''https'', url_Host = ''api.github.com'', url_Path = []\<rparr>
      in if env \<noteq> [] then
           (case ie_Parse E env of Inr u \<Rightarrow> (if url_Host u \<noteq> [] then u else default_root)
            | Inl _ \<Rightarrow> default_root)
         else default_root)"

definition apiRoot :: "('w, 'resp) issue_env \<Rightarrow> transport \<Rightarrow> url" where
  "apiRoot E t =
     (let u = (case t_API t of None \<Rightarrow> DefaultAPIRoot E | Some u \<Rightarrow> u)
      in if \<not> HasSuffix (url_Path u) ''/'' then u\<lparr>url_Path := url_Path u @ ''/''\<rparr> else u)"

definition github :: "('w, 'resp) issue_env \<Rightarrow> transport \<Rightarrow> github_client" where
  "github E t = \<lparr>gh_BaseURL = apiRoot E t, gh_Token = t_Token t\<rparr>"

subsection \<open>Polling\<close>

fun errors_As_RateLimitError :: "goerr \<Rightarrow> int option" where
  "errors_As_RateLimitError (RateLimitError reset) = Some reset"
| "errors_As_RateLimitError (Wrapf f a e) = errors_As_RateLimitError e"
| "errors_As_RateLimitError _ = None"

fun errors_As_AbuseRateLimitError :: "goerr \<Rightarrow> int option option" where
  "errors_As_AbuseRateLimitError (AbuseRateLimitError after) = Some after"
| "errors_As_AbuseRateLimitError (Wrapf f a e) = errors_As_AbuseRateLimitError e"
| "errors_As_AbuseRateLimitError _ = None"

text \<open>\<open>time.Until(reset)\<close> is the reset instant less the current one.\<close>

definition rateLimitPause :: "('w, 'resp) issue_env \<Rightarrow> goerr \<Rightarrow> 'w \<Rightarrow> int option" where
  "rateLimitPause E err w =
     (case errors_As_RateLimitError err of
        Some reset \<Rightarrow> Some (reset - ie_now E w)
      | None \<Rightarrow>
          (case errors_As_AbuseRateLimitError err of
             Some (Some retryAfter) \<Rightarrow> Some retryAfter
           | Some None \<Rightarrow> Some Minute
           | None \<Rightarrow> None))"

definition sleep :: "('w, 'resp) issue_env \<Rightarrow> int \<Rightarrow> ('w, unit) io" where
  "sleep E d =
     ewrap ''waiting for a response: %w'' [] (ie_wait E (if d \<le> 0 then Second else d))"

definition createIssue :: "('w, 'resp) issue_env \<Rightarrow> transport \<Rightarrow> string \<Rightarrow> string \<Rightarrow> string \<Rightarrow> string \<Rightarrow> ('w, int) io" where
  "createIssue E t owner repo title body =
     ewrap ''creating issue on %s/%s: %w'' [FStr owner, FStr repo] (ie_Create E (github E t) owner repo title body)"

text \<open>
  The pages of comments. A listing names the next page, or zero for none; \<open>fuel\<close> bounds the
  pages read in one poll.
\<close>

fun list_pages :: "('w, 'resp) issue_env \<Rightarrow> github_client \<Rightarrow> string \<Rightarrow> string \<Rightarrow> int \<Rightarrow> nat \<Rightarrow> int \<Rightarrow> string list \<Rightarrow> 'w
                   \<Rightarrow> (string list res \<times> 'w) option" where
  "list_pages E c owner repo number 0 page comments w = None"
| "list_pages E c owner repo number (Suc fuel) page comments w =
     (case ie_ListComments E c owner repo number page w of
        (Inl err, w1) \<Rightarrow> Some (Inl err, w1)
      | (Inr (bodies, next_page), w1) \<Rightarrow>
          (if next_page = 0 then Some (Inr (comments @ bodies), w1)
           else list_pages E c owner repo number fuel next_page (comments @ bodies) w1))"

definition readIssue :: "('w, 'resp) issue_env \<Rightarrow> transport \<Rightarrow> string \<Rightarrow> string \<Rightarrow> int \<Rightarrow> nat \<Rightarrow> 'w
                         \<Rightarrow> ((string list \<times> bool) res \<times> 'w) option" where
  "readIssue E t owner repo number fuel w =
     (case ie_Get E (github E t) owner repo number w of
        (Inl err, w1) \<Rightarrow> Some (Inl err, w1)
      | (Inr state, w1) \<Rightarrow>
          (case list_pages E (github E t) owner repo number fuel 0 [] w1 of
             None \<Rightarrow> None
           | Some (Inl err, w2) \<Rightarrow> Some (Inl err, w2)
           | Some (Inr comments, w2) \<Rightarrow> Some (Inr (comments, state = ''closed''), w2)))"

fun first_reply :: "string list \<Rightarrow> string option" where
  "first_reply [] = None"
| "first_reply (c # cs) =
     (case httpFence_FindStringSubmatch c of Some m \<Rightarrow> Some m | None \<Rightarrow> first_reply cs)"

definition poll_interval :: "transport \<Rightarrow> int" where
  "poll_interval t = (if t_Poll t = 0 then 5 * Second else t_Poll t)"

text \<open>One turn of the loop: an answer, or how long to wait before the next.\<close>

definition poll_once :: "('w, 'resp) issue_env \<Rightarrow> transport \<Rightarrow> string \<Rightarrow> string \<Rightarrow> int \<Rightarrow> nat \<Rightarrow> 'w
                         \<Rightarrow> ((string res + int) \<times> 'w) option" where
  "poll_once E t owner repo number fuel w =
     (case readIssue E t owner repo number fuel w of
        None \<Rightarrow> None
      | Some (Inl err, w1) \<Rightarrow>
          (case rateLimitPause E err w1 of
             None \<Rightarrow> Some (Inl (Inl err), w1)
           | Some pause \<Rightarrow> Some (Inr (min pause (poll_interval t * 12)), w1))
      | Some (Inr (comments, closed), w1) \<Rightarrow>
          (case first_reply comments of
             Some m \<Rightarrow> Some (Inl (Inr m), w1)
           | None \<Rightarrow>
               if closed then
                 Some (Inl (Inl (Errorf ''witness closed the issue without a response: %s''
                        [FStr (TrimSpace (Join comments ''; ''))])), w1)
               else Some (Inr (poll_interval t), w1)))"

partial_function (option) awaitReply ::
    "('w, 'resp) issue_env \<Rightarrow> transport \<Rightarrow> string \<Rightarrow> string \<Rightarrow> int \<Rightarrow> nat \<Rightarrow> 'w \<Rightarrow> (string res \<times> 'w) option" where
  "awaitReply E t owner repo number fuel w =
     (case poll_once E t owner repo number fuel w of
        None \<Rightarrow> None
      | Some (Inl r, w1) \<Rightarrow> Some (r, w1)
      | Some (Inr d, w1) \<Rightarrow>
          (case sleep E d w1 of
             (Inl err, w2) \<Rightarrow> Some (Inl err, w2)
           | (Inr _, w2) \<Rightarrow> awaitReply E t owner repo number fuel w2))"

declare awaitReply.simps [code]

definition RoundTrip ::
    "('w, 'resp) issue_env \<Rightarrow> transport \<Rightarrow> nat \<Rightarrow> http_request \<Rightarrow> 'w \<Rightarrow> ('resp res \<times> 'w) option" where
  "RoundTrip E t fuel req w =
     (case issueTarget (r_URL req) of
        Inl err \<Rightarrow> Some (Inl err, w)
      | Inr (owner, repo) \<Rightarrow>
          (case issueRequest E req of
             Inl err \<Rightarrow> Some (Inl err, w)
           | Inr (message, origin) \<Rightarrow>
               (case createIssue E t owner repo (''checkpoint: '' @ origin) (fence message) w of
                  (Inl err, w1) \<Rightarrow> Some (Inl err, w1)
                | (Inr number, w1) \<Rightarrow>
                    (case awaitReply E t owner repo number fuel w1 of
                       None \<Rightarrow> None
                     | Some (Inl err, w2) \<Rightarrow>
                         Some (Inl (wrap_err ''%s://%s/%s#%d: %w''
                                 [FStr IssueScheme, FStr owner, FStr repo, FInt number] err), w2)
                     | Some (Inr reply, w2) \<Rightarrow> Some (ie_ReadResponse E reply req, w2)))))"

subsection \<open>The loop ends by the deadline\<close>

text \<open>
  The context has a deadline. A wait that succeeds began before it, for the context of a later one is
  done already, and took at least the time asked for; where the timer and the context are ready
  together, \<^verbatim>\<open>select\<close> may take either. Asking GitHub does not turn the clock back.
\<close>

definition clock_contract :: "('w, 'resp) issue_env \<Rightarrow> int \<Rightarrow> bool" where
  "clock_contract E deadline \<longleftrightarrow>
     (\<forall>d w. 0 < d \<longrightarrow> (case ie_wait E d w of
        (Inl _, w') \<Rightarrow> True | (Inr _, w') \<Rightarrow> ie_now E w < deadline \<and> ie_now E w + d \<le> ie_now E w')) \<and>
     (\<forall>c o' r n w. ie_now E w \<le> ie_now E (snd (ie_Get E c o' r n w))) \<and>
     (\<forall>c o' r n p w. ie_now E w \<le> ie_now E (snd (ie_ListComments E c o' r n p w)))"

text \<open>
  What is done under the context ends with it: a request to GitHub or a wait ends no later than \<open>late\<close> after
  the deadline or, if it began after that, no later than \<open>late\<close> after it began.
\<close>

definition prompt_contract :: "('w, 'resp) issue_env \<Rightarrow> int \<Rightarrow> int \<Rightarrow> bool" where
  "prompt_contract E deadline late \<longleftrightarrow> 0 \<le> late \<and>
     (\<forall>d w. ie_now E (snd (ie_wait E d w)) \<le> max (ie_now E w) deadline + late) \<and>
     (\<forall>c o' r n w. ie_now E (snd (ie_Get E c o' r n w)) \<le> max (ie_now E w) deadline + late) \<and>
     (\<forall>c o' r n p w. ie_now E (snd (ie_ListComments E c o' r n p w)) \<le> max (ie_now E w) deadline + late)"

text \<open>
  The pages of one poll. That the fuel is enough follows where GitHub numbers the pages: the next
  page comes after the one asked for, and an issue has fewer than \<open>fuel\<close> of them.
\<close>

definition pages_contract :: "('w, 'resp) issue_env \<Rightarrow> nat \<Rightarrow> bool" where
  "pages_contract E fuel \<longleftrightarrow>
     (\<forall>c owner repo number w. list_pages E c owner repo number fuel 0 [] w \<noteq> None)"

definition numbered_pages :: "('w, 'resp) issue_env \<Rightarrow> nat \<Rightarrow> bool" where
  "numbered_pages E fuel \<longleftrightarrow> 0 < fuel \<and> (\<forall>c owner repo number page w.
     case ie_ListComments E c owner repo number page w of
       (Inr (_, next_page), _) \<Rightarrow> next_page = 0 \<or> page < next_page \<and> next_page < int fuel
     | (Inl _, _) \<Rightarrow> True)"

lemma list_pages_numbered:
  assumes "numbered_pages E fuel"
  shows "page < int fuel \<Longrightarrow> int fuel - page \<le> int n \<Longrightarrow> list_pages E c owner repo number n page cs w \<noteq> None"
proof (induction n arbitrary: page cs w)
  case (Suc n)
  obtain x w1 where x: "ie_ListComments E c owner repo number page w = (x, w1)" by force
  have "case ie_ListComments E c owner repo number page w of
       (Inr (_, next_page), _) \<Rightarrow> next_page = 0 \<or> page < next_page \<and> next_page < int fuel
     | (Inl _, _) \<Rightarrow> True"
    by (rule assms [unfolded numbered_pages_def, THEN conjunct2, THEN spec, THEN spec, THEN spec, THEN spec, THEN spec, THEN spec])
  then have p: "x = Inr (bodies, k) \<Longrightarrow> k = 0 \<or> page < k \<and> k < int fuel" for bodies k by (simp add: x)
  show ?case
  proof (cases x)
    case (Inr y)
    obtain bodies k where y: "y = (bodies, k)" by force
    note k = p [OF Inr [unfolded y]]
    show ?thesis
    proof (cases "k = 0")
      case False
      then have "page < k" "k < int fuel" using k by simp_all
      then have "list_pages E c owner repo number n k (cs @ bodies) w1 \<noteq> None"
        using Suc.prems(2) by (intro Suc.IH) simp_all
      then show ?thesis using False by (simp add: x Inr y)
    qed (simp add: x Inr y)
  qed (simp add: x)
qed simp

lemma numbered_pages_enough:
  assumes "numbered_pages E fuel"
  shows "pages_contract E fuel"
proof -
  have "0 < fuel" using assms by (simp add: numbered_pages_def)
  then show ?thesis unfolding pages_contract_def by (intro allI list_pages_numbered [OF assms]) simp_all
qed

lemma list_pages_clock:
  assumes "clock_contract E deadline"
  shows "list_pages E c owner repo number fuel page cs w = Some (r, w') \<Longrightarrow> ie_now E w \<le> ie_now E w'"
proof (induction fuel arbitrary: page cs w)
  case (Suc fuel)
  obtain x w1 where x: "ie_ListComments E c owner repo number page w = (x, w1)" by force
  have "ie_now E w \<le> ie_now E (snd (ie_ListComments E c owner repo number page w))"
    using assms unfolding clock_contract_def by blast
  then have "ie_now E w \<le> ie_now E w1" by (simp add: x)
  with Suc x show ?case by (auto split: sum.splits prod.splits if_splits intro: order_trans)
qed simp

lemma readIssue_clock:
  assumes "clock_contract E deadline" "readIssue E t owner repo number fuel w = Some (r, w')"
  shows "ie_now E w \<le> ie_now E w'"
proof -
  obtain x w1 where x: "ie_Get E (github E t) owner repo number w = (x, w1)" by force
  have "ie_now E w \<le> ie_now E (snd (ie_Get E (github E t) owner repo number w))"
    using assms(1) unfolding clock_contract_def by blast
  then have "ie_now E w \<le> ie_now E w1" by (simp add: x)
  with assms(2) x list_pages_clock [OF assms(1)] show ?thesis
    by (fastforce simp: readIssue_def split: sum.splits option.splits prod.splits)
qed

lemma readIssue_Some: "pages_contract E fuel \<Longrightarrow> \<exists>r. readIssue E t owner repo number fuel w = Some r"
proof -
  assume p: "pages_contract E fuel"
  obtain x w1 where x: "ie_Get E (github E t) owner repo number w = (x, w1)" by force
  from p obtain y w2 where "list_pages E (github E t) owner repo number fuel 0 [] w1 = Some (y, w2)"
    unfolding pages_contract_def by (metis not_Some_eq prod.exhaust)
  with x show ?thesis by (cases x; cases y) (auto simp: readIssue_def)
qed

lemma poll_once_clock:
  "clock_contract E deadline \<Longrightarrow> poll_once E t owner repo number fuel w = Some (r, w') \<Longrightarrow> ie_now E w \<le> ie_now E w'"
  by (auto simp: poll_once_def dest!: readIssue_clock split: option.splits sum.splits prod.splits if_splits)

lemma poll_once_Some: "pages_contract E fuel \<Longrightarrow> \<exists>r. poll_once E t owner repo number fuel w = Some r"
  using readIssue_Some [of E fuel t owner repo number w]
  by (auto simp: poll_once_def split: option.split sum.split)

lemma awaitReply_step:
  assumes "poll_once E t owner repo number fuel w = Some (x, w1)"
  shows "awaitReply E t owner repo number fuel w =
    (case x of Inl r \<Rightarrow> Some (r, w1)
     | Inr d \<Rightarrow> (case ie_wait E (if d \<le> 0 then Second else d) w1 of
         (Inl err, w2) \<Rightarrow> Some (Inl (wrap_err ''waiting for a response: %w'' [] err), w2)
       | (Inr _, w2) \<Rightarrow> awaitReply E t owner repo number fuel w2))"
  using assms by (subst awaitReply.simps) (auto simp: sleep_def ewrap_def split: sum.split prod.split)

text \<open>A wait that succeeds brings the deadline nearer.\<close>

lemma wait_progress:
  assumes c: "clock_contract E deadline" and x: "poll_once E t owner repo number fuel w = Some (Inr d, w1)"
    and s: "ie_wait E (if d \<le> 0 then Second else d) w1 = (Inr u, w2)"
  shows "ie_now E w1 < deadline" "nat (deadline - ie_now E w2) < nat (deadline - ie_now E w)"
proof -
  let ?d = "if d \<le> 0 then Second else d"
  have d: "0 < ?d" by (simp add: Second_def)
  have "case ie_wait E ?d w1 of (Inl _, w') \<Rightarrow> True
      | (Inr _, w') \<Rightarrow> ie_now E w1 < deadline \<and> ie_now E w1 + ?d \<le> ie_now E w'"
    by (rule c [unfolded clock_contract_def, THEN conjunct1, rule_format, OF d])
  then have w2: "ie_now E w1 < deadline" "ie_now E w1 + ?d \<le> ie_now E w2" unfolding s by simp_all
  then show "ie_now E w1 < deadline" "nat (deadline - ie_now E w2) < nat (deadline - ie_now E w)"
    using d poll_once_clock [OF c x] by linarith+
qed

lemma awaitReply_terminates:
  assumes c: "clock_contract E deadline" and p: "pages_contract E fuel"
  shows "\<exists>r w'. awaitReply E t owner repo number fuel w = Some (r, w')"
proof (induction "nat (deadline - ie_now E w)" arbitrary: w rule: less_induct)
  case less
  obtain x w1 where x: "poll_once E t owner repo number fuel w = Some (x, w1)"
    using poll_once_Some [OF p] by fast
  show ?case
  proof (cases x)
    case (Inr d)
    obtain r w2 where s: "ie_wait E (if d \<le> 0 then Second else d) w1 = (r, w2)" by force
    show ?thesis
    proof (cases r)
      case ok: (Inr u)
      from less [OF wait_progress(2) [OF c x [unfolded Inr] s [unfolded ok]]] show ?thesis
        unfolding awaitReply_step [OF x] Inr sum.case s ok prod.case .
    qed (simp add: awaitReply_step [OF x] Inr s)
  qed (simp add: awaitReply_step [OF x])
qed

subsection \<open>How late it can be\<close>

lemma list_pages_prompt:
  assumes "prompt_contract E deadline late"
  shows "list_pages E c owner repo number n page cs w = Some (r, w') \<Longrightarrow> deadline \<le> y \<Longrightarrow> ie_now E w \<le> y \<Longrightarrow>
    ie_now E w' \<le> y + int n * late"
proof (induction n arbitrary: page cs w y)
  case (Suc n)
  obtain x w1 where x: "ie_ListComments E c owner repo number page w = (x, w1)" by force
  note P = assms [unfolded prompt_contract_def]
  have "ie_now E (snd (ie_ListComments E c owner repo number page w)) \<le> max (ie_now E w) deadline + late"
    by (rule P [THEN conjunct2, THEN conjunct2, THEN conjunct2, rule_format])
  then have w1: "ie_now E w1 \<le> y + late" using Suc.prems(2,3) by (simp add: x)
  have late: "0 \<le> late" by (rule P [THEN conjunct1])
  have m: "int (Suc n) * late = late + int n * late" "0 \<le> int n * late" using late by (simp_all add: algebra_simps)
  show ?case
  proof (cases "\<exists>bodies k. x = Inr (bodies, k) \<and> k \<noteq> 0")
    case True
    then obtain bodies k where k: "x = Inr (bodies, k)" "k \<noteq> 0" by blast
    with Suc.prems(1) x have "list_pages E c owner repo number n k (cs @ bodies) w1 = Some (r, w')" by simp
    from Suc.IH [OF this _ w1] Suc.prems(2) late show ?thesis unfolding m(1) by linarith
  next
    case False
    with Suc.prems(1) x have "w' = w1" by (auto split: sum.splits)
    then show ?thesis using w1 m(2) unfolding m(1) by simp
  qed
qed simp

lemma readIssue_prompt:
  assumes P: "prompt_contract E deadline late" and r: "readIssue E t owner repo number fuel w = Some (r, w')"
    and y: "deadline \<le> y" "ie_now E w \<le> y"
  shows "ie_now E w' \<le> y + (int fuel + 1) * late"
proof -
  obtain x w1 where x: "ie_Get E (github E t) owner repo number w = (x, w1)" by force
  have "ie_now E (snd (ie_Get E (github E t) owner repo number w)) \<le> max (ie_now E w) deadline + late"
    by (rule P [unfolded prompt_contract_def, THEN conjunct2, THEN conjunct2, THEN conjunct1, rule_format])
  then have w1: "ie_now E w1 \<le> y + late" using y by (simp add: x)
  have late: "0 \<le> late" by (rule P [unfolded prompt_contract_def, THEN conjunct1])
  have m: "(int fuel + 1) * late = late + int fuel * late" "0 \<le> int fuel * late" using late by (simp_all add: algebra_simps)
  show ?thesis
  proof (cases x)
    case (Inl e)
    with r x have "w' = w1" by (simp add: readIssue_def)
    then show ?thesis using w1 m(2) unfolding m(1) by simp
  next
    case (Inr state)
    with r x obtain z where "list_pages E (github E t) owner repo number fuel 0 [] w1 = Some (z, w')"
      by (auto simp: readIssue_def split: option.splits prod.splits sum.splits)
    from list_pages_prompt [OF P this _ w1] y(1) late show ?thesis unfolding m(1) by linarith
  qed
qed

lemma poll_once_prompt:
  assumes "prompt_contract E deadline late" "poll_once E t owner repo number fuel w = Some (r, w')"
    "deadline \<le> y" "ie_now E w \<le> y"
  shows "ie_now E w' \<le> y + (int fuel + 1) * late"
proof -
  obtain z where "readIssue E t owner repo number fuel w = Some (z, w')"
    using assms(2) by (auto simp: poll_once_def split: option.splits sum.splits prod.splits if_splits)
  from readIssue_prompt [OF assms(1) this assms(3,4)] show ?thesis .
qed

lemma awaitReply_by_deadline:
  assumes c: "clock_contract E deadline" and P: "prompt_contract E deadline late" and p: "pages_contract E fuel"
    and y: "deadline \<le> y"
  shows "ie_now E w \<le> y + late \<Longrightarrow>
    \<exists>r w'. awaitReply E t owner repo number fuel w = Some (r, w') \<and> ie_now E w' \<le> y + (int fuel + 3) * late"
proof (induction "nat (deadline - ie_now E w)" arbitrary: w rule: less_induct)
  case less
  have late: "0 \<le> late" by (rule P [unfolded prompt_contract_def, THEN conjunct1])
  have m: "(int fuel + 3) * late = late + (int fuel + 1) * late + late" by (simp add: algebra_simps)
  have wait: "ie_now E (snd (ie_wait E d w)) \<le> max (ie_now E w) deadline + late" for d w
    by (rule P [unfolded prompt_contract_def, THEN conjunct2, THEN conjunct1, rule_format])
  obtain x w1 where x: "poll_once E t owner repo number fuel w = Some (x, w1)"
    using poll_once_Some [OF p] by fast
  have w1: "ie_now E w1 \<le> y + late + (int fuel + 1) * late"
    using poll_once_prompt [OF P x, of "y + late"] y late less.prems by linarith
  show ?case
  proof (cases x)
    case (Inl r)
    with w1 late show ?thesis unfolding awaitReply_step [OF x] m by simp
  next
    case (Inr d)
    let ?d = "if d \<le> 0 then Second else d"
    obtain r w2 where s: "ie_wait E ?d w1 = (r, w2)" by force
    have w2: "ie_now E w2 \<le> max (ie_now E w1) deadline + late" using wait [of ?d w1] by (simp add: s)
    show ?thesis
    proof (cases r)
      case (Inl e)
      have "0 \<le> (int fuel + 1) * late" using late by simp
      then have "ie_now E w2 \<le> y + (int fuel + 3) * late" using w1 w2 y late unfolding m by linarith
      then show ?thesis unfolding awaitReply_step [OF x] Inr sum.case s Inl prod.case by blast
    next
      case ok: (Inr u)
      note pr = wait_progress [OF c x [unfolded Inr] s [unfolded ok]]
      have "ie_now E w2 \<le> y + late" using pr(1) w2 y by linarith
      from less.hyps [OF pr(2) this] show ?thesis unfolding awaitReply_step [OF x] Inr sum.case s ok prod.case .
    qed
  qed
qed

subsection \<open>Where a reply comes from\<close>

text \<open>A message that was found in a listing of all the comments of the issue.\<close>

definition listed_reply :: "('w, 'resp) issue_env \<Rightarrow> transport \<Rightarrow> string \<Rightarrow> string \<Rightarrow> int \<Rightarrow> nat \<Rightarrow> string \<Rightarrow> bool" where
  "listed_reply E t owner repo number fuel m \<longleftrightarrow>
     (\<exists>w w' comments. list_pages E (github E t) owner repo number fuel 0 [] w = Some (Inr comments, w') \<and>
        first_reply comments = Some m)"

lemma poll_once_listed:
  "poll_once E t owner repo number fuel w = Some (Inl (Inr m), w') \<Longrightarrow> listed_reply E t owner repo number fuel m"
  by (fastforce simp: poll_once_def readIssue_def listed_reply_def split: option.splits sum.splits prod.splits if_splits)

lemma awaitReply_listed:
  "awaitReply E t owner repo number fuel w = Some y \<Longrightarrow> fst y = Inr m \<Longrightarrow> listed_reply E t owner repo number fuel m"
proof (induction E t owner repo number fuel w y rule: awaitReply.raw_induct [rotated, consumes 1, case_names step])
  case (step await' E t owner repo number fuel w y)
  then show ?case by (auto split: option.splits prod.splits sum.splits intro: poll_once_listed)
qed

text \<open>An issue on which a single message is ever posted: no other comment holds a fence.\<close>

definition sole_reply :: "('w, 'resp) issue_env \<Rightarrow> string \<Rightarrow> string \<Rightarrow> int \<Rightarrow> string \<Rightarrow> bool" where
  "sole_reply E owner repo number posted \<longleftrightarrow>
     (\<forall>c page w. case ie_ListComments E c owner repo number page w of
        (Inr (bodies, _), _) \<Rightarrow> \<forall>b\<in>set bodies. b = posted \<or> httpFence_FindStringSubmatch b = None
      | (Inl _, _) \<Rightarrow> True)"

lemma list_pages_sole:
  assumes "sole_reply E owner repo number posted"
  shows "list_pages E c owner repo number fuel page cs w = Some (Inr comments, w') \<Longrightarrow>
     \<forall>b\<in>set cs. b = posted \<or> httpFence_FindStringSubmatch b = None \<Longrightarrow>
     \<forall>b\<in>set comments. b = posted \<or> httpFence_FindStringSubmatch b = None"
proof (induction fuel arbitrary: page cs w)
  case (Suc fuel)
  obtain x w1 where x: "ie_ListComments E c owner repo number page w = (x, w1)" by force
  with Suc.prems(1) obtain bodies n where b: "x = Inr (bodies, n)" by (cases x) auto
  have "case ie_ListComments E c owner repo number page w of
      (Inr (bodies, _), _) \<Rightarrow> \<forall>b\<in>set bodies. b = posted \<or> httpFence_FindStringSubmatch b = None | (Inl _, _) \<Rightarrow> True"
    by (rule assms [unfolded sole_reply_def, THEN spec, THEN spec, THEN spec])
  with x b have p: "\<forall>b\<in>set (cs @ bodies). b = posted \<or> httpFence_FindStringSubmatch b = None"
    using Suc.prems(2) by auto
  show ?case
  proof (cases "n = 0")
    case True
    with Suc.prems(1) x b p show ?thesis by simp
  next
    case False
    with Suc.prems(1) x b have "list_pages E c owner repo number fuel n (cs @ bodies) w1 = Some (Inr comments, w')" by simp
    from Suc.IH [OF this p] show ?thesis .
  qed
qed simp

lemma first_reply_Some: "first_reply cs = Some m \<Longrightarrow> \<exists>c\<in>set cs. httpFence_FindStringSubmatch c = Some m"
  by (induction cs) (auto split: option.splits)

lemma awaitReply_sole:
  assumes "sole_reply E owner repo number posted" "awaitReply E t owner repo number fuel w = Some (Inr m, w')"
  shows "httpFence_FindStringSubmatch posted = Some m"
proof -
  from awaitReply_listed [OF assms(2) fst_conv] obtain w1 w2 comments
    where l: "list_pages E (github E t) owner repo number fuel 0 [] w1 = Some (Inr comments, w2)"
      and "first_reply comments = Some m" unfolding listed_reply_def by blast
  from first_reply_Some [OF this(2)] obtain c where "c \<in> set comments" "httpFence_FindStringSubmatch c = Some m" ..
  with list_pages_sole [OF assms(1) l] show ?thesis by auto
qed

end
