(* ===== verification/Main_Cmd.thy ===== *)
theory Main_Cmd
  imports Ratchet_Commands Issue_Transport
begin

section \<open>The command line (\<^verbatim>\<open>main.go\<close>)\<close>

text \<open>
  The three subcommands from their flags to their exit status. What a command prints on
  standard output or standard error is not modelled, except the per-ref outcomes of
  \<^verbatim>\<open>verify\<close>, which are its result. Files, the policy parser and
  \<^verbatim>\<open>url.URL.String\<close> are parameters.
\<close>

datatype ExitStatus = ExitSuccess | ExitFailure | ExitUsageError

text \<open>
  An HTTP transport answers a request, or never returns (\<open>None\<close>). \<open>c_http\<close> is \<^verbatim>\<open>net/http\<close>'s own,
  \<open>c_issues\<close> what the issue transport talks to, \<open>c_Update\<close> the \<^verbatim>\<open>Update\<close> of \<^verbatim>\<open>whttp.NewWitness\<close> over a
  transport, under a context with a timeout.
\<close>

type_synonym ('w, 'resp) round_trip = "http_request \<Rightarrow> 'w \<Rightarrow> ('resp res \<times> 'w) option"

record ('w, 'rng, 'nodes, 'resp) cli =
  c_deps :: "('w, 'rng, 'nodes) deps"
  c_ReadFile :: "string \<Rightarrow> ('w, string) io"
  c_Unmarshal :: "string \<Rightarrow> tlog_policy res"
  c_url_String :: "url \<Rightarrow> string"
  c_http :: "('w, 'resp) round_trip"
  c_issues :: "('w, 'resp) issue_env"
  c_pages :: nat
  c_Update :: "('w, 'resp) round_trip \<Rightarrow> int \<Rightarrow> url \<Rightarrow> uint64 \<Rightarrow> string \<Rightarrow> string list \<Rightarrow> 'w
                \<Rightarrow> (string \<times> uint64 \<times> goerr option) \<times> 'w"

text \<open>
  A transport with a protocol registered for the scheme \<^verbatim>\<open>github-issue\<close>: \<^verbatim>\<open>net/http\<close> hands requests
  with that scheme to it, and serves the others itself.
\<close>

definition witnessClient :: "('w, 'rng, 'nodes, 'resp) cli \<Rightarrow> string \<Rightarrow> ('w, 'resp) round_trip" where
  "witnessClient E githubToken req w =
     (if url_Scheme (r_URL req) = IssueScheme
      then RoundTrip (c_issues E) \<lparr>t_API = None, t_Token = githubToken, t_Poll = 0\<rparr> (c_pages E) req w
      else c_http E req w)"

text \<open>The dependencies of \<^verbatim>\<open>checkpointLog\<close> with the client and the timeout it is called with.\<close>

definition client_deps ::
    "('w, 'rng, 'nodes, 'resp) cli \<Rightarrow> ('w, 'resp) round_trip \<Rightarrow> int \<Rightarrow> ('w, 'rng, 'nodes) deps" where
  "client_deps E client timeout = (c_deps E)\<lparr>d_Update := c_Update E client timeout\<rparr>"

lemma client_deps_simps [simp]:
  "d_os (client_deps E cl t) = d_os (c_deps E)" "d_tessera (client_deps E cl t) = d_tessera (c_deps E)"
  "d_merkle (client_deps E cl t) = d_merkle (c_deps E)" "d_log (client_deps E cl t) = d_log (c_deps E)"
  "d_crypto (client_deps E cl t) = d_crypto (c_deps E)" "d_formats (client_deps E cl t) = d_formats (c_deps E)"
  "d_Update (client_deps E cl t) = c_Update E cl t"
  by (simp_all add: client_deps_def)

fun requireGitHubToken_loop :: "string list \<Rightarrow> unit res" where
  "requireGitHubToken_loop [] = Inr ()"
| "requireGitHubToken_loop (e # es) =
     (if HasPrefix e (IssueScheme @ ''://'') then
        Inl (Errorf ''witness %s needs --github-token: a token that can open an issue on the witness repository''
               [FStr e])
      else requireGitHubToken_loop es)"

definition requireGitHubToken :: "string list \<Rightarrow> string \<Rightarrow> unit res" where
  "requireGitHubToken endpoints token =
     (if token \<noteq> [] then Inr () else requireGitHubToken_loop endpoints)"

lemma requireGitHubToken_loop_iff:
  "requireGitHubToken_loop es = Inr () \<longleftrightarrow> (\<forall>e\<in>set es. \<not> HasPrefix e (IssueScheme @ ''://''))"
  by (induction es) auto

subsection \<open>\<^verbatim>\<open>checkpoint\<close>\<close>

record checkpointCmd =
  cc_origin :: string
  cc_policyPath :: string
  cc_keyPath :: string
  cc_kmsKey :: string
  cc_repoDir :: string
  cc_timeout :: int
  cc_githubToken :: string

definition endpoints_of :: "(url \<Rightarrow> string) \<Rightarrow> tlog_policy \<Rightarrow> string list" where
  "endpoints_of url_String pol =
     List.map_filter (\<lambda>w. map_option url_String (w_URL w)) (pol_Witnesses pol)"

definition checkpointCmd_run ::
    "('w, 'rng, 'nodes, 'resp) cli \<Rightarrow> nat list \<Rightarrow> checkpointCmd \<Rightarrow> string \<Rightarrow> Signer \<Rightarrow> 'w \<Rightarrow> ExitStatus \<times> 'w" where
  "checkpointCmd_run E sched c origin signer w =
     (case FromPath (c_ReadFile E) (c_Unmarshal E) (cc_policyPath c) w of
        (Inl err, w1) \<Rightarrow> (ExitFailure, w1)
      | (Inr pol, w1) \<Rightarrow>
          (case requireGitHubToken (endpoints_of (c_url_String E) pol) (cc_githubToken c) of
             Inl err \<Rightarrow> (ExitUsageError, w1)
           | Inr _ \<Rightarrow>
               (case checkpointLog (client_deps E (witnessClient E (cc_githubToken c)) (cc_timeout c)) sched
                       (cc_repoDir c) origin signer pol w1 of
                  (Inl err, w2) \<Rightarrow> (ExitFailure, w2)
                | (Inr _, w2) \<Rightarrow> (ExitSuccess, w2))))"

definition checkpointCmd_Execute ::
    "('w, 'rng, 'nodes, 'resp) cli \<Rightarrow> nat list \<Rightarrow> checkpointCmd \<Rightarrow> 'w \<Rightarrow> ExitStatus \<times> 'w" where
  "checkpointCmd_Execute E sched c w =
     (if cc_policyPath c = [] \<or> cc_keyPath c = [] \<and> cc_kmsKey c = [] then (ExitUsageError, w)
      else if cc_keyPath c \<noteq> [] \<and> cc_kmsKey c \<noteq> [] then (ExitUsageError, w)
      else if cc_kmsKey c \<noteq> [] \<and> cc_origin c = [] then (ExitUsageError, w)
      else
        (case (if cc_kmsKey c \<noteq> []
               then NewKMSSigner (d_crypto (c_deps E)) (cc_origin c) (cc_kmsKey c) RoleOrigin
               else ReadKeyFile (d_crypto (c_deps E)) (c_ReadFile E) (cc_keyPath c) RoleOrigin) w of
           (Inl err, w1) \<Rightarrow> (ExitFailure, w1)
         | (Inr signer, w1) \<Rightarrow>
             (let origin = (if cc_origin c = [] then s_Name signer else cc_origin c)
              in checkpointCmd_run E sched c origin signer w1)))"

subsection \<open>\<^verbatim>\<open>log\<close>\<close>

fun refs_invalid :: "string list \<Rightarrow> bool" where
  "refs_invalid [] = False"
| "refs_invalid (ref # refs) =
     (case ParseRefKind ref of Inl err \<Rightarrow> True | Inr _ \<Rightarrow> refs_invalid refs)"

record logCmd =
  lc_refs :: "string list"
  lc_repoDir :: string

definition logCmd_Execute :: "('w, 'rng, 'nodes, 'resp) cli \<Rightarrow> logCmd \<Rightarrow> 'w \<Rightarrow> ExitStatus \<times> 'w" where
  "logCmd_Execute E c w =
     (if length (lc_refs c) = 0 then (ExitUsageError, w)
      else if refs_invalid (lc_refs c) then (ExitUsageError, w)
      else (case logRefs (c_deps E) (lc_repoDir c) (lc_refs c) w of
              (Inl err, w1) \<Rightarrow> (ExitFailure, w1)
            | (Inr _, w1) \<Rightarrow> (ExitSuccess, w1)))"

text \<open>\<^verbatim>\<open>stringSlice\<close>, the flag value that collects a repeated flag.\<close>

definition stringSlice_Set :: "string list \<Rightarrow> string \<Rightarrow> string list" where
  "stringSlice_Set s v = s @ [v]"

definition stringSlice_String :: "string list \<Rightarrow> string" where
  "stringSlice_String s = Join s '',''"

subsection \<open>\<^verbatim>\<open>verify\<close>\<close>

record verifyCmd =
  vc_refs :: "string list"
  vc_policyPath :: string
  vc_repoDir :: string

type_synonym verifyResult = "string \<times> goerr option"

definition logFromPolicy :: "('w, 'rng, 'nodes, 'resp) cli \<Rightarrow> string \<Rightarrow> string \<Rightarrow> ('w, glog) io" where
  "logFromPolicy E repoDir policyPath =
     ebind (ewrap ''loading policy: %w'' [] (FromPath (c_ReadFile E) (c_Unmarshal E) policyPath))
       (\<lambda>pol. checkpointedLog (c_deps E) repoDir pol)"

fun verify_each :: "'w os \<Rightarrow> string \<Rightarrow> glog \<Rightarrow> string list \<Rightarrow> 'w \<Rightarrow> verifyResult list \<times> 'w" where
  "verify_each os repoDir l [] w = ([], w)"
| "verify_each os repoDir l (ref # refs) w =
     (case verifySingleRef os repoDir ref l w of
        (r, w1) \<Rightarrow> (case verify_each os repoDir l refs w1 of
          (rs, w2) \<Rightarrow> ((ref, case r of Inl e \<Rightarrow> Some e | Inr _ \<Rightarrow> None) # rs, w2)))"

definition verifyRefs ::
    "('w, 'rng, 'nodes, 'resp) cli \<Rightarrow> string \<Rightarrow> string list \<Rightarrow> string \<Rightarrow> 'w \<Rightarrow> verifyResult list \<times> 'w" where
  "verifyRefs E repoDir refs policyPath w =
     (case logFromPolicy E repoDir policyPath w of
        (Inl err, w1) \<Rightarrow> (map (\<lambda>ref. (ref, Some err)) refs, w1)
      | (Inr l, w1) \<Rightarrow> verify_each (d_os (c_deps E)) repoDir l refs w1)"

definition verifyCmd_Execute ::
    "('w, 'rng, 'nodes, 'resp) cli \<Rightarrow> verifyCmd \<Rightarrow> 'w \<Rightarrow> (ExitStatus \<times> verifyResult list) \<times> 'w" where
  "verifyCmd_Execute E c w =
     (if vc_policyPath c = [] \<or> length (vc_refs c) = 0 then ((ExitUsageError, []), w)
      else if refs_invalid (vc_refs c) then ((ExitUsageError, []), w)
      else (case verifyRefs E (vc_repoDir c) (vc_refs c) (vc_policyPath c) w of
              (results, w1) \<Rightarrow>
                (let failed = length (filter (\<lambda>(ref, err). err \<noteq> None) results)
                 in (((if failed > 0 then ExitFailure else ExitSuccess), results), w1))))"

subsection \<open>What an exit status means\<close>

lemma refs_invalid_iff: "refs_invalid refs \<longleftrightarrow> (\<exists>ref\<in>set refs. \<exists>e. ParseRefKind ref = Inl e)"
  by (induction refs) (auto split: sum.splits)

lemma verifySingleRef_pure:
  "ancestry_contract os dir graph \<Longrightarrow> rev_parse_contract os dir refs \<Longrightarrow> pure_at (verifySingleRef os dir ref l) w"
  unfolding verifySingleRef_def
  by (auto simp: Let_def intro!: pure_intros checkRefChain_pure ResolveRef_state IsAncestor_at)

lemma verify_each_result:
  assumes c: "ancestry_contract os dir graph" "rev_parse_contract os dir refs"
  shows "\<exists>errs. verify_each os dir l rs w = (zip rs errs, w) \<and> length errs = length rs \<and>
    (\<forall>i<length rs. errs ! i = None \<longleftrightarrow> ref_verified (graph w) (refs w) (rs ! i) l)"
proof (induction rs)
  case (Cons r rs)
  then obtain errs where IH: "verify_each os dir l rs w = (zip rs errs, w)" "length errs = length rs"
    "\<forall>i<length rs. errs ! i = None \<longleftrightarrow> ref_verified (graph w) (refs w) (rs ! i) l" by blast
  obtain res where v: "verifySingleRef os dir r l w = (res, w)"
    using pure_atD [OF verifySingleRef_pure [OF c]] by metis
  have "(case res of Inl e \<Rightarrow> Some e | Inr _ \<Rightarrow> None) = None \<longleftrightarrow> ref_verified (graph w) (refs w) r l"
    using v verifySingleRef_iff [OF c, of r l w w] by (cases res) auto
  with v IH show ?case
    by (intro exI [of _ "(case res of Inl e \<Rightarrow> Some e | Inr _ \<Rightarrow> None) # errs"]) (auto simp: less_Suc_eq_0_disj)
qed simp

lemma zip_all_None:
  "length errs = length rs \<Longrightarrow> length (filter (\<lambda>(ref, err). err \<noteq> None) (zip rs errs)) = 0 \<longleftrightarrow>
     (\<forall>i<length rs. errs ! i = None)"
  by (auto simp: filter_empty_conv set_zip)

lemma verifyCmd_success_iff:
  assumes env: "repo_env (c_deps E) (vc_repoDir c) db graph refs"
    and pol: "FromPath (c_ReadFile E) (c_Unmarshal E) (vc_policyPath c) w = (Inr pol, w1)"
    and l: "repo_log (d_tessera (c_deps E)) (db w1) es cp head"
    and args: "vc_policyPath c \<noteq> []" "vc_refs c \<noteq> []" "\<not> refs_invalid (vc_refs c)"
  shows "fst (fst (verifyCmd_Execute E c w)) = ExitSuccess \<longleftrightarrow>
    (\<exists>t. checkpointedLog (c_deps E) (vc_repoDir c) pol w1 = (Inr t, w1) \<and>
       (\<forall>ref\<in>set (vc_refs c). ref_verified (graph w1) (refs w1) ref t))"
proof -
  obtain res where cl: "checkpointedLog (c_deps E) (vc_repoDir c) pol w1 = (res, w1)"
    using pure_atD [OF checkpointedLog_pure [OF env l]] by metis
  show ?thesis
  proof (cases res)
    case (Inl e)
    then have v: "logFromPolicy E (vc_repoDir c) (vc_policyPath c) w = (Inl e, w1)"
      using pol cl by (simp add: logFromPolicy_def ebind_def ewrap_def)
    have "filter (\<lambda>(ref, err). err \<noteq> None) (map (\<lambda>ref. (ref, Some e)) (vc_refs c)) \<noteq> []"
      using args(2) by (cases "vc_refs c") simp_all
    with v args cl Inl show ?thesis by (simp add: verifyCmd_Execute_def verifyRefs_def Let_def)
  next
    case (Inr t)
    then have lp: "logFromPolicy E (vc_repoDir c) (vc_policyPath c) w = (Inr t, w1)"
      using pol cl by (simp add: logFromPolicy_def ebind_def ewrap_def)
    obtain errs where ve: "verify_each (d_os (c_deps E)) (vc_repoDir c) t (vc_refs c) w1 = (zip (vc_refs c) errs, w1)"
      "length errs = length (vc_refs c)"
      "\<forall>i<length (vc_refs c). errs ! i = None \<longleftrightarrow> ref_verified (graph w1) (refs w1) (vc_refs c ! i) t"
      using verify_each_result [OF repo_envD(2,3) [OF env]] by blast
    have "fst (fst (verifyCmd_Execute E c w)) = ExitSuccess \<longleftrightarrow>
        length (filter (\<lambda>(ref, err). err \<noteq> None) (zip (vc_refs c) errs)) = 0"
      using args lp ve(1) by (simp add: verifyCmd_Execute_def verifyRefs_def Let_def)
    also have "\<dots> \<longleftrightarrow> (\<forall>ref\<in>set (vc_refs c). ref_verified (graph w1) (refs w1) ref t)"
      unfolding zip_all_None [OF ve(2)] all_set_conv_all_nth using ve(3) by blast
    finally show ?thesis using cl Inr by simp
  qed
qed

end
