(* ===== verification/Ratchet_Properties.thy ===== *)
theory Ratchet_Properties
  imports Example_Run Main_Cmd
begin

section \<open>Properties of the ratchet\<close>

text \<open>
  What verification accepts, and why what it refuses stays refused (\<^verbatim>\<open>ratchet.go\<close>).
\<close>

text \<open>
  C12: Verifying a ref. \<^verbatim>\<open>verifySingleRef\<close> leaves the repository alone and accepts exactly if the
  ref is a branch or tag with at least one record, its records obey the ratchet, and the local
  object is the last recorded one (a tag) or one of its ancestors (a branch).
\<close>

theorem verify_decides:
  assumes "ancestry_contract os dir graph" "rev_parse_contract os dir refs"
  shows "\<exists>r. verifySingleRef os dir ref l w = (r, w) \<and>
    (r = Inr () \<longleftrightarrow>
       (\<exists>kind rs h. ParseRefKind ref = Inr kind \<and> RefRecords l ref = Inr rs \<and> rs \<noteq> [] \<and>
          ratchet_ok (graph w) kind (objects rs) \<and> refs w ref = Some h \<and>
          (case kind of RefTag \<Rightarrow> h = rr_Object (last rs)
           | RefBranch \<Rightarrow> is_ancestor (graph w) h (rr_Object (last rs)))))"
proof -
  obtain r where "verifySingleRef os dir ref l w = (r, w)"
    using pure_atD [OF verifySingleRef_pure [OF assms]] by metis
  with verifySingleRef_iff [OF assms, of ref l w w] show ?thesis by (simp add: ref_verified_def)
qed

theorem verify_decides_witness:
  "verifySingleRef ex_os ''dir'' ex_main (the_log ''dir'' ex_log_entries [] ''c3'') (ex_repo ex_c1 ex_log_entries [])
     = (Inr (), ex_repo ex_c1 ex_log_entries [])"
  using verify_decides [OF ex_ancestry ex_rev_parse_ok, of "''dir''" ex_main "the_log ''dir'' ex_log_entries [] ''c3''"
      "ex_repo ex_c1 ex_log_entries []"]
    ex_verified [of ex_log_entries "[]" "''dir''" "[]" "''c3''", unfolded ref_verified_def]
  by (elim exE conjE) simp

text \<open>
  What acceptance says of a branch. Every object the branch was recorded at descends from
  every one recorded before it, and the local branch lies in the history of all later records
  from the last one on: nothing recorded was discarded.
\<close>

theorem accepted_branch_history:
  assumes "ancestry_contract os dir graph" "rev_parse_contract os dir refs" "ParseRefKind ref = Inr RefBranch"
  shows "case verifySingleRef os dir ref l w of
      (Inl _, _) \<Rightarrow> True
    | (Inr _, _) \<Rightarrow> (\<exists>rs h. RefRecords l ref = Inr rs \<and> rs \<noteq> [] \<and> refs w ref = Some h \<and>
        is_ancestor (graph w) h (rr_Object (last rs)) \<and>
        (\<forall>i j. i < j \<longrightarrow> j < length rs \<longrightarrow>
           rr_Object (rs ! i) = rr_Object (rs ! j) \<or> is_ancestor (graph w) (rr_Object (rs ! i)) (rr_Object (rs ! j))))"
proof -
  obtain r w' where v: "verifySingleRef os dir ref l w = (r, w')" by fastforce
  show ?thesis
  proof (cases r)
    case (Inr u)
    with v verifySingleRef_iff [OF assms(1,2), of ref l w w'] have "ref_verified (graph w) (refs w) ref l" by simp
    then obtain rs h where rs: "RefRecords l ref = Inr rs" "rs \<noteq> []" "ratchet_ok (graph w) RefBranch (objects rs)"
      "refs w ref = Some h" "is_ancestor (graph w) h (rr_Object (last rs))"
      using assms(3) by (auto simp: ref_verified_def)
    have "rr_Object (rs ! i) = rr_Object (rs ! j) \<or> is_ancestor (graph w) (rr_Object (rs ! i)) (rr_Object (rs ! j))"
      if "i < j" "j < length rs" for i j
      using ratchet_ok_branch_pairs [OF rs(3), of i j] that by simp
    with rs show ?thesis unfolding v Inr prod.case sum.case by blast
  qed (simp add: v)
qed

theorem accepted_branch_history_witness:
  "case verifySingleRef ex_os ''dir'' ex_main (the_log ''dir'' ex_log_entries [] ''c3'') (ex_repo ex_c1 ex_log_entries []) of
     (Inl _, _) \<Rightarrow> True
   | (Inr _, _) \<Rightarrow> (\<exists>rs h. RefRecords (the_log ''dir'' ex_log_entries [] ''c3'') ex_main = Inr rs \<and> rs \<noteq> [] \<and>
       ex_refs (ex_repo ex_c1 ex_log_entries []) ex_main = Some h \<and>
       is_ancestor (ex_graph (ex_repo ex_c1 ex_log_entries [])) h (rr_Object (last rs)) \<and>
       (\<forall>i j. i < j \<longrightarrow> j < length rs \<longrightarrow> rr_Object (rs ! i) = rr_Object (rs ! j) \<or>
          is_ancestor (ex_graph (ex_repo ex_c1 ex_log_entries [])) (rr_Object (rs ! i)) (rr_Object (rs ! j))))"
  by (rule accepted_branch_history [OF ex_ancestry ex_rev_parse_ok ex_main_kind])

text \<open>
  Tags are create-once. A tag is accepted exactly if it was recorded, every record of it names
  one object, however often it was recorded, and the local tag is that object.
\<close>

theorem tag_accepted_iff:
  assumes "ancestry_contract os dir graph" "rev_parse_contract os dir refs" "ParseRefKind ref = Inr RefTag"
  shows "verifySingleRef os dir ref l w = (Inr (), w) \<longleftrightarrow>
    (\<exists>h rs. refs w ref = Some h \<and> RefRecords l ref = Inr rs \<and> rs \<noteq> [] \<and> set (objects rs) = {h})"
proof -
  have tag: "rs \<noteq> [] \<and> ratchet_ok G RefTag (objects rs) \<and> h = rr_Object (last rs) \<longleftrightarrow>
      rs \<noteq> [] \<and> set (objects rs) = {h}" for rs h G
  proof (cases "rs = []")
    case False
    then have "rr_Object (last rs) \<in> set (objects rs)" by simp
    moreover have "x \<in> S \<Longrightarrow> (\<forall>a\<in>S. \<forall>b\<in>S. a = b) \<and> h = x \<longleftrightarrow> S = {h}" for x :: string and S by blast
    ultimately show ?thesis using False unfolding ratchet_ok_def RefKind.case by blast
  qed simp
  have "ref_verified (graph w) (refs w) ref l \<longleftrightarrow>
      (\<exists>rs h. RefRecords l ref = Inr rs \<and> refs w ref = Some h \<and>
         (rs \<noteq> [] \<and> ratchet_ok (graph w) RefTag (objects rs) \<and> h = rr_Object (last rs)))"
    using assms(3) by (auto simp: ref_verified_def)
  then show ?thesis unfolding verifySingleRef_iff [OF assms(1,2)] tag by blast
qed

definition ex_tag :: string where "ex_tag = ''refs/tags/v1''"

definition ex_tag_entry :: "string \<Rightarrow> entry" where
  "ex_tag_entry h = \<lparr>entry_raw = encode_record \<lparr>rr_Ref = ex_tag, rr_Object = h\<rparr>, entry_Type = TypeRefRecord\<rparr>"

definition ex_tagged :: "string \<Rightarrow> ex_world" where
  "ex_tagged h = (ex_start ex_c1)\<lparr>x_refs := [(ex_tag, h)]\<rparr>"

lemma ex_tag_record: "object_ok h \<Longrightarrow> record_ok \<lparr>rr_Ref = ex_tag, rr_Object = h\<rparr>"
  by (auto simp: record_ok_def ex_tag_def ParseRefKind_Inr_iff encode_record_def TypeRefRecord_def
      MaxEntrySize_def object_ok_def tags_prefix_def)

lemma ex_tag_record_of:
  "object_ok h \<Longrightarrow> record_of (ex_tag_entry h) = Some \<lparr>rr_Ref = ex_tag, rr_Object = h\<rparr>"
  "object_ok h \<Longrightarrow> decodable (ex_tag_entry h)"
  by (simp_all add: record_of_def decodable_def ex_tag_entry_def AsRefRecord_encode ex_tag_record)

lemma ex_tag_kind: "ParseRefKind ex_tag = Inr RefTag"
  by (simp add: ParseRefKind_def ex_tag_def tags_prefix_def)

theorem tag_accepted_iff_witness:
  "verifySingleRef ex_os ''dir'' ex_tag (the_log ''dir'' [ex_tag_entry ex_c1, ex_tag_entry ex_c1] [] []) (ex_tagged ex_c1)
     = (Inr (), ex_tagged ex_c1) \<and>
   verifySingleRef ex_os ''dir'' ex_tag (the_log ''dir'' [ex_tag_entry ex_c1, ex_tag_entry ex_c2] [] []) (ex_tagged ex_c1)
     \<noteq> (Inr (), ex_tagged ex_c1)"
proof -
  have "ex_refs (ex_tagged ex_c1) ex_tag = Some ex_c1"
    using ex_commit_id by (simp add: ex_refs_def ex_tagged_def)
  then show ?thesis
    unfolding tag_accepted_iff [OF ex_ancestry ex_rev_parse_ok ex_tag_kind]
    using ex_names by (auto simp: RefRecords_Inr_iff ex_tag_record_of ex_object)
qed

text \<open>
  Repeats. \<^verbatim>\<open>dropRepeats\<close> keeps a subsequence of the records whose objects are the recorded
  objects with adjacent repeats removed, so recording an unmoved ref again changes no verdict.
\<close>

theorem drop_repeats_spec:
  "subseq (dropRepeats rs) rs \<and> objects (dropRepeats rs) = remdups_adj (objects rs) \<and>
   objects (dropRepeats (rs @ [r, r])) = objects (dropRepeats (rs @ [r]))"
proof -
  have "subseq (dropRepeats_after p rs) rs" for p
    by (induction p rs rule: dropRepeats_after.induct) (auto split: option.splits)
  moreover have "remdups_adj (xs @ [x, x]) = remdups_adj (xs @ [x])" for xs :: "string list" and x
    by (induction xs rule: remdups_adj.induct) auto
  ultimately show ?thesis by (simp add: objects_dropRepeats) (simp add: dropRepeats_def)
qed

text \<open>
  C6: Rewritten history stays refused. Once a log's records of a ref break the ratchet, no
  extension of the log is accepted for that ref, in any clone, whatever the ref is moved to.
\<close>

theorem rewrite_is_permanent:
  assumes "ancestry_contract os dir graph" "rev_parse_contract os dir refs" "subgraph (graph w) G"
    and "RefRecords l ref = Inr rs" "ParseRefKind ref = Inr kind" "\<not> ratchet_ok G kind (objects rs)"
    and "log_entries l' = log_entries l @ es"
  shows "\<exists>e. verifySingleRef os dir ref l' w = (Inl e, w)"
proof -
  obtain r where v: "verifySingleRef os dir ref l' w = (r, w)"
    using pure_atD [OF verifySingleRef_pure [OF assms(1,2)]] by metis
  have "r \<noteq> Inr ()"
    using v verifySingleRef_iff [OF assms(1,2), of ref l' w w] assms(6)
      ref_verified_extension [OF _ assms(3,7,4,5), of "refs w"] by auto
  then obtain e where "r = Inl e" by (cases r) auto
  with v show ?thesis by blast
qed

theorem rewrite_is_permanent_witness:
  "\<exists>e. verifySingleRef ex_os ''dir'' ex_tag
     (the_log ''dir'' ([ex_tag_entry ex_c1, ex_tag_entry ex_c2] @ [ex_tag_entry ex_c1]) [] []) (ex_tagged ex_c1)
     = (Inl e, ex_tagged ex_c1)"
proof -
  have "RefRecords (the_log ''dir'' [ex_tag_entry ex_c1, ex_tag_entry ex_c2] [] []) ex_tag
      = Inr [\<lparr>rr_Ref = ex_tag, rr_Object = ex_c1\<rparr>, \<lparr>rr_Ref = ex_tag, rr_Object = ex_c2\<rparr>]"
    by (simp add: RefRecords_Inr_iff ex_tag_record_of ex_object)
  from rewrite_is_permanent [OF ex_ancestry ex_rev_parse_ok subgraph_refl this ex_tag_kind]
  show ?thesis using ex_names by (simp add: ratchet_ok_def)
qed

text \<open>
  C20: The guard before recording and before cosigning. \<^verbatim>\<open>checkLogChains\<close> changes nothing and
  accepts a log exactly if every ref record in it decodes and every ref it names obeys the
  ratchet.
\<close>

theorem check_log_chains_decides:
  assumes "ancestry_contract os dir graph" "map_order_contract os"
  shows "\<exists>r. checkLogChains os dir l w = (r, w) \<and>
    (r = Inr () \<longleftrightarrow> (\<forall>e\<in>set (log_entries l). decodable e) \<and>
       (\<forall>ref rs. RefRecords l ref = Inr rs \<longrightarrow> rs \<noteq> [] \<longrightarrow>
          (\<exists>kind. ParseRefKind ref = Inr kind \<and> ratchet_ok (graph w) kind (objects rs))))"
proof -
  obtain r where "checkLogChains os dir l w = (r, w)"
    using pure_atD [OF checkLogChains_pure [OF assms(1)]] by metis
  moreover have "chains_ok (graph w) l \<longleftrightarrow> (\<forall>e\<in>set (log_entries l). decodable e) \<and>
      (\<forall>ref rs. RefRecords l ref = Inr rs \<longrightarrow> rs \<noteq> [] \<longrightarrow>
         (\<exists>kind. ParseRefKind ref = Inr kind \<and> ratchet_ok (graph w) kind (objects rs)))"
  proof -
    have "ref \<in> rr_Ref ` set (statements es) \<longleftrightarrow> filter (\<lambda>r. rr_Ref r = ref) (statements es) \<noteq> []" for ref es
      by (auto simp: filter_empty_conv)
    then show ?thesis unfolding chains_ok_def RefRecords_Inr_iff Ball_def by metis
  qed
  ultimately show ?thesis using checkLogChains_iff [OF assms, of l w w] by simp
qed

theorem check_log_chains_decides_witness:
  "checkLogChains ex_os ''dir'' (the_log ''dir'' ex_log_entries [] ''c3'') (ex_repo ex_c1 ex_log_entries [])
     = (Inr (), ex_repo ex_c1 ex_log_entries [])"
proof -
  have "\<forall>e\<in>set ex_log_entries. decodable e" using ex_log_entries(3) entry_ok_decodable by blast
  with check_log_chains_decides [OF ex_ancestry [of "''dir''"] ex_map_order,
      where l = "the_log ''dir'' ex_log_entries [] ''c3''" and w = "ex_repo ex_c1 ex_log_entries []"]
  show ?thesis
    by (auto simp: RefRecords_Inr_iff ex_statements ex_record_def ex_main_kind ratchet_ok_def ex_ancestor)
qed

end
