(* ===== verification/Checkpoint_Run.thy ===== *)
theory Checkpoint_Run
  imports Ratchet_Commands
begin

section \<open>A checkpoint and its readers\<close>

text \<open>
  What links the commands: the note \<^verbatim>\<open>checkpointLog\<close> assembles splits back into the checkpoint
  body it signed, so \<^verbatim>\<open>checkpointedLog\<close> reads the whole log under it, and a ref whose last record
  is its current object then verifies.
\<close>

lemma Sign_note:
  assumes "note_sign_contract F" "SignTlogCheckpoint C F FL body s w = (Inr note, w')" "HasSuffix body [nl]"
  obtains line where "HasPrefix line SigPrefix" "note = note_text body [line]"
proof -
  obtain name raw where "note = note_text body [sig_line name raw]"
    by (rule SignTlogCheckpoint_note [OF assms(1,3,2)])
  then show ?thesis by (intro that [of "sig_line name raw"]) (simp_all add: sig_line_def)
qed

lemma foldl_AppendSignature: "foldl AppendSignature (note_text body ls) lines = note_text body (ls @ lines)"
  by (induction lines arbitrary: ls) (simp_all add: AppendSignature_note_text)

lemma ExtractBody_assembled:
  assumes "body_ok body" "HasPrefix line SigPrefix"
  shows "ExtractBody (foldl AppendSignature (note_text body [line]) lines) = Inr body"
proof -
  from assms(2) obtain x where "line = SigPrefix @ x" by (auto simp: prefix_def)
  with ExtractBody_note [OF assms(1)] show ?thesis unfolding foldl_AppendSignature by (simp add: note_text_def)
qed

text \<open>The assembled checkpoint reads back as the checkpoint of the log it was made for.\<close>

lemma assembled_checkpoint:
  assumes fmt: "checkpoint_format (d_log D) origin"
    and lib: "hasher_contract (d_merkle D)" "range_contract (d_merkle D) repr" and s: "note_sign_contract (d_formats D)"
    and root: "LogRoot (d_merkle D) l = Inr root"
    and sg: "SignTlogCheckpoint (d_crypto D) (d_formats D) (d_log D)
      (checkpoint_Marshal (d_log D) (NewCheckpoint origin n root)) signer w = (Inr sn, w1)"
  obtains body where "ExtractBody (foldl AppendSignature sn lines) = Inr body" "foldl AppendSignature sn lines \<noteq> []"
    "ParseCheckpoint (d_log D) body = Inr (NewCheckpoint origin n root, root)" "is_hash root"
    "root = tree_hash (d_merkle D) (leaf_list (d_merkle D) (log_entries l))"
proof -
  let ?body = "checkpoint_Marshal (d_log D) (NewCheckpoint origin n root)"
  let ?cp = "foldl AppendSignature sn lines"
  have th: "root = tree_hash (d_merkle D) (leaf_list (d_merkle D) (log_entries l))"
    using root LogRoot_Inr [OF lib, of l] by simp
  have h: "is_hash root" unfolding th by (rule tree_hash_is_hash [OF lib(1) leaf_list_hashes [OF lib(1)]])
  have b: "body_ok ?body" and u: "checkpoint_Unmarshal (d_log D) ?body = Inr (NewCheckpoint origin n root)"
    using fmt h unfolding checkpoint_format_def by blast+
  obtain line where line: "HasPrefix line SigPrefix" "sn = note_text ?body [line]"
    by (rule Sign_note [OF s sg body_ok_newline [OF b]])
  have eb: "ExtractBody ?cp = Inr ?body" unfolding line(2) by (rule ExtractBody_assembled [OF b line(1)])
  then have ne: "?cp \<noteq> []" by (auto simp: ExtractBody_def SigPrefix_def)
  have "ParseCheckpoint (d_log D) ?body = Inr (NewCheckpoint origin n root, root)"
    using u h by (simp add: ParseCheckpoint_Inr_iff NewCheckpoint_def)
  with eb ne h th show ?thesis by (intro that)
qed

lemma assembled_size:
  assumes "checkpoint_format (d_log D) origin" "hasher_contract (d_merkle D)" "range_contract (d_merkle D) repr"
    and "note_sign_contract (d_formats D)" "LogRoot (d_merkle D) l = Inr root"
    and "SignTlogCheckpoint (d_crypto D) (d_formats D) (d_log D)
      (checkpoint_Marshal (d_log D) (NewCheckpoint origin n root)) signer w = (Inr sn, w1)"
  shows "storedSize (d_log D) (the_log dir es (foldl AppendSignature sn lines) c) = Inr n"
  by (rule assembled_checkpoint [OF assms, of lines]) (simp add: storedSize_def NewCheckpoint_def)

text \<open>What was just checkpointed is read back whole, and nothing is left to checkpoint.\<close>

lemma checkpointLog_readable:
  assumes env: "repo_env D dir db graph refs" and l: "repo_log (d_tessera D) (db w) es cp head"
    and net: "network_contract D db" and fmt: "checkpoint_format (d_log D) origin"
    and lib: "hasher_contract (d_merkle D)" "range_contract (d_merkle D) repr"
    and s: "note_sign_contract (d_formats D)"
    and r: "checkpointLog D sched dir origin signer pol w = (Inr (n, k), w')"
  obtains cp' c where "es \<noteq> []" "repo_log (d_tessera D) (db w') es cp' c" "pol_Satisfied pol cp'" "n = of_nat (length es)"
    "chains_ok (graph w) (the_log dir es cp' c)"
    "g_refs (db w') = (g_refs (db w))(LogRef \<mapsto> c)" "grows (db w) (db w')"
    "storedSize (d_log D) (the_log dir es cp' c) = Inr n"
    "\<forall>pol'. pol_Verify pol' cp' = Inr () \<longrightarrow> checkpointedLog D dir pol' w' = (Inr (the_log dir es cp' c), w')"
proof -
  obtain root sn w1 lines c where nonempty: "es \<noteq> []" and o: "n = of_nat (length es)" "chains_ok (graph w) (the_log dir es cp head)"
    and root: "LogRoot (d_merkle D) (the_log dir es cp head) = Inr root"
    and sg: "SignTlogCheckpoint (d_crypto D) (d_formats D) (d_log D)
      (checkpoint_Marshal (d_log D) (NewCheckpoint origin (of_nat (length es)) root)) signer w = (Inr sn, w1)"
    and q: "pol_Satisfied pol (foldl AppendSignature sn lines)"
    and l': "repo_log (d_tessera D) (db w') es (foldl AppendSignature sn lines) c"
    and g: "g_refs (db w') = (g_refs (db w))(LogRef \<mapsto> c)" "grows (db w) (db w')"
    by (rule checkpointLog_success [OF env l net r])
  let ?cp = "foldl AppendSignature sn lines" and ?c = "NewCheckpoint origin (of_nat (length es)) root"
  obtain body where eb: "ExtractBody ?cp = Inr body" and ne: "?cp \<noteq> []"
    and pc: "ParseCheckpoint (d_log D) body = Inr (?c, root)" and h: "is_hash root"
    and th: "root = tree_hash (d_merkle D) (leaf_list (d_merkle D) es)"
    by (rule assembled_checkpoint [OF fmt lib s root sg, of lines]) simp
  have len: "go_len es" using l by (simp add: repo_log_def)
  have st: "storedSize (d_log D) (the_log dir es ?cp c) = Inr n"
    using assembled_size [OF fmt lib s root sg] o(1) by simp
  have "Checkpointed (d_merkle D) (the_log dir es ?cp c) ?c = Inr (the_log dir es ?cp c)"
    using Checkpointed_Inr_iff [OF lib, of "the_log dir es ?cp c" ?c "the_log dir es ?cp c"] len h th
    by (simp add: NewCheckpoint_def go_len_unat)
  then have rd: "checkpointedLog D dir pol' w' = (Inr (the_log dir es ?cp c), w')" if "pol_Verify pol' ?cp = Inr ()" for pol'
    using checkpointedLog_Inr_iff [OF env l', of pol' "the_log dir es ?cp c" w'] that ne eb pc by blast
  then have rd: "\<forall>pol'. pol_Verify pol' ?cp = Inr () \<longrightarrow> checkpointedLog D dir pol' w' = (Inr (the_log dir es ?cp c), w')"
    by blast
  have "chains_ok (graph w) (the_log dir es ?cp c)"
    using o(2) chains_ok_entries [of "the_log dir es cp head" "the_log dir es ?cp c"] by simp
  then show ?thesis using that [OF nonempty l' q o(1) _ g st rd] by blast
qed

text \<open>Nothing was recorded only if every ref's last record was its object.\<close>

lemma logRefs_nothing_current:
  assumes env: "repo_env D dir db graph refs" and l: "repo_log (d_tessera D) (db w) es cp head"
    and r: "logRefs D dir rs w = (Inr (NothingToLog n), w')"
  shows "\<forall>x\<in>set rs. up_to_date (refs w) (the_log dir es cp head) x"
proof
  fix x assume x: "x \<in> set rs"
  obtain res where le: "log_each (d_os D) dir (the_log dir es cp head) [] rs w = (res, w)"
    using pure_atD [OF log_each_pure [OF repo_envD(3) [OF env]]] by metis
  have nt: "ebind (Save (d_os D) (d_tessera D) l' cp msg) (\<lambda>l. ebind (elift (storedSize (d_log D) l)) (\<lambda>stored.
      eret (Logged k (Size l) (Size l - stored)))) w \<noteq> (Inr (NothingToLog n), w')" for l' msg k
    by (auto simp: ebind_Inr_iff)
  from logRefs_unfold [OF env env env env l, of rs] r le obtain l' where res: "res = Inr (l', [])"
    by (cases res) (auto simp: nt nt [symmetric] split: if_splits)
  from log_each_appends [OF repo_envD(3) [OF env] le [unfolded res]]
  have l': "l' = the_log dir es cp head" by auto
  have "\<forall>e\<in>set (log_entries l'). decodable e"
    using l entry_ok_decodable unfolding l' by (simp add: repo_log_def)
  with log_each_up_to_date [OF repo_envD(3) [OF env] le [unfolded res] _ x] l'
  show "up_to_date (refs w) (the_log dir es cp head) x" by simp
qed

text \<open>Either way, a successful run leaves every given ref at its last record.\<close>

lemma logRefs_recorded:
  assumes env: "repo_env D dir db graph refs" and l: "repo_log (d_tessera D) (db w) es cp head"
    and len: "length es + length rs < 2 ^ 63" and r: "logRefs D dir rs w = (Inr s, w')"
  obtains es' c where "prefix es es'" "repo_log (d_tessera D) (db w') es' cp c" "grows (db w) (db w')"
    "g_refs (db w') = (g_refs (db w))(LogRef \<mapsto> c) \<or> g_refs (db w') = g_refs (db w)"
    "\<forall>x\<in>set rs. up_to_date (refs w) (the_log dir es' cp c) x"
    "chains_ok (graph w) (the_log dir es cp head) \<longrightarrow> chains_ok (graph w) (the_log dir es' cp c)"
proof (cases s)
  case (NothingToLog n)
  with r have n: "logRefs D dir rs w = (Inr (NothingToLog n), w')" by simp
  with logRefs_nothing [OF env l] have "w' = w" by blast
  with l logRefs_nothing_current [OF env l n] show ?thesis by (intro that [of es head]) simp_all
next
  case (Logged n sz pend)
  with r have "logRefs D dir rs w = (Inr (Logged n sz pend), w')" by simp
  then obtain new c where "repo_log (d_tessera D) (db w') (es @ new) cp c"
    "g_refs (db w') = (g_refs (db w))(LogRef \<mapsto> c)" "grows (db w) (db w')"
    "\<forall>x\<in>set rs. up_to_date (refs w) (the_log dir (es @ new) cp c) x"
    "chains_ok (graph w) (the_log dir (es @ new) cp c)"
    by (rule logRefs_Logged [OF env l len])
  then show ?thesis by (intro that [of "es @ new" c]) simp_all
qed

lemma chains_ok_ref:
  assumes "chains_ok G l" "RefRecords l ref = Inr rs" "rs \<noteq> []" "ParseRefKind ref = Inr kind"
  shows "ratchet_ok G kind (objects rs)"
proof -
  have rs: "rs = filter (\<lambda>r. rr_Ref r = ref) (statements (log_entries l))"
    using assms(2) by (simp add: RefRecords_Inr_iff)
  with assms(3) have "ref \<in> rr_Ref ` set (statements (log_entries l))" by (auto simp: filter_empty_conv)
  with assms(1) obtain k where "ParseRefKind ref = Inr k" "ratchet_ok G k (objects rs)"
    unfolding chains_ok_def rs by blast
  with assms(4) show ?thesis by simp
qed

text \<open>A ref at its last record verifies in a log that obeys the ratchet.\<close>

lemma up_to_date_verified:
  assumes "up_to_date refs l x" "chains_ok G l" "ParseRefKind x = Inr kind" "refs x = Some h" "peel G h \<noteq> None"
  shows "ref_verified G refs x l"
proof -
  from assms(1,4) obtain rs where rs: "RefRecords l x = Inr rs" "rs \<noteq> []" "rr_Object (last rs) = h"
    by (auto simp: up_to_date_def)
  then have "ratchet_ok G kind (objects rs)" using chains_ok_ref [OF assms(2) _ _ assms(3)] by blast
  with assms rs show ?thesis using is_ancestor_refl [of G h]
    by (auto simp: ref_verified_def split: RefKind.split)
qed

text \<open>
  Commits are never rewritten: a database that only grew holds the graph it held.
\<close>

definition graph_view :: "('w \<Rightarrow> git_db) \<Rightarrow> ('w \<Rightarrow> commit_graph) \<Rightarrow> bool" where
  "graph_view db graph \<longleftrightarrow> (\<forall>w w'. grows (db w) (db w') \<longrightarrow> subgraph (graph w) (graph w'))"

lemma chains_ok_subgraph: "subgraph G' G \<Longrightarrow> chains_ok G' l \<Longrightarrow> chains_ok G l"
  unfolding chains_ok_def using ratchet_ok_subgraph by blast

text \<open>The refs a command may not move: a branch or tag keeps its object when only the log ref moves.\<close>

lemma refs_view_kept:
  assumes "refs_view db refs" "ParseRefKind x = Inr k" "g_refs (db w) x = Some h" "object_id h"
    "g_refs (db w') = (g_refs (db w))(LogRef \<mapsto> c) \<or> g_refs (db w') = g_refs (db w)"
  shows "refs w x = Some h" "refs w' x = Some h" "g_refs (db w') x = Some h"
proof -
  show g: "g_refs (db w') x = Some h" using assms(3,5) LogRef_no_kind [OF assms(2)] by auto
  show "refs w x = Some h" "refs w' x = Some h" using assms(1-4) g unfolding refs_view_def by metis+
qed

text \<open>Refs recorded and then checkpointed verify.\<close>

lemma checkpointed_refs_verify:
  assumes env: "repo_env D dir db graph refs" and view: "refs_view db refs" "graph_view db graph"
    and net: "network_contract D db" and fmt: "checkpoint_format (d_log D) origin"
    and lib: "hasher_contract (d_merkle D)" "range_contract (d_merkle D) repr"
    and s: "note_sign_contract (d_formats D)"
    and l: "repo_log (d_tessera D) (db w) es cp head" and len: "length es + length rs < 2 ^ 63"
    and ex: "\<forall>x\<in>set rs. \<exists>k h. ParseRefKind x = Inr k \<and> g_refs (db w) x = Some h \<and> object_id h \<and> peel (graph w) h \<noteq> None"
    and r: "logRefs D dir rs w = (Inr summary, w1)"
    and r2: "checkpointLog D sched dir origin signer pol w1 = (Inr (n, k), w2)"
  obtains es' cp' c where "prefix es es'" "repo_log (d_tessera D) (db w2) es' cp' c" "pol_Satisfied pol cp'"
    "\<forall>pol'. pol_Verify pol' cp' = Inr () \<longrightarrow> checkpointedLog D dir pol' w2 = (Inr (the_log dir es' cp' c), w2)"
    "\<forall>x\<in>set rs. verifySingleRef (d_os D) dir x (the_log dir es' cp' c) w2 = (Inr (), w2)"
proof -
  obtain es' c1 where w1: "prefix es es'" "repo_log (d_tessera D) (db w1) es' cp c1" "grows (db w) (db w1)"
    "g_refs (db w1) = (g_refs (db w))(LogRef \<mapsto> c1) \<or> g_refs (db w1) = g_refs (db w)"
    "\<forall>x\<in>set rs. up_to_date (refs w) (the_log dir es' cp c1) x"
    by (rule logRefs_recorded [OF env l len r])
  obtain cp' c where w2: "repo_log (d_tessera D) (db w2) es' cp' c" "chains_ok (graph w1) (the_log dir es' cp' c)"
    "g_refs (db w2) = (g_refs (db w1))(LogRef \<mapsto> c)" "grows (db w1) (db w2)"
    and sat: "pol_Satisfied pol cp'"
    and rd: "\<forall>pol'. pol_Verify pol' cp' = Inr () \<longrightarrow> checkpointedLog D dir pol' w2 = (Inr (the_log dir es' cp' c), w2)"
    by (rule checkpointLog_readable [OF env w1(2) net fmt lib s r2])
  have sub: "subgraph (graph w1) (graph w2)" "subgraph (graph w) (graph w2)"
    using view(2) w1(3) w2(4) grows_trans unfolding graph_view_def by blast+
  have ch: "chains_ok (graph w2) (the_log dir es' cp' c)" by (rule chains_ok_subgraph [OF sub(1) w2(2)])
  have "verifySingleRef (d_os D) dir x (the_log dir es' cp' c) w2 = (Inr (), w2)" if x: "x \<in> set rs" for x
  proof -
    from ex x obtain k h where k: "ParseRefKind x = Inr k" "g_refs (db w) x = Some h" "object_id h"
      "peel (graph w) h \<noteq> None" by blast
    note v1 = refs_view_kept [OF view(1) k(1-3) w1(4)]
    have v2: "refs w2 x = Some h" using refs_view_kept(2) [OF view(1) k(1) v1(3) k(3)] w2(3) by blast
    have "up_to_date (refs w2) (the_log dir es' cp' c) x"
    proof -
      have "refs w x = refs w2 x" using v1(1) v2 by simp
      moreover have "up_to_date (refs w) (the_log dir es' cp c1) x" using w1(5) x by blast
      ultimately have "up_to_date (refs w2) (the_log dir es' cp c1) x"
        by (simp only: up_to_date_refs [of "refs w" x "refs w2"])
      then show ?thesis
        using up_to_date_entries [of "the_log dir es' cp c1" "the_log dir es' cp' c" "refs w2" x] by simp
    qed
    moreover have "peel (graph w2) h \<noteq> None" using k(4) sub(2) by (auto simp: subgraph_def)
    ultimately have "ref_verified (graph w2) (refs w2) x (the_log dir es' cp' c)"
      using up_to_date_verified ch k(1) v2 by blast
    then show ?thesis using verifySingleRef_iff [OF repo_envD(2,3) [OF env]] by blast
  qed
  with w1(1) w2(1) sat rd show ?thesis by (intro that) blast+
qed

end
