(* ===== verification/Git_Works.thy ===== *)
theory Git_Works
  imports Log_Store
begin

section \<open>Saving succeeds\<close>

text \<open>
  The contracts of \<open>Git_Store\<close> say what a git command that succeeds has done. Here is when it
  succeeds: in a repository in a sound state (writable, not full: \<open>sound\<close>), a command whose
  arguments exist exits with status zero and leaves the repository sound. With that, \<^verbatim>\<open>Save\<close> of a
  log opened at the current head succeeds.
\<close>

subsection \<open>Effects that succeed\<close>

definition succeeds :: "('w \<Rightarrow> bool) \<Rightarrow> ('w, 'a) io \<Rightarrow> 'w \<Rightarrow> bool" where
  "succeeds sound m w \<longleftrightarrow> (\<exists>x w'. m w = (Inr x, w') \<and> sound w')"

named_theorems succeeds_intros \<open>introduction rules for effects that succeed\<close>

lemma succeeds_eret [succeeds_intros]: "sound w \<Longrightarrow> succeeds sound (eret x) w"
  by (simp add: succeeds_def)

lemma succeeds_elift: "r = Inr x \<Longrightarrow> sound w \<Longrightarrow> succeeds sound (elift r) w"
  by (simp add: succeeds_def)

lemma succeeds_ebind [succeeds_intros]:
  "succeeds sound m w \<Longrightarrow> (\<And>x w'. m w = (Inr x, w') \<Longrightarrow> sound w' \<Longrightarrow> succeeds sound (f x) w') \<Longrightarrow>
   succeeds sound (ebind m f) w"
  unfolding succeeds_def by (auto simp: ebind_Inr)

lemma succeeds_ewrap [succeeds_intros]: "succeeds sound m w \<Longrightarrow> succeeds sound (ewrap f a m) w"
  by (simp add: succeeds_def ewrap_Inr)

lemma succeeds_emap:
  "sound w \<Longrightarrow> (\<And>x w'. x \<in> set xs \<Longrightarrow> sound w' \<Longrightarrow> succeeds sound (f x) w') \<Longrightarrow> succeeds sound (emap f xs) w"
  by (induction xs arbitrary: w) (auto intro!: succeeds_intros)

lemma succeedsE:
  assumes "succeeds sound m w"
  obtains x w' where "m w = (Inr x, w')" "sound w'"
  using assms by (auto simp: succeeds_def)

subsection \<open>When git succeeds\<close>

definition exits_zero :: "('w \<Rightarrow> bool) \<Rightarrow> exec_result \<times> 'w \<Rightarrow> bool" where
  "exits_zero sound r \<longleftrightarrow> (case r of (Exited code _ _, w') \<Rightarrow> code = 0 \<and> sound w' | (NotRun _, _) \<Rightarrow> False)"

text \<open>
  \<^verbatim>\<open>hash-object\<close> takes any content. \<^verbatim>\<open>update-index --cacheinfo\<close> takes the paths of a log;
  \<^verbatim>\<open>write-tree\<close> needs the blobs of the index, \<^verbatim>\<open>commit-tree\<close> its tree and parent, and a message
  that can be an argument; \<^verbatim>\<open>update-ref\<close> needs the commit and the old value.
\<close>

definition git_works :: "'w os \<Rightarrow> string \<Rightarrow> tessera_lib \<Rightarrow> ('w \<Rightarrow> git_db) \<Rightarrow> ('w \<Rightarrow> bool) \<Rightarrow> bool" where
  "git_works os dir TL db sound \<longleftrightarrow>
     (\<forall>env inp w. sound w \<longrightarrow> exits_zero sound (git_at os dir [''hash-object'', ''-w'', ''--stdin''] env inp w)) \<and>
     (\<forall>env f blob path w. sound w \<longrightarrow> CHR '','' \<notin> set blob \<longrightarrow>
        path = checkpointPath \<or> (\<exists>n p. path = EntriesPath TL n p) \<longrightarrow>
        exits_zero sound (git_at os dir [''update-index'', ''--add'', ''--cacheinfo'', cacheinfo blob path]
          (Some (env @ [''GIT_INDEX_FILE='' @ f])) None w)) \<and>
     (\<forall>env f w. sound w \<longrightarrow> ran (g_index (db w) f) \<subseteq> dom (g_blobs (db w)) \<longrightarrow>
        exits_zero sound (git_at os dir [''write-tree''] (Some (env @ [''GIT_INDEX_FILE='' @ f])) None w)) \<and>
     (\<forall>env tree parent message w. sound w \<longrightarrow> tree \<in> dom (g_trees (db w)) \<longrightarrow>
        parent = [] \<or> parent \<in> dom (g_commits (db w)) \<longrightarrow> CHR 0x00 \<notin> set message \<longrightarrow>
        exits_zero sound (git_at os dir
          ([''commit-tree'', tree] @ (if parent \<noteq> [] then [''-p'', parent] else []) @ [''-m'', message]) env None w)) \<and>
     (\<forall>new old w. sound w \<longrightarrow> new \<in> dom (g_commits (db w)) \<longrightarrow>
        g_refs (db w) LogRef = (if old = [] then None else Some old) \<longrightarrow>
        exits_zero sound (git_at os dir [''update-ref'', LogRef, new, old] None None w)) \<and>
     (\<forall>a b w. sound w \<longrightarrow> succeeds sound (MkdirTemp os a b) w) \<and>
     (\<forall>tmp w. sound w \<longrightarrow> sound (RemoveAll os tmp w))"

lemma git_worksD:
  assumes "git_works os dir TL db sound" "sound w"
  shows
    "exits_zero sound (git_at os dir [''hash-object'', ''-w'', ''--stdin''] env inp w)"
    "CHR '','' \<notin> set blob \<Longrightarrow> path = checkpointPath \<or> (\<exists>n p. path = EntriesPath TL n p) \<Longrightarrow>
       exits_zero sound (git_at os dir [''update-index'', ''--add'', ''--cacheinfo'', cacheinfo blob path]
          (Some (env' @ [''GIT_INDEX_FILE='' @ f])) None w)"
    "ran (g_index (db w) f) \<subseteq> dom (g_blobs (db w)) \<Longrightarrow>
       exits_zero sound (git_at os dir [''write-tree''] (Some (env' @ [''GIT_INDEX_FILE='' @ f])) None w)"
    "tree \<in> dom (g_trees (db w)) \<Longrightarrow> parent = [] \<or> parent \<in> dom (g_commits (db w)) \<Longrightarrow> CHR 0x00 \<notin> set message \<Longrightarrow>
       exits_zero sound (git_at os dir
          ([''commit-tree'', tree] @ (if parent \<noteq> [] then [''-p'', parent] else []) @ [''-m'', message]) env None w)"
    "new \<in> dom (g_commits (db w)) \<Longrightarrow> g_refs (db w) LogRef = (if old = [] then None else Some old) \<Longrightarrow>
       exits_zero sound (git_at os dir [''update-ref'', LogRef, new, old] None None w)"
    "succeeds sound (MkdirTemp os a b) w"
    "sound (RemoveAll os tmp w)"
proof -
  note g = assms(1) [unfolded git_works_def]
  note r = g [THEN conjunct2] and r2 = g [THEN conjunct2, THEN conjunct2]
  note r3 = r2 [THEN conjunct2] and r4 = r2 [THEN conjunct2, THEN conjunct2]
  note r5 = r4 [THEN conjunct2]
  show "exits_zero sound (git_at os dir [''hash-object'', ''-w'', ''--stdin''] env inp w)"
    using g [THEN conjunct1] assms(2) by blast
  show "CHR '','' \<notin> set blob \<Longrightarrow> path = checkpointPath \<or> (\<exists>n p. path = EntriesPath TL n p) \<Longrightarrow>
       exits_zero sound (git_at os dir [''update-index'', ''--add'', ''--cacheinfo'', cacheinfo blob path]
          (Some (env' @ [''GIT_INDEX_FILE='' @ f])) None w)"
    using r [THEN conjunct1] assms(2) by blast
  show "ran (g_index (db w) f) \<subseteq> dom (g_blobs (db w)) \<Longrightarrow>
       exits_zero sound (git_at os dir [''write-tree''] (Some (env' @ [''GIT_INDEX_FILE='' @ f])) None w)"
    using r2 [THEN conjunct1] assms(2) by blast
  show "tree \<in> dom (g_trees (db w)) \<Longrightarrow> parent = [] \<or> parent \<in> dom (g_commits (db w)) \<Longrightarrow> CHR 0x00 \<notin> set message \<Longrightarrow>
       exits_zero sound (git_at os dir
          ([''commit-tree'', tree] @ (if parent \<noteq> [] then [''-p'', parent] else []) @ [''-m'', message]) env None w)"
    using r3 [THEN conjunct1] assms(2) by blast
  show "new \<in> dom (g_commits (db w)) \<Longrightarrow> g_refs (db w) LogRef = (if old = [] then None else Some old) \<Longrightarrow>
       exits_zero sound (git_at os dir [''update-ref'', LogRef, new, old] None None w)"
    using r4 [THEN conjunct1] assms(2) by blast
  show "succeeds sound (MkdirTemp os a b) w" "sound (RemoveAll os tmp w)" using r5 assms(2) by blast+
qed

lemma Run_succeeds:
  "exits_zero sound (git_at os (cmd_repoDir c) args (run_env os c) (run_stdin c) w) \<Longrightarrow> succeeds sound (Run os c args) w"
  unfolding succeeds_def Run_git_at exits_zero_def by (auto split: prod.splits exec_result.splits)

lemma HashObject_succeeds:
  "git_works os dir TL db sound \<Longrightarrow> sound w \<Longrightarrow> succeeds sound (HashObject os dir content) w"
  unfolding HashObject_def by (intro succeeds_intros Run_succeeds) (simp_all add: git_worksD(1))

lemma save_bundles_succeeds:
  assumes g: "git_works os (log_repoDir l) TL db sound" and ok: "\<forall>e\<in>set (log_entries l). entry_ok e"
  shows "sound w \<Longrightarrow> succeeds sound (save_bundles os TL l start blobs) w"
proof (induction "length (log_entries l) - start" arbitrary: start blobs w rule: less_induct)
  case less
  show ?case
  proof (cases "start < length (log_entries l)")
    case True
    let ?hi = "min (start + EntriesPerBundle) (length (log_entries l))"
    let ?es = "take (?hi - start) (drop start (log_entries l))"
    have "\<forall>e\<in>set ?es. length (entry_raw e) \<le> MaxEntrySize"
      using ok entry_ok_size by (blast dest: in_set_takeD in_set_dropD)
    then obtain c where c: "marshalBundle ?es = Inr c" using marshalBundle_Inr_iff [of ?es] by blast
    from True have d: "length (log_entries l) - (start + EntriesPerBundle) < length (log_entries l) - start"
      by (simp add: EntriesPerBundle_def)
    have m: "succeeds sound (elift (marshalBundle ?es)) w"
      by (rule succeeds_elift) (rule c, rule less.prems)
    show ?thesis
      unfolding save_bundles.simps [of os TL l start] if_P [OF True] Let_def
    proof (rule succeeds_ebind [OF m], rule succeeds_ebind)
      fix c' w1 assume w1: "sound w1"
      show "succeeds sound (ewrap ''writing entry bundle: %w'' [] (HashObject os (log_repoDir l) c')) w1"
        by (rule succeeds_ewrap) (rule HashObject_succeeds [OF g w1])
      fix b w2 assume w2: "sound w2"
      show "succeeds sound (save_bundles os TL l (start + EntriesPerBundle)
          (AList.update (EntriesPath TL (of_nat (start div EntriesPerBundle))
            (if ?hi - start < EntriesPerBundle then of_nat (?hi - start) else 0)) b blobs)) w2"
        by (rule less.hyps [OF d w2])
    qed
  next
    case False
    show ?thesis unfolding save_bundles.simps [of os TL l start] if_not_P [OF False]
      by (rule succeeds_eret) (rule less.prems)
  qed
qed

lemma savedD:
  assumes "saved TL d es cp k blobs"
  shows "distinct (map fst blobs)"
    "dom (map_of blobs) = insert checkpointPath (bundle_path TL es ` {..<k})"
    "map_of blobs p = Some b \<Longrightarrow> CHR '','' \<notin> set b"
    "\<exists>b. map_of blobs checkpointPath = Some b \<and> g_blobs d b = Some cp"
    "j < k \<Longrightarrow> \<exists>b c. map_of blobs (bundle_path TL es j) = Some b \<and>
        marshalBundle (slice es j) = Inr c \<and> g_blobs d b = Some c"
proof -
  note s = assms [unfolded saved_def]
  note s1 = s [THEN conjunct2] and s2 = s [THEN conjunct2, THEN conjunct2]
  show "distinct (map fst blobs)" by (rule s [THEN conjunct1])
  show "dom (map_of blobs) = insert checkpointPath (bundle_path TL es ` {..<k})" by (rule s1 [THEN conjunct1])
  show "map_of blobs p = Some b \<Longrightarrow> CHR '','' \<notin> set b" using s2 [THEN conjunct1] by simp
  show "\<exists>b. map_of blobs checkpointPath = Some b \<and> g_blobs d b = Some cp"
    by (rule s2 [THEN conjunct2, THEN conjunct1])
  show "j < k \<Longrightarrow> \<exists>b c. map_of blobs (bundle_path TL es j) = Some b \<and>
        marshalBundle (slice es j) = Inr c \<and> g_blobs d b = Some c"
    using s2 [THEN conjunct2, THEN conjunct2] by simp
qed

lemma saved_path:
  assumes "saved TL d es cp k blobs" "map_of blobs path = Some b"
  shows "path = checkpointPath \<or> (\<exists>j<k. path = bundle_path TL es j)"
proof -
  note savedD(2) [OF assms(1)]
  moreover have "path \<in> dom (map_of blobs)" using assms(2) by (simp add: domI)
  ultimately show ?thesis by auto
qed

lemma saved_paths:
  assumes "saved TL d es cp k blobs" "map_of blobs path = Some b"
  shows "path = checkpointPath \<or> (\<exists>n p. path = EntriesPath TL n p)"
  using saved_path [OF assms] by (elim disjE exE conjE) (simp_all only: bundle_path_def, blast+)

lemma saved_ran:
  assumes "saved TL d es cp k blobs"
  shows "ran (map_of blobs) \<subseteq> dom (g_blobs d)"
proof
  fix b assume "b \<in> ran (map_of blobs)"
  then obtain path where p: "map_of blobs path = Some b" by (auto simp: ran_def)
  from saved_path [OF assms p] show "b \<in> dom (g_blobs d)"
  proof (elim disjE exE conjE)
    assume "path = checkpointPath"
    with p savedD(4) [OF assms] show ?thesis by auto
  next
    fix j assume "j < k" "path = bundle_path TL es j"
    with p savedD(5) [OF assms] show ?thesis by force
  qed
qed

lemma writeTree_succeeds:
  assumes g: "git_works os (log_repoDir l) TL db sound" and s: "git_objects os (log_repoDir l) db"
    and m: "map_order_contract os" and sv: "saved TL (db w) es cp k blobs" and w: "sound w"
  shows "succeeds sound (writeTree os l blobs) w"
  unfolding writeTree_def
proof (intro succeeds_ebind succeeds_ewrap)
  show "succeeds sound (MkdirTemp os [] ''git-ratchet-log-index'') w" by (rule git_worksD(6) [OF g w])
  fix tmp w1
  assume "ewrap ''creating scratch index: %w'' [] (MkdirTemp os [] ''git-ratchet-log-index'') w = (Inr tmp, w1)"
    and w1: "sound w1"
  then have mk: "MkdirTemp os [] ''git-ratchet-log-index'' w = (Inr tmp, w1)" by (simp add: ewrap_Inr)
  let ?f = "index_file os tmp" and ?paths = "map_keys_order os (map fst blobs)"
  have e: "g_index (db w1) ?f = Map.empty"
    using git_objectsD(7) [OF s] mk unfolding scratch_contract_def by (metis fst_conv snd_conv)
  have st: "stays (db w) (db w1)" by (rule keepsD [OF MkdirTemp_keeps [OF s] mk])
  note d = savedD(1) [OF sv]
  have keys: "set ?paths = dom (map_of blobs)"
    using m d unfolding map_order_contract_def by (metis dom_map_of_conv_image_fst list.set_map)
  have b: "\<exists>b. map_of blobs path = Some b \<and> CHR '','' \<notin> set b" if "path \<in> set ?paths" for path
    using that savedD(3) [OF sv] unfolding keys by blast
  have "succeeds sound (write_index os l blobs tmp) w1"
    unfolding write_index_add
  proof (rule succeeds_ebind, rule succeeds_emap [where sound = sound, OF w1])
    fix path w' assume p: "path \<in> set ?paths" and w': "sound w'"
    from b [OF p] obtain b where "map_of blobs path = Some b" "CHR '','' \<notin> set b" by blast
    from git_worksD(2) [OF g w' this(2) saved_paths [OF sv this(1)], of "Environ os" ?f] this(1)
    show "succeeds sound (add_to_index os (log_repoDir l) tmp blobs path) w'"
      unfolding add_to_index_def by (intro succeeds_ewrap Run_succeeds) (simp add: index_env_def)
  next
    fix u w2 assume a: "emap (add_to_index os (log_repoDir l) tmp blobs) ?paths w1 = (Inr u, w2)" and w2: "sound w2"
    have "keeps db (emap (add_to_index os (log_repoDir l) tmp blobs) ?paths) w1"
      by (intro keeps_emap add_to_index_keeps s)
    from keepsD [OF this a] st have "stays (db w) (db w2)" by (blast intro: stays_trans)
    from saved_ran [OF saved_stays [OF sv this]] have r: "ran (map_of blobs) \<subseteq> dom (g_blobs (db w2))" .
    have ws: "succeeds sound (Run os (WithEnv (Git (log_repoDir l)) (index_env os tmp)) [''write-tree'']) w2"
    proof -
    from postD [OF add_all_post [OF s b] a] keys e
    have "g_index (db w2) ?f = map_of blobs" by (auto simp: fun_eq_iff domIff)
    with r have "ran (g_index (db w2) ?f) \<subseteq> dom (g_blobs (db w2))" by simp
    from git_worksD(3) [OF g w2 this, of "Environ os"]
    show ?thesis by (intro Run_succeeds) (simp add: index_env_def)
    qed
    show "succeeds sound (ebind (ewrap ''writing log tree: %w'' []
        (Run os (WithEnv (Git (log_repoDir l)) (index_env os tmp)) [''write-tree''])) (\<lambda>tree. eret (TrimSpace tree))) w2"
      by (rule succeeds_ebind [OF succeeds_ewrap [OF ws]]) (rule succeeds_eret)
  qed
  then show "succeeds sound (\<lambda>w. case write_index os l blobs tmp w of (r, w') \<Rightarrow> (r, RemoveAll os tmp w')) w1"
    by (auto simp: succeeds_def intro: git_worksD(7) [OF g])
qed

text \<open>\<^verbatim>\<open>Save\<close> succeeds when the log was opened at the head the log ref names.\<close>

lemma Save_succeeds:
  assumes g: "git_works os (log_repoDir l) TL db sound" and s: "git_objects os (log_repoDir l) db"
    and m: "map_order_contract os" and lay: "layout_contract TL"
    and ok: "\<forall>e\<in>set (log_entries l). entry_ok e" "go_len (log_entries l)"
    and head: "g_refs (db w) LogRef = (if log_head l = [] then None else Some (log_head l))"
      "log_head l = [] \<or> log_head l \<in> dom (g_commits (db w))"
    and msg: "CHR 0x00 \<notin> set msg" and w: "sound w"
  shows "succeeds sound (Save os TL l cp msg) w"
  unfolding Save_def
proof (rule succeeds_ebind [OF succeeds_ewrap [OF HashObject_succeeds [OF g w]]], rule succeeds_ebind [rotated],
    rule succeeds_ebind [rotated], rule succeeds_ebind [rotated], rule succeeds_ebind)
  fix b w1 assume "ewrap ''writing checkpoint blob: %w'' [] (HashObject os (log_repoDir l) cp) w = (Inr b, w1)"
    and w1: "sound w1"
  then have b: "HashObject os (log_repoDir l) cp w = (Inr b, w1)" by (simp add: ewrap_Inr)
  have s1: "stays (db w) (db w1)" by (rule keepsD [OF HashObject_keeps [OF s] b])
  from postD [OF HashObject_post [OF s] b] have sv1: "saved TL (db w1) (log_entries l) cp 0 [(checkpointPath, b)]"
    by (auto intro: saved_start)
  show "succeeds sound (save_bundles os TL l 0 [(checkpointPath, b)]) w1"
    by (rule save_bundles_succeeds [OF g ok(1) w1])
  fix blobs w2 assume bl: "save_bundles os TL l 0 [(checkpointPath, b)] w1 = (Inr blobs, w2)" and w2: "sound w2"
  have s2: "stays (db w1) (db w2)" by (rule keepsD [OF save_bundles_keeps [OF s] bl])
  from postD [OF save_bundles_post [OF s lay ok(2) sv1]] bl
  have sv: "saved TL (db w2) (log_entries l) cp (nbundles (log_entries l)) blobs" by simp
  show "succeeds sound (writeTree os l blobs) w2" by (rule writeTree_succeeds [OF g s m sv w2])
  fix t w3 assume t: "writeTree os l blobs w2 = (Inr t, w3)" and w3: "sound w3"
  have s3: "stays (db w2) (db w3)" by (rule keepsD [OF writeTree_keeps [OF s] t])
  have "distinct (map fst blobs)" "\<And>p b. map_of blobs p = Some b \<Longrightarrow> CHR '','' \<notin> set b"
    using sv by (auto simp: saved_def)
  from postD [OF writeTree_post [OF s m this] t] have tt: "t \<in> dom (g_trees (db w3))" by auto
  from s1 s2 s3 have s13: "stays (db w) (db w3)" by (blast intro: stays_trans)
  with head(2) have h: "log_head l = [] \<or> log_head l \<in> dom (g_commits (db w3))"
    by (auto simp: stays_def grows_def map_le_def dom_def)
  have "succeeds sound (Run os (WithEnv (Git (log_repoDir l)) commit_env)
      ([''commit-tree'', t] @ (if log_head l \<noteq> [] then [''-p'', log_head l] else []) @ [''-m'', msg])) w3"
    by (rule Run_succeeds) (simp only: cmd_repoDir_simps run_stdin_simps git_worksD(4) [OF g w3 tt h msg])
  from succeeds_ewrap [OF this] show "succeeds sound (commitTree os l t msg) w3"
    unfolding commitTree_def Let_def by (rule succeeds_ebind) (rule succeeds_eret)
  fix c w4 assume c: "commitTree os l t msg w3 = (Inr c, w4)" and w4: "sound w4"
  have "stays (db w3) (db w4)" by (rule keepsD [OF commitTree_keeps [OF s] c])
  with s13 head(1) have r: "g_refs (db w4) LogRef = (if log_head l = [] then None else Some (log_head l))"
    by (simp add: stays_def)
  from postD [OF commitTree_post [OF s] c] have "c \<in> dom (g_commits (db w4))" by auto
  from git_worksD(5) [OF g w4 this r]
  show "succeeds sound (ewrap ''updating %s (the log may have been advanced concurrently): %w'' [FStr LogRef]
      (Run os (Git (log_repoDir l)) [''update-ref'', LogRef, c, log_head l])) w4"
    by (intro succeeds_ewrap Run_succeeds) simp
qed (rule succeeds_eret)

end
