(* ===== verification/Command_Success.thy ===== *)
theory Command_Success
  imports Checkpoint_Run Git_Works
begin

section \<open>The commands succeed\<close>

text \<open>
  In a sound repository, with refs whose current objects the ratchet allows, \<^verbatim>\<open>log\<close> succeeds;
  with a log key that signs, of either kind, and witnesses that cosign the signed checkpoint, \<^verbatim>\<open>checkpoint\<close> succeeds.
\<close>

subsection \<open>Recording\<close>

text \<open>A ref whose current object may be recorded after what \<open>l\<close> says of it.\<close>

definition recordable :: "commit_graph \<Rightarrow> (string \<rightharpoonup> string) \<Rightarrow> glog \<Rightarrow> string \<Rightarrow> bool" where
  "recordable G refs l x \<longleftrightarrow>
     (\<exists>k h. ParseRefKind x = Inr k \<and> refs x = Some h \<and> record_ok \<lparr>rr_Ref = x, rr_Object = h\<rparr> \<and> CHR 0x00 \<notin> set x \<and>
        (\<forall>rs. RefRecords l x = Inr rs \<longrightarrow> rs \<noteq> [] \<longrightarrow>
           rr_Object (last rs) = h \<or> k = RefBranch \<and> is_ancestor G (rr_Object (last rs)) h))"

text \<open>What a run of the loop adds to a ref's records.\<close>

definition adds :: "(string \<rightharpoonup> string) \<Rightarrow> string list \<Rightarrow> glog \<Rightarrow> glog \<Rightarrow> bool" where
  "adds refs rest l l' \<longleftrightarrow>
     (\<forall>x rs. RefRecords l x = Inr rs \<longrightarrow>
        RefRecords l' x = Inr rs \<or>
        (\<exists>h. x \<in> set rest \<and> refs x = Some h \<and> (rs = [] \<or> rr_Object (last rs) \<noteq> h) \<and>
           RefRecords l' x = Inr (rs @ [\<lparr>rr_Ref = x, rr_Object = h\<rparr>])))"

definition ref_lines :: "(string \<rightharpoonup> string) \<Rightarrow> string list \<Rightarrow> string set" where
  "ref_lines refs rest = {x @ '' '' @ h |x h. x \<in> set rest \<and> refs x = Some h}"

lemma ref_lines_Cons:
  "ref_lines refs rest \<subseteq> ref_lines refs (x # rest)" "refs x = Some h \<Longrightarrow> x @ '' '' @ h \<in> ref_lines refs (x # rest)"
  unfolding ref_lines_def by auto

lemma NewRefRecord_ok:
  assumes "record_ok \<lparr>rr_Ref = x, rr_Object = h\<rparr>"
  obtains e where "NewRefRecord x h = Inr e" "entry_ok e" "record_of e = Some \<lparr>rr_Ref = x, rr_Object = h\<rparr>"
proof -
  let ?e = "\<lparr>entry_raw = encode_record \<lparr>rr_Ref = x, rr_Object = h\<rparr>, entry_Type = TypeRefRecord\<rparr>"
  have "NewRefRecord x h = Inr ?e" using assms by (auto simp: NewRefRecord_Inr_iff record_ok_def)
  moreover have "entry_ok ?e" using ParseEntry_ok [OF ParseEntry_encode [OF assms]] .
  moreover have "record_of ?e = Some \<lparr>rr_Ref = x, rr_Object = h\<rparr>"
    by (simp add: record_of_def AsRefRecord_encode [OF assms])
  ultimately show ?thesis by (rule that)
qed

lemma log_each_succeeds:
  assumes r: "rev_parse_contract os dir refs"
  shows "log_ok l \<Longrightarrow> \<forall>x\<in>set rest. \<exists>h. refs w x = Some h \<and> record_ok \<lparr>rr_Ref = x, rr_Object = h\<rparr> \<Longrightarrow>
    \<exists>l' added'. log_each os dir l added rest w = (Inr (l', added'), w) \<and> log_ok l' \<and> adds (refs w) rest l l' \<and>
      set added' \<subseteq> set added \<union> ref_lines (refs w) rest"
proof (induction rest arbitrary: l added)
  case Nil
  then show ?case by (simp add: adds_def)
next
  case (Cons x rest)
  from Cons.prems(2) obtain h where h: "refs w x = Some h" "record_ok \<lparr>rr_Ref = x, rr_Object = h\<rparr>" by auto
  from gl.records_wf [OF Cons.prems(1)] obtain rs where rs: "RefRecords l x = Inr rs" by blast
  have mono: "ref_lines (refs w) rest \<subseteq>
      ref_lines (refs w) (x # rest)"
    "x @ '' '' @ h \<in> ref_lines (refs w) (x # rest)" using ref_lines_Cons [of "refs w"] h(1) by simp_all
  note step = log_each_step [OF r h(1) rs]
  show ?case
  proof (cases "rs \<noteq> [] \<and> rr_Object (last rs) = h")
    case True
    from Cons.IH [OF Cons.prems(1), of added] Cons.prems(2) obtain l' added' where
      l': "log_each os dir l added rest w = (Inr (l', added'), w)" "log_ok l'" "adds (refs w) rest l l'"
      "set added' \<subseteq> set added \<union> ref_lines (refs w) rest" by auto
    have "adds (refs w) (x # rest) l l'" using l'(3) by (auto simp: adds_def)
    moreover have "log_each os dir l added (x # rest) w = (Inr (l', added'), w)"
      unfolding step using True l'(1) by simp
    ultimately show ?thesis using l'(2,4) mono by (intro exI [of _ l'] exI [of _ added']) blast
  next
    case False
    obtain e where e: "NewRefRecord x h = Inr e" "entry_ok e" "record_of e = Some \<lparr>rr_Ref = x, rr_Object = h\<rparr>"
      by (rule NewRefRecord_ok [OF h(2)])
    from Cons.IH [OF gl.wf_append [OF Cons.prems(1) e(2)], of "added @ [x @ '' '' @ h]"] Cons.prems(2)
    obtain l' added' where
      l': "log_each os dir (Append l e) (added @ [x @ '' '' @ h]) rest w = (Inr (l', added'), w)" "log_ok l'"
        "adds (refs w) rest (Append l e) l'"
      and a: "set added' \<subseteq> set (added @ [x @ '' '' @ h]) \<union> ref_lines (refs w) rest"
      by auto
    have "adds (refs w) (x # rest) l l'"
      unfolding adds_def
    proof (intro allI impI)
      fix y ys assume ys: "RefRecords l y = Inr ys"
      have ap: "RefRecords (Append l e) y = Inr (ys @ (if x = y then [\<lparr>rr_Ref = x, rr_Object = h\<rparr>] else []))"
        using gl.records_append [OF Cons.prems(1) e(2) ys] e(3) by simp
      show "RefRecords l' y = Inr ys \<or>
        (\<exists>h. y \<in> set (x # rest) \<and> refs w y = Some h \<and> (ys = [] \<or> rr_Object (last ys) \<noteq> h) \<and>
           RefRecords l' y = Inr (ys @ [\<lparr>rr_Ref = y, rr_Object = h\<rparr>]))"
      proof (cases "x = y")
        case True
        with ys rs have "ys = rs" by simp
        with l'(3) ap True h(1) False show ?thesis unfolding adds_def by fastforce
      next
        case False
        with l'(3) ap show ?thesis unfolding adds_def by fastforce
      qed
    qed
    moreover have "log_each os dir l added (x # rest) w = (Inr (l', added'), w)"
      unfolding step if_not_P [OF False] e(1) sum.case by (rule l'(1))
    moreover have "set added' \<subseteq> set added \<union> ref_lines (refs w) (x # rest)"
    proof -
      have "set added' \<subseteq> insert (x @ '' '' @ h) (set added) \<union> ref_lines (refs w) rest"
        using a by simp
      with mono show ?thesis by blast
    qed
    ultimately show ?thesis using l'(2) by (intro exI [of _ l'] exI [of _ added']) blast
  qed
qed

lemma ratchet_ok_snoc:
  assumes "ratchet_ok G k objs" "objs \<noteq> [] \<Longrightarrow> last objs = h \<or> k = RefBranch \<and> is_ancestor G (last objs) h"
  shows "ratchet_ok G k (objs @ [h])"
proof (cases k)
  case RefTag
  with assms have "\<forall>a\<in>set objs. a = h" by (cases "objs = []") (auto simp: ratchet_ok_def dest: last_in_set)
  then have "\<forall>a\<in>set (objs @ [h]). a = h" by simp
  note all = bspec [OF this]
  show ?thesis unfolding ratchet_ok_def RefTag RefKind.case
  proof (intro ballI)
    fix a b assume "a \<in> set (objs @ [h])" "b \<in> set (objs @ [h])"
    then show "a = b" using all [of a] all [of b] by (simp only:)
  qed
next
  case RefBranch
  with assms have "chained (\<lambda>a b. a = b \<or> is_ancestor G a b) objs" "objs \<noteq> [] \<Longrightarrow> last objs = h \<or> is_ancestor G (last objs) h"
    by (simp_all add: ratchet_ok_def)
  then show ?thesis by (simp add: RefBranch ratchet_ok_def chained_append)
qed

lemma chains_ok_added:
  assumes "chains_ok G l" "log_ok l" "log_ok l'" "adds refs rest l l'" "\<forall>x\<in>set rest. recordable G refs l x"
  shows "chains_ok G l'"
proof -
  have d: "\<forall>e\<in>set (log_entries l'). decodable e" using assms(3) entry_ok_decodable by (auto simp: log_ok_def)
  have "\<exists>kind. ParseRefKind x = Inr kind \<and> ratchet_ok G kind (objects rs')"
    if x: "RefRecords l' x = Inr rs'" "rs' \<noteq> []" for x rs'
  proof -
    from gl.records_wf [OF assms(2)] obtain rs where rs: "RefRecords l x = Inr rs" by blast
    have old: "rs \<noteq> [] \<Longrightarrow> ParseRefKind x = Inr k \<Longrightarrow> ratchet_ok G k (objects rs)" for k
      using chains_ok_ref [OF assms(1) rs] .
    have kind: "rs \<noteq> [] \<Longrightarrow> \<exists>k. ParseRefKind x = Inr k"
      using assms(1) rs by (auto simp: chains_ok_def RefRecords_Inr_iff filter_empty_conv)
    from assms(4) rs consider "RefRecords l' x = Inr rs"
      | h where "x \<in> set rest" "refs x = Some h" "RefRecords l' x = Inr (rs @ [\<lparr>rr_Ref = x, rr_Object = h\<rparr>])"
      unfolding adds_def by blast
    then show ?thesis
    proof cases
      case 1
      with x have "rs' = rs" by simp
      with x(2) kind old show ?thesis by blast
    next
      case 2
      with assms(5) obtain k where k: "ParseRefKind x = Inr k"
        "rs \<noteq> [] \<Longrightarrow> rr_Object (last rs) = h \<or> k = RefBranch \<and> is_ancestor G (rr_Object (last rs)) h"
        using rs unfolding recordable_def by fastforce
      have "ratchet_ok G k (objects rs)"
        using old [OF _ k(1)] by (cases "rs = []") (auto simp: ratchet_ok_def split: RefKind.split)
      from ratchet_ok_snoc [OF this, of h] k(2) have "ratchet_ok G k (objects rs @ [h])" by (auto simp: last_map)
      with 2(3) x(1) k(1) show ?thesis by auto
    qed
  qed
  with d show ?thesis by (auto simp: chains_ok_def RefRecords_Inr_iff filter_empty_conv)
qed

lemma Join_chars: "c \<in> set (Join ls sep) \<Longrightarrow> c \<in> set sep \<or> (\<exists>l\<in>set ls. c \<in> set l)"
proof (induction ls)
  case (Cons l ls)
  then show ?case by (cases "ls = []") (auto simp: Join_Cons)
qed simp

text \<open>What it takes to save: the head the log was opened at is a commit of the repository.\<close>

lemma Save_log_succeeds:
  assumes g: "git_works (d_os D) dir (d_tessera D) db sound"
    and env: "git_objects (d_os D) dir db" "map_order_contract (d_os D)" "layout_contract (d_tessera D)"
    and l: "repo_log (d_tessera D) (db w) es cp head" and ok: "\<forall>e\<in>set es'. entry_ok e" "go_len es'"
    and msg: "CHR 0x00 \<notin> set msg" and st: "stays (db w) (db w1)" and w: "sound w1"
  shows "succeeds sound (Save (d_os D) (d_tessera D) (the_log dir es' cp0 head) cp' msg) w1"
proof (rule Save_succeeds [where db = db])
  have "head = [] \<or> head \<in> dom (g_commits (db w))"
    using l by (auto simp: repo_log_def holds_log_def log_tree_def split: if_splits option.splits)
  with st show "log_head (the_log dir es' cp0 head) = [] \<or> log_head (the_log dir es' cp0 head) \<in> dom (g_commits (db w1))"
    by (auto simp: stays_def grows_def map_le_def dom_def)
  show "g_refs (db w1) LogRef = (if log_head (the_log dir es' cp0 head) = [] then None
      else Some (log_head (the_log dir es' cp0 head)))"
    using repo_log_head [OF l] st by (simp add: stays_def)
qed (use g env ok msg w in auto)

lemma logRefs_opened_succeeds:
  assumes g: "git_works (d_os D) dir (d_tessera D) db sound"
    and anc: "ancestry_contract (d_os D) dir graph" and rev: "rev_parse_contract (d_os D) dir refs"
    and env: "git_objects (d_os D) dir db" "map_order_contract (d_os D)" "layout_contract (d_tessera D)"
    and l: "repo_log (d_tessera D) (db w) es0 cp0 head" and ok: "\<forall>e\<in>set es. entry_ok e"
    and op: "Open (d_os D) (d_tessera D) dir w = (Inr (the_log dir es cp head), w)"
    and st: "storedSize (d_log D) (the_log dir es cp head) = Inr stored"
    and len: "length es + length rs < 2 ^ 63" and ch: "chains_ok (graph w) (the_log dir es cp head)"
    and rec: "\<forall>x\<in>set rs. recordable (graph w) (refs w) (the_log dir es cp head) x" and w: "sound w"
  shows "succeeds sound (logRefs D dir rs) w"
proof -
  have lok: "log_ok (the_log dir es cp head)" using ok by (simp add: log_ok_def)
  have "\<forall>x\<in>set rs. \<exists>h. refs w x = Some h \<and> record_ok \<lparr>rr_Ref = x, rr_Object = h\<rparr>"
    using rec unfolding recordable_def by blast
  from log_each_succeeds [OF rev lok this, of "[]"] obtain l' added where
    le: "log_each (d_os D) dir (the_log dir es cp head) [] rs w = (Inr (l', added), w)" and
    l': "log_ok l'" "adds (refs w) rs (the_log dir es cp head) l'" and
    a: "set added \<subseteq> ref_lines (refs w) rs" by auto
  have ch': "chains_ok (graph w) l'" by (rule chains_ok_added [OF ch lok l' rec])
  obtain new where new: "l' = the_log dir (es @ new) cp head" "\<forall>e\<in>set (es @ new). entry_ok e" "go_len (es @ new)"
    by (rule log_each_records [OF rev ok len le ch'])
  have nul: "CHR 0x00 \<notin> set s" if "s \<in> set added" for s
  proof -
    from that a obtain x h where x: "s = x @ '' '' @ h" "x \<in> set rs" "refs w x = Some h"
      unfolding ref_lines_def by blast
    with rec have "CHR 0x00 \<notin> set x" "object_ok h" unfolding recordable_def record_ok_def by auto
    then show ?thesis unfolding x(1) by (auto simp: object_ok_def lower_hex_char_def)
  qed
  have msg: "CHR 0x00 \<notin> set (''ratchet: log '' @ Join added '', '')" using nul by (auto dest: Join_chars)
  have sv: "succeeds sound (Save (d_os D) (d_tessera D) l' cp (''ratchet: log '' @ Join added '', '')) w"
    unfolding new(1) by (rule Save_log_succeeds [OF g env l new(2,3) msg _ w]) simp
  then obtain l2 w2 where s2: "Save (d_os D) (d_tessera D) l' cp (''ratchet: log '' @ Join added '', '') w = (Inr l2, w2)"
    "sound w2" by (rule succeedsE)
  obtain c where "l2 = the_log dir (es @ new) cp c" by (rule Save_repo_log [OF env new(2,3) s2(1) [unfolded new(1)]])
  with st have "storedSize (d_log D) l2 = Inr stored" using storedSize_the_log by metis
  with logRefs_opened [OF anc rev env(2) op, of rs] le ch' s2 w show ?thesis
    by (auto simp: succeeds_def ebind_Inr)
qed

lemma logRefs_succeeds:
  assumes g: "git_works (d_os D) dir (d_tessera D) db sound" and env: "repo_env D dir db graph refs"
    and l: "repo_log (d_tessera D) (db w) es cp head"
    and "storedSize (d_log D) (the_log dir es cp head) = Inr stored" "length es + length rs < 2 ^ 63"
    and "chains_ok (graph w) (the_log dir es cp head)"
    and "\<forall>x\<in>set rs. recordable (graph w) (refs w) (the_log dir es cp head) x" "sound w"
  shows "succeeds sound (logRefs D dir rs) w"
proof (rule logRefs_opened_succeeds [OF g repo_envD(2,3,1,4,5) [OF env] l _ Open_repo_log [OF env l] assms(4-)])
  show "\<forall>e\<in>set es. entry_ok e" using l by (simp add: repo_log_def)
qed

subsection \<open>Checkpointing\<close>

text \<open>
  The witnesses, each asked alone, reach a quorum for a note: none rejects the proof or the root,
  and the policy is satisfied by the cosignatures they give, in whatever order these arrive.
\<close>

definition quorum_reached ::
    "('w, 'rng, 'nodes) deps \<Rightarrow> tlog_policy \<Rightarrow> glog \<Rightarrow> uint64 \<Rightarrow> string \<Rightarrow> 'w \<Rightarrow> bool" where
  "quorum_reached D pol l old sn w \<longleftrightarrow>
     (\<forall>(name, r)\<in>set (outcomes D pol l old sn w). \<not> fatal r) \<and>
     (\<forall>lines. mset lines = mset (obtained (outcomes D pol l old sn w)) \<longrightarrow>
        pol_Satisfied pol (foldl AppendSignature sn lines))"

definition exchanges_sound :: "('w, 'rng, 'nodes) deps \<Rightarrow> ('w \<Rightarrow> bool) \<Rightarrow> bool" where
  "exchanges_sound D sound \<longleftrightarrow> (\<forall>u from sn pf w. sound w \<longrightarrow> sound (snd (d_Update D u from sn pf w)))"

lemma submit_sound: "exchanges_sound D sound \<Longrightarrow> sound w \<Longrightarrow> submit D u l sn from w = (r, w') \<Longrightarrow> sound w'"
  unfolding exchanges_sound_def submit_def by (auto split: sum.splits) (metis snd_conv)

lemma goroutine_step_sound:
  assumes "exchanges_sound D sound" "sound (cos_world st)"
  shows "sound (cos_world (goroutine_step D ws l old sn i st))"
  using assms(2)
  by (cases "cos_procs st ! i"; cases "w_URL (ws ! i)")
     (auto simp: goroutine_step_def Let_def dest: submit_sound [OF assms(1,2)] split: prod.splits option.splits)

lemma collectCosignatures_succeeds:
  assumes "independent D view" "endpoints_distinct (pol_Witnesses pol)" "exchanges_sound D sound"
    and "quorum_reached D pol l old sn w" "sound w"
  obtains lines w' where "collectCosignatures D sched pol l old sn w = (Inr lines, w')" "sound w'"
    "pol_Satisfied pol (foldl AppendSignature sn lines)"
proof -
  obtain r w' where r: "collectCosignatures D sched pol l old sn w = (r, w')" by fastforce
  have "sound (cos_world (fold (goroutine_step D ws l old sn) is' st))" if "sound (cos_world st)" for ws is' st
    using that by (induction is' arbitrary: st) (auto intro: goroutine_step_sound [OF assms(3)])
  moreover have "cos_world (cosigning_start (pol_Witnesses pol) w) = w" by (simp add: cosigning_start_def)
  ultimately have "sound (snd (collectCosignatures D sched pol l old sn w))"
    using assms(5) unfolding collectCosignatures_def Let_def cosign_run_def snd_conv by metis
  then have s: "sound w'" by (simp add: r)
  from collectCosignatures_verdict [OF assms(1,2), where sched = sched and l = l and old = old and sn = sn and w = w]
  show ?thesis
  proof (cases r)
    case (Inl e)
    with collectCosignatures_verdict [OF assms(1,2), where sched = sched and l = l and old = old and sn = sn and w = w] r
    have "\<exists>(n, r)\<in>set (outcomes D pol l old sn w). fatal r" by simp
    with assms(4) show ?thesis unfolding quorum_reached_def by blast
  next
    case (Inr lines)
    with collectCosignatures_verdict [OF assms(1,2), where sched = sched and l = l and old = old and sn = sn and w = w] r
    have "mset lines = mset (obtained (outcomes D pol l old sn w))" by simp
    with assms(4) have "pol_Satisfied pol (foldl AppendSignature sn lines)" unfolding quorum_reached_def by blast
    with r Inr s show ?thesis by (intro that) simp_all
  qed
qed

lemma checkpointMessage_chars: "CHR 0x00 \<notin> set (checkpointMessage l)"
proof -
  have "CHR 0x00 \<notin> set (decimal n)" for n using decimal_digits [of "CHR 0x00" n] by (auto simp: is_digit_def)
  then show ?thesis by (simp add: checkpointMessage_def FormatUint10_def)
qed

text \<open>A log key that can sign: every checkpoint of the origin is signed, and the repository is left sound.\<close>

definition signs_checkpoints ::
    "('w, 'rng, 'nodes) deps \<Rightarrow> string \<Rightarrow> Signer \<Rightarrow> ('w \<Rightarrow> bool) \<Rightarrow> bool" where
  "signs_checkpoints D origin signer sound \<longleftrightarrow> (\<forall>n h w. is_hash h \<longrightarrow> sound w \<longrightarrow>
     succeeds sound (SignTlogCheckpoint (d_crypto D) (d_formats D) (d_log D)
       (checkpoint_Marshal (d_log D) (NewCheckpoint origin n h)) signer) w)"

lemma checkpoint_body:
  assumes "checkpoint_format FL origin" "is_hash h"
  shows "HasSuffix (checkpoint_Marshal FL (NewCheckpoint origin n h)) [nl]"
    "ParseCheckpoint FL (checkpoint_Marshal FL (NewCheckpoint origin n h)) = Inr (NewCheckpoint origin n h, h)"
proof -
  have b: "body_ok (checkpoint_Marshal FL (NewCheckpoint origin n h))"
    and u: "checkpoint_Unmarshal FL (checkpoint_Marshal FL (NewCheckpoint origin n h)) = Inr (NewCheckpoint origin n h)"
    using assms unfolding checkpoint_format_def by blast+
  show "HasSuffix (checkpoint_Marshal FL (NewCheckpoint origin n h)) [nl]" by (rule body_ok_newline [OF b])
  show "ParseCheckpoint FL (checkpoint_Marshal FL (NewCheckpoint origin n h)) = Inr (NewCheckpoint origin n h, h)"
    using u assms(2) by (simp add: ParseCheckpoint_Inr_iff NewCheckpoint_def)
qed

text \<open>
  A local Ed25519 key always can; an ML-DSA-44 key can when the library builds a signer from it and
  signs with that.
\<close>

lemma signs_checkpoints_ed25519:
  assumes "checkpoint_format (d_log D) origin"
    and s: "local_signer (d_crypto D) signer" "s_Role signer = RoleOrigin" "s_SigType signer = Ed25519Origin"
  shows "signs_checkpoints D origin signer sound"
  unfolding signs_checkpoints_def
proof (intro allI impI)
  fix n h w assume "is_hash h" and w: "sound w"
  note b = checkpoint_body [OF assms(1) this(1), of n]
  show "succeeds sound (SignTlogCheckpoint (d_crypto D) (d_formats D) (d_log D)
      (checkpoint_Marshal (d_log D) (NewCheckpoint origin n h)) signer) w"
    using Sign_local [OF s b(1)] w by (simp add: SignTlogCheckpoint_ed25519 [OF s(2,3) b(2)] succeeds_def)
qed

lemma signs_checkpoints_mldsa:
  assumes "checkpoint_format (d_log D) origin" "s_Role signer = RoleOrigin" "s_SigType signer = MLDSA44"
    and "checkpointSigner (d_formats D) signer = Inr ns"
    and lib: "\<forall>text w. sound w \<longrightarrow> succeeds sound (sumdb_Sign (d_formats D) text ns) w"
  shows "signs_checkpoints D origin signer sound"
  unfolding signs_checkpoints_def
proof (intro allI impI)
  fix n h w assume "is_hash h" and w: "sound w"
  let ?b = "checkpoint_Marshal (d_log D) (NewCheckpoint origin n h)"
  note b = checkpoint_body [OF assms(1) \<open>is_hash h\<close>, of n]
  have "SignTlogCheckpoint (d_crypto D) (d_formats D) (d_log D) ?b signer =
      ewrap ''signing checkpoint: %w'' [] (sumdb_Sign (d_formats D) ?b ns)"
    using assms(2-4) b(2) by (intro ext) (simp add: SignTlogCheckpoint_def SigType_defs ebind_def elift_def)
  moreover obtain sn w' where "sumdb_Sign (d_formats D) ?b ns w = (Inr sn, w')" "sound w'"
    using lib w by (blast elim: succeedsE)
  ultimately show "succeeds sound (SignTlogCheckpoint (d_crypto D) (d_formats D) (d_log D) ?b signer) w"
    by (simp add: succeeds_def ewrap_def)
qed

text \<open>The witnesses reach a quorum for the one note that is put to them: the signed checkpoint of the log.\<close>

definition checkpoint_gets_quorum ::
    "('w, 'rng, 'nodes) deps \<Rightarrow> string \<Rightarrow> Signer \<Rightarrow> tlog_policy \<Rightarrow> glog \<Rightarrow> uint64 \<Rightarrow> 'w \<Rightarrow> bool" where
  "checkpoint_gets_quorum D origin signer pol l old w \<longleftrightarrow>
     (\<forall>root sn w'. LogRoot (d_merkle D) l = Inr root \<longrightarrow>
        SignTlogCheckpoint (d_crypto D) (d_formats D) (d_log D)
          (checkpoint_Marshal (d_log D) (NewCheckpoint origin (Size l) root)) signer w = (Inr sn, w') \<longrightarrow>
        quorum_reached D pol l old sn w')"

lemma checkpointLog_succeeds:
  assumes g: "git_works (d_os D) dir (d_tessera D) db sound" and env: "repo_env D dir db graph refs"
    and l: "repo_log (d_tessera D) (db w) es cp head" and net: "network_contract D db"
    and lib: "hasher_contract (d_merkle D)" "range_contract (d_merkle D) repr"
    and s: "signs_checkpoints D origin signer sound"
    and st: "storedSize (d_log D) (the_log dir es cp head) = Inr old"
    and ne: "es \<noteq> []" and ch: "chains_ok (graph w) (the_log dir es cp head)"
    and wits: "independent D view" "endpoints_distinct (pol_Witnesses pol)" "exchanges_sound D sound"
    and q: "checkpoint_gets_quorum D origin signer pol (the_log dir es cp head) old w" and w: "sound w"
  shows "succeeds sound (checkpointLog D sched dir origin signer pol) w"
proof -
  let ?l = "the_log dir es cp head"
  let ?root = "tree_hash (d_merkle D) (leaf_list (d_merkle D) es)"
  let ?body = "checkpoint_Marshal (d_log D) (NewCheckpoint origin (of_nat (length es)) ?root)"
  have ok: "\<forall>e\<in>set es. entry_ok e" "go_len es" using l by (auto simp: repo_log_def)
  have h: "is_hash ?root" by (rule tree_hash_is_hash [OF lib(1) leaf_list_hashes [OF lib(1)]])
  have root: "LogRoot (d_merkle D) ?l = Inr ?root" using LogRoot_Inr [OF lib, of ?l] by simp
  obtain sn w0 where sn: "SignTlogCheckpoint (d_crypto D) (d_formats D) (d_log D) ?body signer w = (Inr sn, w0)"
    and w0: "sound w0" using s h w unfolding signs_checkpoints_def by (blast elim: succeedsE)
  have q: "quorum_reached D pol ?l old sn w0"
    using q root sn unfolding checkpoint_gets_quorum_def by simp
  obtain lines w1 where co: "collectCosignatures D sched pol ?l old sn w0 = (Inr lines, w1)" and w1: "sound w1"
    and sat: "pol_Satisfied pol (foldl AppendSignature sn lines)"
    by (rule collectCosignatures_succeeds [OF wits q w0])
  have "stays (db w) (db w0)" by (rule keepsD [OF SignTlogCheckpoint_keeps [OF net] sn])
  moreover have "stays (db w0) (db w1)" by (rule keepsD [OF collectCosignatures_keeps [OF net] co])
  ultimately have "stays (db w) (db w1)" by (rule stays_trans)
  from Save_log_succeeds [OF g repo_envD(1,4,5) [OF env] l ok checkpointMessage_chars this w1]
  obtain l2 w2 where sv: "Save (d_os D) (d_tessera D) ?l (foldl AppendSignature sn lines) (checkpointMessage ?l) w1
      = (Inr l2, w2)" "sound w2" by (rule succeedsE)
  have lc: "logToCheckpoint D dir w = (Inr (?l, old), w)"
    using logToCheckpoint_iff [OF env l] ne ch st by blast
  have "checkpointLog D sched dir origin signer pol w = (Inr (Size l2, length lines), w2)"
    unfolding checkpointLog_def using lc root sn co sat sv
    by (simp add: ebind_def ewrap_def Let_def)
  with sv(2) show ?thesis by (simp add: succeeds_def)
qed

subsection \<open>One after the other\<close>

lemma log_then_checkpoint:
  assumes env: "repo_env D dir db graph refs" and view: "refs_view db refs" "graph_view db graph"
    and net: "network_contract D db" and fmt: "checkpoint_format (d_log D) origin"
    and lib: "hasher_contract (d_merkle D)" "range_contract (d_merkle D) repr" "note_sign_contract (d_formats D)"
    and l: "repo_log (d_tessera D) (db w) es cp head" and len: "length es + length rs < 2 ^ 63" "rs \<noteq> []"
    and st: "storedSize (d_log D) (the_log dir es cp head) = Inr old"
    and ch: "chains_ok (graph w) (the_log dir es cp head)"
    and rec: "\<forall>x\<in>set rs. recordable (graph w) (refs w) (the_log dir es cp head) x"
    and ex: "\<forall>x\<in>set rs. \<exists>k h. ParseRefKind x = Inr k \<and> g_refs (db w) x = Some h \<and> object_id h \<and> peel (graph w) h \<noteq> None"
    and g: "git_works (d_os D) dir (d_tessera D) db sound" "sound w" "exchanges_sound D sound"
    and s: "signs_checkpoints D origin signer sound"
    and wits: "independent D view" "endpoints_distinct (pol_Witnesses pol)"
    and q: "\<forall>summary w1 es' c. logRefs D dir rs w = (Inr summary, w1) \<longrightarrow>
      repo_log (d_tessera D) (db w1) es' cp c \<longrightarrow>
      checkpoint_gets_quorum D origin signer pol (the_log dir es' cp c) old w1"
  shows "\<exists>summary w1 n k w2 es' cp' c.
    logRefs D dir rs w = (Inr summary, w1) \<and>
    checkpointLog D sched dir origin signer pol w1 = (Inr (n, k), w2) \<and>
    prefix es es' \<and> repo_log (d_tessera D) (db w2) es' cp' c \<and> pol_Satisfied pol cp' \<and>
    (\<forall>pol'. pol_Verify pol' cp' = Inr () \<longrightarrow> checkpointedLog D dir pol' w2 = (Inr (the_log dir es' cp' c), w2)) \<and>
    (\<forall>x\<in>set rs. verifySingleRef (d_os D) dir x (the_log dir es' cp' c) w2 = (Inr (), w2))"
proof -
  obtain summary w1 where r: "logRefs D dir rs w = (Inr summary, w1)" "sound w1"
    by (rule succeedsE [OF logRefs_succeeds [OF g(1) env l st len(1) ch rec g(2)]])
  obtain es' c1 where w1: "prefix es es'" "repo_log (d_tessera D) (db w1) es' cp c1" "grows (db w) (db w1)"
    and up: "\<forall>x\<in>set rs. up_to_date (refs w) (the_log dir es' cp c1) x"
    and ch': "chains_ok (graph w) (the_log dir es cp head) \<longrightarrow> chains_ok (graph w) (the_log dir es' cp c1)"
    by (rule logRefs_recorded [OF env l len(1) r(1)])
  have "up_to_date (refs w) (the_log dir es' cp c1) (hd rs)" using up len(2) by simp
  then have ne: "es' \<noteq> []" by (auto simp: up_to_date_def RefRecords_Inr_iff)
  have st1: "storedSize (d_log D) (the_log dir es' cp c1) = Inr old" using st storedSize_the_log by metis
  have sub: "subgraph (graph w) (graph w1)" using view(2) w1(3) unfolding graph_view_def by blast
  have ch1: "chains_ok (graph w1) (the_log dir es' cp c1)"
    using chains_ok_subgraph [OF sub] ch ch' by blast
  have q1: "checkpoint_gets_quorum D origin signer pol (the_log dir es' cp c1) old w1" using q r(1) w1(2) by blast
  obtain nk w2 where r2: "checkpointLog D sched dir origin signer pol w1 = (Inr nk, w2)"
    by (rule succeedsE [OF checkpointLog_succeeds [OF g(1) env w1(2) net lib(1,2) s st1 ne ch1 wits g(3) q1 r(2)]])
  obtain n k where nk: "nk = (n, k)" by force
  show ?thesis using r(1) r2 unfolding nk
    by (rule checkpointed_refs_verify [OF env view net fmt lib l len(1) ex]) (use r(1) r2 nk in blast)
qed

end
