(* ===== verification/Example_Works.thy ===== *)
theory Example_Works
  imports Example_Run Command_Success
begin

section \<open>The example git works\<close>

text \<open>
  The example repository satisfies \<open>git_works\<close>: it is sound where no object has a name that the
  counter has not handed out yet.
\<close>

definition ex_sound :: "ex_world \<Rightarrow> bool" where
  "ex_sound w \<longleftrightarrow> (\<forall>n\<ge>x_next w. map_of (x_blobs w) (''b'' @ decimal n) = None \<and>
     map_of (x_trees w) (''t'' @ decimal n) = None \<and> map_of (x_commits w) (''c'' @ decimal n) = None)"

lemma ex_sound_now:
  "ex_sound w \<Longrightarrow> map_of (x_blobs w) (CHR ''b'' # decimal (x_next w)) = None"
  "ex_sound w \<Longrightarrow> map_of (x_trees w) (CHR ''t'' # decimal (x_next w)) = None"
  "ex_sound w \<Longrightarrow> map_of (x_commits w) (CHR ''c'' # decimal (x_next w)) = None"
  by (simp_all add: ex_sound_def)

lemma ex_sound_hash_object: "ex_sound w \<Longrightarrow> exits_zero ex_sound (ex_hash_object inp w)"
  by (auto simp: ex_hash_object_def Let_def ex_sound_now exits_zero_def printed_def)
     (auto simp: ex_sound_def)

lemma ex_sound_write_tree: "ex_sound w \<Longrightarrow> index_file_of env = Some f \<Longrightarrow> exits_zero ex_sound (ex_write_tree env w)"
  by (auto simp: ex_write_tree_def Let_def ex_sound_now exits_zero_def printed_def)
     (auto simp: ex_sound_def)

lemma ex_sound_commit_tree: "ex_sound w \<Longrightarrow> exits_zero ex_sound (ex_commit_tree tree ps msg w)"
  by (auto simp: ex_commit_tree_def Let_def ex_sound_now exits_zero_def printed_def)
     (auto simp: ex_sound_def)

lemma ex_sound_update_index:
  assumes "ex_sound w" "CHR '','' \<notin> set blob"
  shows "exits_zero ex_sound (ex_update_index (cacheinfo blob path) (Some (env @ [''GIT_INDEX_FILE='' @ f])) w)"
proof -
  have "CutPrefix (cacheinfo blob path) ''100644,'' = Some (blob @ '','' @ path)"
    by (simp add: cacheinfo_def CutPrefix_def)
  moreover have "Cut (blob @ '','' @ path) '','' = (blob, path, True)" using Cut_char [OF assms(2), of path] by simp
  ultimately show ?thesis using assms(1) ex_index_file [of env f]
    by (simp add: ex_update_index_def exits_zero_def printed_def ex_sound_def)
qed

lemma ex_works: "git_works ex_os dir TL ex_db ex_sound"
  unfolding git_works_def ex_os_git ex_git_commands
proof (intro conjI allI impI)
  fix env :: "string list" and f :: string and w assume "ex_sound w"
  then show "exits_zero ex_sound (ex_write_tree (Some (env @ [''GIT_INDEX_FILE='' @ f])) w)"
    by (rule ex_sound_write_tree [OF _ ex_index_file])
next
  fix env tree parent message w assume "ex_sound w"
  then show "exits_zero ex_sound (ex_git ([''commit-tree'', tree] @ (if parent \<noteq> [] then [''-p'', parent] else []) @ [''-m'', message]) env None w)"
    by (cases "parent = []") (simp_all add: ex_git_commands ex_sound_commit_tree)
next
  fix new old w assume "ex_sound w" "g_refs (ex_db w) LogRef = (if old = [] then None else Some old)"
  then show "exits_zero ex_sound (ex_update_ref LogRef new old w)"
    by (simp add: ex_update_ref_def ex_db_def exits_zero_def printed_def ex_sound_def)
next
  fix env f blob path w assume "ex_sound w" "CHR '','' \<notin> set blob"
  then show "exits_zero ex_sound (ex_update_index (cacheinfo blob path) (Some (env @ [''GIT_INDEX_FILE='' @ f])) w)"
    by (rule ex_sound_update_index)
qed (simp_all add: ex_sound_hash_object ex_os_def succeeds_def ex_sound_def)

lemma ex_sound_start: "ex_sound (ex_start h)"
proof -
  have "CHR ''c'' # z \<noteq> replicate 40 y" if "y \<noteq> CHR ''c''" for y z
  proof
    assume "CHR ''c'' # z = replicate 40 y"
    then have "hd (CHR ''c'' # z) = hd (replicate 40 y)" by (simp only:)
    with that show False by simp
  qed
  then show ?thesis by (auto simp: ex_sound_def ex_start_def ex_c1_def ex_c2_def)
qed

text \<open>The example's witnesses keep no state, and asking them leaves the repository as it is.\<close>

lemma ex_independent: "independent ex_deps (\<lambda>w u. ())"
  by (simp add: independent_def ex_deps_def)

lemma ex_exchanges: "exchanges_sound ex_deps ex_sound"
  by (simp add: exchanges_sound_def ex_deps_def)

lemma ex_submit_first:
  assumes "go_len (log_entries l)" "ex_cosign sn = Inr line"
  shows "submit ex_deps u l sn 0 w = ((line @ [nl], 0, None), w)"
proof -
  have "hasher_contract (d_merkle ex_deps)" "range_contract (d_merkle ex_deps) (=)" "proof_contract (d_merkle ex_deps)"
    using ex_merkle_hasher ex_merkle_range ex_merkle_proof by simp_all
  from ConsistencyProofFrom_verified [OF this assms(1), of 0]
  obtain p where "ConsistencyProofFrom (d_merkle ex_deps) l 0 = Inr p"
    by (cases "ConsistencyProofFrom (d_merkle ex_deps) l 0") auto
  then show ?thesis by (simp add: submit_def ex_deps_def assms(2))
qed

text \<open>What the witness answers to a signed checkpoint.\<close>

definition ex_cosig_line :: "string \<Rightarrow> string" where
  "ex_cosig_line body = sig_line ''wit'' (cosig_raw (ex_crypto :: unit crypto) ex_cosigner 1700000000 body)"

lemma ex_cosign_note:
  assumes "body_ok body"
  shows "ex_cosign (note_text body [ex_mldsa_line ''log'' body]) = Inr (ex_cosig_line body)"
proof -
  have x: "ExtractBody (note_text body [ex_mldsa_line ''log'' body]) = Inr body"
    by (rule ExtractBody_note_text [OF assms]) (simp add: ex_mldsa_line_def sig_line_ok)
  have "time_Now_Unix (ex_crypto :: unit crypto) () = (1700000000, ())" by (simp add: ex_crypto_def)
  from Cosign_local [OF ex_signers(5,7,8) x this] show ?thesis
    by (simp add: ex_cosign_def ex_cosig_line_def ex_signers)
qed

lemma ex_cosig_trimmed: "TrimSpace (ex_cosig_line body @ [nl]) = ex_cosig_line body"
proof -
  let ?r = "cosig_raw (ex_crypto :: unit crypto) ex_cosigner 1700000000 body"
  have "0 < length ?r" by (simp add: cosig_raw_def)
  then obtain c k where r: "?r = c # k" by (cases ?r) auto
  have ne: "b64_encode (c # k) \<noteq> []" by (cases k rule: remdups_adj.cases) auto
  then have "last (ex_cosig_line body) \<in> set (b64_encode (c # k))"
    unfolding ex_cosig_line_def sig_line_def r by simp
  then have "\<not> is_space_edge (last (ex_cosig_line body))" by (rule b64_not_space)
  moreover have "\<forall>r\<in>set space_runes. \<not> prefix r (ex_cosig_line body)"
    by (simp add: ex_cosig_line_def sig_line_def SigPrefix_def space_runes_def upt_rec) code_simp
  moreover have "ex_cosig_line body \<noteq> []" by (simp add: ex_cosig_line_def sig_line_def)
  ultimately show ?thesis by (intro TrimSpace_line)
qed

subsection \<open>A run of \<^verbatim>\<open>log\<close> and \<^verbatim>\<open>checkpoint\<close>\<close>

lemma ex_repo_env: "repo_log (d_tessera ex_deps) (ex_db (ex_repo h ex_log_entries cp)) ex_log_entries cp ''c3''"
  using ex_repo_log [OF ex_log_entries] by simp

lemma ex_log_size: "length ex_log_entries = 2"
  by (simp add: ex_log_entries_def)

text \<open>
  A policy with one log, that signs with an ML-DSA-44 key, and one witness: a note satisfies it if it has
  a line with the log's signature and a line that verifies as the witness's cosignature.
\<close>

definition ex_policy_holds :: "string \<Rightarrow> bool" where
  "ex_policy_holds n \<longleftrightarrow> (case ParseSignedNote n of Inl e \<Rightarrow> False
     | Inr (body, lines) \<Rightarrow> ex_mldsa_line ''log'' body \<in> set lines \<and>
         (\<exists>line\<in>set lines. VerifyCosignature (ex_crypto :: unit crypto) body line (s_pub ex_cosigner) Ed25519Cosigner = Inr ()))"

definition ex_policy :: tlog_policy where
  "ex_policy = \<lparr>pol_Witnesses = [\<lparr>w_Name = ''wit'',
       w_URL = Some \<lparr>url_Scheme = ''https'', url_Host = ''w'', url_Path = []\<rparr>\<rparr>],
     pol_Quorum = ''q'', pol_Satisfied = ex_policy_holds,
     pol_Verify = (\<lambda>n. if ex_policy_holds n then Inr () else Inl (Errorf ''policy not satisfied'' []))\<rparr>"

lemma ex_policy_accepts: "pol_Satisfied ex_policy n \<Longrightarrow> pol_Verify ex_policy n = Inr ()"
  by (simp add: ex_policy_def)

lemma ex_policy_cosigned:
  assumes "body_ok body"
  shows "ex_policy_holds (note_text body [ex_mldsa_line ''log'' body, ex_cosig_line body])"
proof -
  have l: "sig_lines_ok ([ex_mldsa_line ''log'' body] @ [ex_cosig_line body])"
    by (rule sig_lines_ok_snoc) (simp_all add: ex_mldsa_line_def ex_cosig_line_def sig_line_ok)
  have "VerifyCosignature (ex_crypto :: unit crypto) body (ex_cosig_line body) (s_pub ex_cosigner) Ed25519Cosigner = Inr ()"
    using VerifyCosignature_local [OF ex_crypto_contracts(1,2) ex_signers(5,8), where body = body and t = 1700000000]
    by (simp add: ex_cosig_line_def ex_signers)
  with ParseSignedNote_note_text [OF assms l] show ?thesis by (simp add: ex_policy_holds_def)
qed

lemma ex_policy_unsigned: "\<not> pol_Satisfied ex_policy []"
  by (simp add: ex_policy_def ex_policy_holds_def ParseSignedNote_def ExtractBody_def SigPrefix_def)

lemma ex_graph_view: "graph_view ex_db ex_graph"
  unfolding graph_view_def
proof (intro allI impI)
  fix w w' assume "grows (ex_db w) (ex_db w')"
  then have "map_of (x_commits w) \<subseteq>\<^sub>m map_of (x_commits w')" by (simp add: grows_def ex_db_def)
  then have m: "map_of (x_commits w) c = Some v \<Longrightarrow> map_of (x_commits w') c = Some v" for c v
    by (metis domI map_le_def)
  then have "peel (ex_graph w) a = Some c \<Longrightarrow> peel (ex_graph w') a = Some c" for a c
    by (auto simp: ex_graph_def split: if_splits)
  moreover have "set (parents (ex_graph w) c) \<subseteq> set (parents (ex_graph w') c)" for c
    using m [of c] by (cases "map_of (x_commits w) c") (simp_all add: ex_graph_def)
  ultimately show "subgraph (ex_graph w) (ex_graph w')" by (simp add: subgraph_def)
qed

text \<open>The branch \<open>ex_main\<close> at its first commit, with no log, and one witness.\<close>

lemma ex_checkpoint_libs: "checkpoint_format (d_log ex_deps) ''log''"
  "hasher_contract (d_merkle ex_deps)" "range_contract (d_merkle ex_deps) (=)"
  using ex_checkpoint_format ex_merkle_hasher ex_merkle_range by simp_all

lemma ex_signs: "signs_checkpoints ex_deps ''log'' ex_mldsa_origin ex_sound"
proof (rule signs_checkpoints_mldsa)
  show "checkpointSigner (d_formats ex_deps) ex_mldsa_origin = Inr \<lparr>ns_Name = ''log'', ns_Sign = (\<lambda>t. eret (fit 2420 t))\<rparr>"
    using ex_mldsa_checkpointSigner by simp
qed (simp_all add: ex_mldsa_signer ex_checkpoint_libs [simplified] ex_formats_def succeeds_def)

lemma ex_start_state: "repo_log (d_tessera ex_deps) (ex_db (ex_start h)) [] [] []"
  "length ([] :: entry list) + length [ex_main] < 2 ^ 63" "[ex_main] \<noteq> []"
  "storedSize (d_log ex_deps) (the_log dir [] [] []) = Inr 0" "chains_ok G (the_log dir [] [] [])"
  using ex_start_log by (simp_all add: storedSize_def chains_ok_def)

lemma ex_start_main: "g_refs (ex_db (ex_start ex_c1)) ex_main = Some ex_c1" "peel (ex_graph (ex_start ex_c1)) ex_c1 = Some ex_c1"
  "ex_refs (ex_start ex_c1) ex_main = Some ex_c1"
  using ex_commit_id by (simp_all add: ex_db_def ex_start_def ex_graph_def ex_refs_def)

lemma ex_start_recordable:
  "\<forall>x\<in>set [ex_main]. recordable (ex_graph (ex_start ex_c1)) (ex_refs (ex_start ex_c1)) (the_log dir [] [] []) x"
  using ex_record_ok [OF ex_object(1)]
  by (simp add: recordable_def ex_main_kind RefRecords_Inr_iff ex_record_def ex_start_main) (simp add: ex_main_def)

lemma ex_start_present:
  "\<forall>x\<in>set [ex_main]. \<exists>k h. ParseRefKind x = Inr k \<and> g_refs (ex_db (ex_start ex_c1)) x = Some h \<and> object_id h \<and>
     peel (ex_graph (ex_start ex_c1)) h \<noteq> None"
  by (simp add: ex_start_main ex_main_kind ex_commit_id)

lemma ex_works_deps: "git_works (d_os ex_deps) dir (d_tessera ex_deps) ex_db ex_sound"
  using ex_works by simp

lemma ex_policy_endpoints: "endpoints_distinct (pol_Witnesses ex_policy)"
  by (simp add: endpoints_distinct_def ex_policy_def)

lemma ex_mldsa_signs:
  assumes "SignTlogCheckpoint C ex_formats FL body ex_mldsa_origin w = (Inr sn, w')"
  shows "sn = note_text body [ex_mldsa_line ''log'' body] \<and> w' = w"
proof -
  have "sumdb_Sign ex_formats body \<lparr>ns_Name = ''log'', ns_Sign = (\<lambda>t. eret (fit 2420 t))\<rparr> w = (Inr sn, w')"
    using assms by (auto simp: SignTlogCheckpoint_def ex_mldsa_signer SigType_defs ex_mldsa_checkpointSigner ebind_Inr_iff ewrap_Inr)
  then show ?thesis by (simp add: ex_formats_def)
qed

lemma ex_quorum:
  assumes "go_len (log_entries l)"
  shows "checkpoint_gets_quorum ex_deps ''log'' ex_mldsa_origin ex_policy l 0 w"
  unfolding checkpoint_gets_quorum_def
proof (intro allI impI)
  fix root sn w' assume root: "LogRoot (d_merkle ex_deps) l = Inr root"
  let ?b = "checkpoint_Marshal (d_log ex_deps) (NewCheckpoint ''log'' (Size l) root)"
  assume "SignTlogCheckpoint (d_crypto ex_deps) (d_formats ex_deps) (d_log ex_deps) ?b ex_mldsa_origin w = (Inr sn, w')"
  then have sn: "sn = note_text ?b [ex_mldsa_line ''log'' ?b]" unfolding ex_deps_simps by (rule ex_mldsa_signs [THEN conjunct1])
  have "is_hash root"
    using root LogRoot_Inr [OF ex_checkpoint_libs(2,3), of l]
      tree_hash_is_hash [OF ex_checkpoint_libs(2) leaf_list_hashes [OF ex_checkpoint_libs(2)]] by simp
  then have b: "body_ok ?b" using ex_checkpoint_libs(1) unfolding checkpoint_format_def by blast
  have "ex_cosign sn = Inr (ex_cosig_line ?b)" unfolding sn by (rule ex_cosign_note [OF b])
  note s = ex_submit_first [OF assms this]
  have o: "outcomes ex_deps ex_policy l 0 sn w' = [(''wit'', Inr (ex_cosig_line ?b))]"
    by (simp add: outcomes_def outcome_def ex_policy_def cosignWithWitness_def s ex_cosig_trimmed)
  have "ex_policy_holds (AppendSignature sn (ex_cosig_line ?b))"
    using ex_policy_cosigned [OF b] by (simp add: sn AppendSignature_note_text)
  then show "quorum_reached ex_deps ex_policy l 0 sn w'"
    by (simp add: quorum_reached_def o fatal_def) (simp add: ex_policy_def)
qed

lemma ex_run_quorum: "\<forall>summary w1 es' c. logRefs ex_deps dir [ex_main] (ex_start ex_c1) = (Inr summary, w1) \<longrightarrow>
    repo_log (d_tessera ex_deps) (ex_db w1) es' [] c \<longrightarrow>
    checkpoint_gets_quorum ex_deps ''log'' ex_mldsa_origin ex_policy (the_log dir es' [] c) 0 w1"
proof (intro allI impI)
  fix summary w1 es' c assume "repo_log (d_tessera ex_deps) (ex_db w1) es' [] c"
  then have "go_len (log_entries (the_log dir es' [] c))" by (simp add: repo_log_def)
  then show "checkpoint_gets_quorum ex_deps ''log'' ex_mldsa_origin ex_policy (the_log dir es' [] c) 0 w1" by (rule ex_quorum)
qed

lemma ex_note_sign_deps: "note_sign_contract (d_formats ex_deps)"
  using ex_note_sign by simp

lemmas ex_run_facts = ex_env ex_refs_view ex_graph_view ex_network ex_checkpoint_libs ex_note_sign_deps
  ex_start_state ex_start_recordable ex_start_present ex_works_deps ex_sound_start ex_exchanges
  ex_signs ex_independent ex_policy_endpoints ex_run_quorum

end
