(* ===== verification/Command_Properties.thy ===== *)
theory Command_Properties
  imports Example_Works Main_Cmd
begin

section \<open>Properties of the commands\<close>

text \<open>
  \<^verbatim>\<open>git-ratchet log\<close>, \<^verbatim>\<open>checkpoint\<close> and \<^verbatim>\<open>verify\<close> on a repository that holds a log, each with every
  outcome it can have (\<^verbatim>\<open>ratchet.go\<close>, \<^verbatim>\<open>main.go\<close>).
\<close>

subsection \<open>Recording\<close>

text \<open>
  C7: What \<^verbatim>\<open>log\<close> does, with every outcome. It finds every given ref recorded at its current object and
  changes nothing; or it moves only the log ref, to a child of the old head that holds the old entries, then
  entries recording the refs' current objects, under the stored checkpoint as it was, and then every given
  ref's last record is its current object and every chain obeys the ratchet; or it fails. A failure
  moves no ref, but for one case: the stored checkpoint is looked at last, so if it cannot be read
  the run has recorded everything just the same when it reports that error.
\<close>

theorem log_outcome:
  assumes env: "repo_env D dir db graph refs" and l: "repo_log (d_tessera D) (db w) es cp head"
    and len: "length es + length rs < 2 ^ 63"
  shows "case logRefs D dir rs w of
      (Inl e, w') \<Rightarrow> g_refs (db w') = g_refs (db w) \<or>
        storedSize (d_log D) (the_log dir es cp head) = Inl e \<and>
        (\<exists>new. log_recorded D dir db graph refs rs (the_log dir es cp head) w new w')
    | (Inr (NothingToLog n), w') \<Rightarrow> w' = w \<and> n = of_nat (length es) \<and>
        (\<forall>x\<in>set rs. up_to_date (refs w) (the_log dir es cp head) x)
    | (Inr (Logged n sz pending), w') \<Rightarrow> (\<exists>new stored.
        log_recorded D dir db graph refs rs (the_log dir es cp head) w new w' \<and> n = length new \<and>
        sz = of_nat (length (es @ new)) \<and> storedSize (d_log D) (the_log dir es cp head) = Inr stored \<and>
        pending = sz - stored)"
proof -
  obtain r w' where r: "logRefs D dir rs w = (r, w')" by fastforce
  show ?thesis
  proof (cases r)
    case (Inl e)
    from logRefs_failed [OF env l len] r Inl show ?thesis by (auto simp: stays_def)
  next
    case (Inr s)
    show ?thesis
    proof (cases s)
      case (NothingToLog n)
      with logRefs_nothing [OF env l] logRefs_nothing_current [OF env l] r Inr show ?thesis by simp
    next
      case (Logged n sz pend)
      with r Inr have "logRefs D dir rs w = (Inr (Logged n sz pend), w')" by simp
      from logRefs_Logged [OF env l len this] obtain new c where o: "new \<noteq> []" "n = length new"
        "sz = of_nat (length (es @ new))" "records_of_refs (refs w) rs new" "chains_ok (graph w) (the_log dir (es @ new) cp c)"
        "repo_log (d_tessera D) (db w') (es @ new) cp c" "g_refs (db w') = (g_refs (db w))(LogRef \<mapsto> c)"
        "grows (db w) (db w')" "\<exists>t msg. g_commits (db w') c = Some (t, if head \<noteq> [] then [head] else [], msg)"
        "\<forall>r\<in>set rs. up_to_date (refs w) (the_log dir (es @ new) cp c) r"
        "\<exists>st. storedSize (d_log D) (the_log dir es cp head) = Inr st \<and> pend = sz - st" .
      have "log_recorded D dir db graph refs rs (the_log dir es cp head) w new w'"
        by (rule log_recordedI [where w = w and w' = w' and c = c and db = db and refs = refs and graph = graph, OF o(1,4-10)])
      with o(2,3,11) show ?thesis unfolding r Inr Logged prod.case sum.case log_summary.case by blast
    qed
  qed
qed

text \<open>On two logs of the same entries, one without a checkpoint and one with a checkpoint that is no note.\<close>

theorem log_outcome_witness:
  "(case logRefs ex_deps ''dir'' [ex_main] (ex_repo ex_c1 ex_log_entries []) of
     (Inl _, w') \<Rightarrow> g_refs (ex_db w') = g_refs (ex_db (ex_repo ex_c1 ex_log_entries []))
   | (Inr (NothingToLog n), w') \<Rightarrow> w' = ex_repo ex_c1 ex_log_entries [] \<and> n = 2
   | (Inr (Logged n sz pending), w') \<Rightarrow> 0 < n \<and> pending = sz) \<and>
   (case logRefs ex_deps ''dir'' [ex_main] (ex_repo ex_c2 ex_log_entries ''junk'') of
     (Inr (Logged n sz pending), w') \<Rightarrow> False | _ \<Rightarrow> True)"
proof -
  have "storedSize (d_log ex_deps) (the_log ''dir'' ex_log_entries [] ''c3'') = Inr 0" by (simp add: storedSize_def)
  with log_outcome [OF ex_env ex_repo_env [of ex_c1 "[]"], of "[ex_main]" "''dir''"]
  have 1: "case logRefs ex_deps ''dir'' [ex_main] (ex_repo ex_c1 ex_log_entries []) of
     (Inl _, w') \<Rightarrow> g_refs (ex_db w') = g_refs (ex_db (ex_repo ex_c1 ex_log_entries []))
   | (Inr (NothingToLog n), w') \<Rightarrow> w' = ex_repo ex_c1 ex_log_entries [] \<and> n = 2
   | (Inr (Logged n sz pending), w') \<Rightarrow> 0 < n \<and> pending = sz"
    by (auto simp: ex_log_size log_recorded_def Let_def split: prod.splits sum.splits log_summary.splits)
  have "\<exists>e. storedSize (d_log ex_deps) (the_log ''dir'' ex_log_entries ''junk'' ''c3'') = Inl e"
    by (simp add: storedSize_def ExtractBody_def SigPrefix_def)
  with log_outcome [OF ex_env ex_repo_env [of ex_c2 "''junk''"], of "[ex_main]" "''dir''"]
  have 2: "case logRefs ex_deps ''dir'' [ex_main] (ex_repo ex_c2 ex_log_entries ''junk'') of
     (Inr (Logged n sz pending), w') \<Rightarrow> False | _ \<Rightarrow> True"
    by (auto simp: ex_log_size split: prod.splits sum.splits log_summary.splits)
  from 1 2 show ?thesis by blast
qed

text \<open>
  C23: Recording is idempotent. After a successful \<^verbatim>\<open>log\<close> of refs that exist, the same \<^verbatim>\<open>log\<close> again
  finds nothing to record and changes nothing.
\<close>

theorem log_idempotent:
  assumes env: "repo_env D dir db graph refs" and view: "refs_view db refs"
    and l: "repo_log (d_tessera D) (db w) es cp head" and len: "length es + length rs < 2 ^ 63"
    and ex: "\<forall>x\<in>set rs. (\<exists>k. ParseRefKind x = Inr k) \<and> (\<exists>h. g_refs (db w) x = Some h \<and> object_id h)"
  shows "case logRefs D dir rs w of
      (Inl _, _) \<Rightarrow> True
    | (Inr _, w') \<Rightarrow> (\<exists>n. logRefs D dir rs w' = (Inr (NothingToLog n), w'))"
proof -
  obtain r w' where r: "logRefs D dir rs w = (r, w')" by fastforce
  show ?thesis
  proof (cases r)
    case (Inr s)
    have "\<exists>n. logRefs D dir rs w' = (Inr (NothingToLog n), w')"
    proof (cases s)
      case (NothingToLog n)
      with logRefs_nothing [OF env l] r Inr have "w' = w" by simp
      with r Inr NothingToLog show ?thesis by simp
    next
      case (Logged n sz pend)
      with logRefs_again [OF env view l len ex] r Inr show ?thesis by blast
    qed
    then show ?thesis by (simp add: r Inr)
  qed (simp add: r)
qed

theorem log_idempotent_witness:
  "case logRefs ex_deps ''dir'' [ex_main] (ex_repo ex_c1 ex_log_entries []) of
     (Inl _, _) \<Rightarrow> True
   | (Inr _, w') \<Rightarrow> (\<exists>n. logRefs ex_deps ''dir'' [ex_main] w' = (Inr (NothingToLog n), w'))"
proof -
  have "g_refs (ex_db (ex_repo ex_c1 ex_log_entries [])) ex_main = Some ex_c1"
    by (simp add: ex_db_def ex_repo_def ex_main_def LogRef_def)
  then show ?thesis
    by (intro log_idempotent [OF ex_env ex_refs_view ex_repo_env]) (simp_all add: ex_log_size ex_main_kind ex_commit_id)
qed

text \<open>
  C15: A rewritten branch is not recorded. If a branch's current object does not descend from its
  last recorded one, \<^verbatim>\<open>log\<close> of any refs that include the branch fails, and no ref moves.
\<close>

theorem rewritten_branch_refused:
  assumes env: "repo_env D dir db graph refs" and l: "repo_log (d_tessera D) (db w) es cp head"
    and st: "storedSize (d_log D) (the_log dir es cp head) = Inr stored"
    and len: "length es + length rs < 2 ^ 63"
    and ref: "ref \<in> set rs" "ParseRefKind ref = Inr RefBranch" "refs w ref = Some h"
    and last: "RefRecords (the_log dir es cp head) ref = Inr old" "old \<noteq> []" "rr_Object (last old) = c"
    and bad: "c \<noteq> h" "\<not> is_ancestor (graph w) c h"
  shows "\<exists>e w'. logRefs D dir rs w = (Inl e, w') \<and> g_refs (db w') = g_refs (db w)"
proof -
  obtain r w' where r: "logRefs D dir rs w = (r, w')" by fastforce
  have "r \<noteq> Inr (NothingToLog n)" for n
  proof
    assume "r = Inr (NothingToLog n)"
    with r logRefs_nothing_current [OF env l] ref(1) have "up_to_date (refs w) (the_log dir es cp head) ref" by blast
    with ref(3) last bad(1) show False by (simp add: up_to_date_def)
  qed
  moreover have "r \<noteq> Inr (Logged n sz pend)" for n sz pend
  proof
    assume "r = Inr (Logged n sz pend)"
    with r have "logRefs D dir rs w = (Inr (Logged n sz pend), w')" by simp
    then obtain new c' where ch: "chains_ok (graph w) (the_log dir (es @ new) cp c')"
      and up: "\<forall>x\<in>set rs. up_to_date (refs w) (the_log dir (es @ new) cp c') x"
      by (rule logRefs_Logged [OF env l len])
    from up ref(1,3) obtain all where all: "RefRecords (the_log dir (es @ new) cp c') ref = Inr all"
      "all \<noteq> []" "rr_Object (last all) = h" by (auto simp: up_to_date_def)
    with last(1) obtain more where more: "all = old @ more" by (auto simp: RefRecords_Inr_iff)
    have "more \<noteq> []" using all(3) last(3) bad(1) more by auto
    have ok: "ratchet_ok (graph w) RefBranch (objects all)" by (rule chains_ok_ref [OF ch all(1,2) ref(2)])
    let ?i = "length old - 1" and ?j = "length all - 1"
    have ij: "?i < ?j" "?j < length (objects all)" using more last(2) \<open>more \<noteq> []\<close>
      by (cases old; cases more; simp)+
    have "objects all ! ?i = c" "objects all ! ?j = h"
      using last(2,3) all(2,3) more ij by (auto simp: last_conv_nth nth_append)
    with ratchet_ok_branch_pairs [OF ok ij] bad show False by simp
  qed
  ultimately obtain e where "r = Inl e" by (cases r; cases "projr r") auto
  with r logRefs_failure [OF env l st len] show ?thesis by (auto simp: stays_def)
qed

text \<open>The branch was recorded at its second commit and reset to the first.\<close>

lemma ex_not_ancestor: "\<not> is_ancestor (ex_graph (ex_repo h es cp)) ex_c2 ex_c1"
proof
  assume "is_ancestor (ex_graph (ex_repo h es cp)) ex_c2 ex_c1"
  then have "reaches (ex_graph (ex_repo h es cp)) ex_c1 ex_c2"
    by (simp add: is_ancestor_def ex_graph_repo)
  then have "ex_c1 = ex_c2" unfolding reaches_def
    by (cases rule: converse_rtranclpE) (simp_all add: ex_graph_repo)
  with ex_names show False by simp
qed

theorem rewritten_branch_refused_witness:
  "\<exists>e w'. logRefs ex_deps ''dir'' [ex_main] (ex_repo ex_c1 ex_log_entries []) = (Inl e, w') \<and>
     g_refs (ex_db w') = g_refs (ex_db (ex_repo ex_c1 ex_log_entries []))"
proof (rule rewritten_branch_refused [OF ex_env ex_repo_env])
  show "storedSize (d_log ex_deps) (the_log ''dir'' ex_log_entries [] ''c3'') = Inr 0" by (simp add: storedSize_def)
  show "RefRecords (the_log ''dir'' ex_log_entries [] ''c3'') ex_main = Inr [ex_record ex_c1, ex_record ex_c2]"
    using ex_log_entries(3) entry_ok_decodable by (auto simp: RefRecords_Inr_iff ex_statements ex_record_def)
  show "ex_refs (ex_repo ex_c1 ex_log_entries []) ex_main = Some ex_c1" by (simp add: ex_refs_repo ex_commit_id)
  show "\<not> is_ancestor (ex_graph (ex_repo ex_c1 ex_log_entries [])) ex_c2 ex_c1" by (rule ex_not_ancestor)
qed (simp_all add: ex_log_size ex_main_kind ex_record_def ex_names [symmetric])


subsection \<open>Checkpointing and reading\<close>

text \<open>
  C14: What \<^verbatim>\<open>checkpoint\<close> does. It fails without moving any ref, or the log was not empty, every
  chain in it obeys the ratchet, and only the log ref moved, to a commit with the same entries
  and a checkpoint that satisfies the policy's quorum; nothing is then left to checkpoint, and
  every reader whose own policy accepts that checkpoint reads back the whole log. The log key may be Ed25519 or
  ML-DSA-44; of the library's \<^verbatim>\<open>note.Sign\<close>, which signs with the latter, only the shape of its result is used.
\<close>

theorem checkpoint_outcome:
  assumes env: "repo_env D dir db graph refs" and l: "repo_log (d_tessera D) (db w) es cp head"
    and net: "network_contract D db" and fmt: "checkpoint_format (d_log D) origin"
    and lib: "hasher_contract (d_merkle D)" "range_contract (d_merkle D) repr"
    and s: "note_sign_contract (d_formats D)"
  shows "case checkpointLog D sched dir origin signer pol w of
      (Inl _, w') \<Rightarrow> g_refs (db w') = g_refs (db w)
    | (Inr (n, k), w') \<Rightarrow> es \<noteq> [] \<and> n = of_nat (length es) \<and> chains_ok (graph w) (the_log dir es cp head) \<and>
        (\<exists>cp' c. repo_log (d_tessera D) (db w') es cp' c \<and> pol_Satisfied pol cp' \<and>
           g_refs (db w') = (g_refs (db w))(LogRef \<mapsto> c) \<and>
           storedSize (d_log D) (the_log dir es cp' c) = Inr n \<and>
           (\<forall>pol'. pol_Verify pol' cp' = Inr () \<longrightarrow> checkpointedLog D dir pol' w' = (Inr (the_log dir es cp' c), w')))"
proof -
  obtain r w' where r: "checkpointLog D sched dir origin signer pol w = (r, w')" by fastforce
  show ?thesis
  proof (cases r)
    case (Inl e)
    with r checkpointLog_failure [OF env l net] have "stays (db w) (db w')" by blast
    then show ?thesis by (simp add: r Inl stays_def)
  next
    case (Inr nk)
    obtain n k where nk: "nk = (n, k)" by force
    from r Inr nk have "checkpointLog D sched dir origin signer pol w = (Inr (n, k), w')" by simp
    then obtain cp' c where o: "es \<noteq> []" "repo_log (d_tessera D) (db w') es cp' c" "pol_Satisfied pol cp'"
      "n = of_nat (length es)" "chains_ok (graph w) (the_log dir es cp' c)"
      "g_refs (db w') = (g_refs (db w))(LogRef \<mapsto> c)" "storedSize (d_log D) (the_log dir es cp' c) = Inr n"
      and rd: "\<forall>pol'. pol_Verify pol' cp' = Inr () \<longrightarrow> checkpointedLog D dir pol' w' = (Inr (the_log dir es cp' c), w')"
      by (rule checkpointLog_readable [OF env l net fmt lib s])
    have ch: "chains_ok (graph w) (the_log dir es cp head)"
      using o(5) chains_ok_entries [of "the_log dir es cp' c" "the_log dir es cp head"] by simp
    show ?thesis unfolding r Inr nk prod.case sum.case
      by (intro conjI, fact o, fact o, fact ch, rule exI [of _ cp'], rule exI [of _ c], intro conjI) (fact o rd)+
  qed
qed

theorem checkpoint_outcome_witness:
  "case checkpointLog ex_deps [0] ''dir'' ''log'' ex_mldsa_origin ex_policy (ex_repo ex_c1 ex_log_entries []) of
     (Inl _, w') \<Rightarrow> g_refs (ex_db w') = g_refs (ex_db (ex_repo ex_c1 ex_log_entries []))
   | (Inr (n, k), w') \<Rightarrow> n = 2 \<and> (\<exists>t. checkpointedLog ex_deps ''dir'' ex_policy w' = (Inr t, w') \<and>
       log_entries t = ex_log_entries)"
proof -
  from checkpoint_outcome [OF ex_env [of "''dir''"] ex_repo_env [of ex_c1 "[]"] ex_network ex_checkpoint_libs
      ex_note_sign_deps, where sched = "[0]" and pol = ex_policy and signer = ex_mldsa_origin]
  show ?thesis by (fastforce simp: ex_log_size dest: ex_policy_accepts split: prod.splits sum.splits)
qed

text \<open>
  C1: From recording to verification. After \<^verbatim>\<open>log\<close> of some branches and tags and \<^verbatim>\<open>checkpoint\<close>, both
  successful, the new checkpoint satisfies the policy it was made under; every reader, with whatever policy of
  its own, that accepts it reads the whole log, of which the old entries are a prefix; and in that log
  \<^verbatim>\<open>verifySingleRef\<close> accepts every one of the refs. The log key may be Ed25519 or ML-DSA-44.
\<close>

theorem log_checkpoint_verify:
  assumes env: "repo_env D dir db graph refs" and view: "refs_view db refs" "graph_view db graph"
    and net: "network_contract D db" and fmt: "checkpoint_format (d_log D) origin"
    and lib: "hasher_contract (d_merkle D)" "range_contract (d_merkle D) repr" "note_sign_contract (d_formats D)"
    and l: "repo_log (d_tessera D) (db w) es cp head" and len: "length es + length rs < 2 ^ 63"
    and ex: "\<forall>x\<in>set rs. \<exists>k h. ParseRefKind x = Inr k \<and> g_refs (db w) x = Some h \<and> object_id h \<and> peel (graph w) h \<noteq> None"
  shows "case logRefs D dir rs w of (Inl _, _) \<Rightarrow> True | (Inr _, w1) \<Rightarrow>
    (case checkpointLog D sched dir origin signer pol w1 of (Inl _, _) \<Rightarrow> True | (Inr _, w2) \<Rightarrow>
      (\<exists>es' cp' c. prefix es es' \<and> repo_log (d_tessera D) (db w2) es' cp' c \<and> pol_Satisfied pol cp' \<and>
         (\<forall>pol'. pol_Verify pol' cp' = Inr () \<longrightarrow> checkpointedLog D dir pol' w2 = (Inr (the_log dir es' cp' c), w2)) \<and>
         (\<forall>x\<in>set rs. verifySingleRef (d_os D) dir x (the_log dir es' cp' c) w2 = (Inr (), w2))))"
proof -
  obtain r w1 where r: "logRefs D dir rs w = (r, w1)" by fastforce
  obtain r2 w2 where r2: "checkpointLog D sched dir origin signer pol w1 = (r2, w2)" by fastforce
  show ?thesis
  proof (cases "r")
    case (Inr summary)
    note r = r [unfolded Inr]
    show ?thesis
    proof (cases r2)
      case (Inr nk)
      obtain n k where nk: "nk = (n, k)" by force
      note r2 = r2 [unfolded Inr nk]
      show ?thesis unfolding r r2 prod.case sum.case
        by (rule checkpointed_refs_verify [OF env view net fmt lib l len ex r r2]) blast
    qed (simp add: r r2)
  qed (simp add: r)
qed

text \<open>With an ML-DSA-44 log key, and for a reader with the policy of the run.\<close>

theorem log_checkpoint_verify_witness:
  "case logRefs ex_deps ''dir'' [ex_main] (ex_start ex_c1) of (Inl _, _) \<Rightarrow> True | (Inr _, w1) \<Rightarrow>
    (case checkpointLog ex_deps [0] ''dir'' ''log'' ex_mldsa_origin ex_policy w1 of (Inl _, _) \<Rightarrow> True | (Inr _, w2) \<Rightarrow>
      (\<exists>t. checkpointedLog ex_deps ''dir'' ex_policy w2 = (Inr t, w2) \<and>
         (\<forall>x\<in>set [ex_main]. verifySingleRef (d_os ex_deps) ''dir'' x t w2 = (Inr (), w2))))"
proof -
  from log_checkpoint_verify [OF ex_env ex_refs_view ex_graph_view ex_network ex_checkpoint_libs ex_note_sign_deps
      ex_start_state(1,2) ex_start_present, where dir = "''dir''" and sched = "[0]" and pol = ex_policy and signer = ex_mldsa_origin]
  show ?thesis by (fastforce dest: ex_policy_accepts split: prod.splits sum.splits)
qed

text \<open>
  C2: The commands succeed. In a repository where git works, with a log that obeys the ratchet,
  \<^verbatim>\<open>log\<close> of refs that may be recorded (unrecorded ones, unmoved ones, branches that moved forward)
  succeeds. If the log key, Ed25519 or ML-DSA-44, local or not, signs the origin's checkpoints, and the witnesses reach a
  quorum for the one note that is then put to them, the signed checkpoint of the extended log, then
  \<^verbatim>\<open>checkpoint\<close> succeeds under every schedule of its goroutines; the new checkpoint satisfies the policy; and
  every reader whose policy accepts it reads a log in which every one of the refs verifies.
\<close>

theorem log_checkpoint_verify_succeed:
  assumes env: "repo_env D dir db graph refs" and view: "refs_view db refs" "graph_view db graph"
    and net: "network_contract D db" and fmt: "checkpoint_format (d_log D) origin"
    and lib: "hasher_contract (d_merkle D)" "range_contract (d_merkle D) repr" "note_sign_contract (d_formats D)"
    and l: "repo_log (d_tessera D) (db w) es cp head" and len: "length es + length rs < 2 ^ 63" "rs \<noteq> []"
    and st: "storedSize (d_log D) (the_log dir es cp head) = Inr old"
    and ch: "chains_ok (graph w) (the_log dir es cp head)"
    and rec: "\<forall>x\<in>set rs. recordable (graph w) (refs w) (the_log dir es cp head) x"
    and ex: "\<forall>x\<in>set rs. \<exists>k h. ParseRefKind x = Inr k \<and> g_refs (db w) x = Some h \<and> object_id h \<and> peel (graph w) h \<noteq> None"
    and g: "git_works (d_os D) dir (d_tessera D) db sound" "sound w" "exchanges_sound D sound"
    and s: "signs_checkpoints D origin signer sound"
    and wits: "independent D view" "endpoints_distinct (pol_Witnesses pol)"
    and q: "\<forall>summary w1 es' c. logRefs D dir rs w = (Inr summary, w1) \<longrightarrow>
      repo_log (d_tessera D) (db w1) es' cp c \<longrightarrow>
      checkpoint_gets_quorum D origin signer pol (the_log dir es' cp c) old w1"
  shows "\<exists>summary w1 n k w2 es' cp' c.
    logRefs D dir rs w = (Inr summary, w1) \<and>
    checkpointLog D sched dir origin signer pol w1 = (Inr (n, k), w2) \<and>
    prefix es es' \<and> repo_log (d_tessera D) (db w2) es' cp' c \<and> pol_Satisfied pol cp' \<and>
    (\<forall>pol'. pol_Verify pol' cp' = Inr () \<longrightarrow> checkpointedLog D dir pol' w2 = (Inr (the_log dir es' cp' c), w2)) \<and>
    (\<forall>x\<in>set rs. verifySingleRef (d_os D) dir x (the_log dir es' cp' c) w2 = (Inr (), w2))"
  using assms by (rule log_then_checkpoint)

text \<open>
  With an ML-DSA-44 log key, and a policy that takes its signature and a witness's verified cosignature, and
  nothing less: no signatures at all do not satisfy it.
\<close>

theorem log_checkpoint_verify_succeed_witness:
  "\<not> pol_Satisfied ex_policy [] \<and>
   (\<exists>summary w1 n k w2 t.
    logRefs ex_deps ''dir'' [ex_main] (ex_start ex_c1) = (Inr summary, w1) \<and>
    checkpointLog ex_deps [0] ''dir'' ''log'' ex_mldsa_origin ex_policy w1 = (Inr (n, k), w2) \<and>
    checkpointedLog ex_deps ''dir'' ex_policy w2 = (Inr t, w2) \<and>
    (\<forall>x\<in>set [ex_main]. verifySingleRef (d_os ex_deps) ''dir'' x t w2 = (Inr (), w2)))"
  using log_checkpoint_verify_succeed [OF ex_run_facts, where dir = "''dir''" and sched = "[0]"]
    ex_policy_unsigned ex_policy_accepts by blast

subsection \<open>Exit statuses\<close>

text \<open>
  The exit status of \<^verbatim>\<open>verify\<close>. It is success exactly if there is a policy file, at least one
  ref, only branches and tags among them, the stored checkpoint is accepted by the policy and
  reproduced by the log, and every ref is verified in the checkpointed part of the log.
\<close>

theorem verify_exit_status:
  assumes env: "repo_env (c_deps E) (vc_repoDir c) db graph refs"
    and pol: "FromPath (c_ReadFile E) (c_Unmarshal E) (vc_policyPath c) w = (Inr pol, w1)"
    and l: "repo_log (d_tessera (c_deps E)) (db w1) es cp head"
  shows "fst (fst (verifyCmd_Execute E c w)) = ExitSuccess \<longleftrightarrow>
    vc_policyPath c \<noteq> [] \<and> vc_refs c \<noteq> [] \<and> (\<nexists>ref. ref \<in> set (vc_refs c) \<and> (\<exists>e. ParseRefKind ref = Inl e)) \<and>
    (\<exists>t. checkpointedLog (c_deps E) (vc_repoDir c) pol w1 = (Inr t, w1) \<and>
       (\<forall>ref\<in>set (vc_refs c). ref_verified (graph w1) (refs w1) ref t))"
proof (cases "vc_policyPath c \<noteq> [] \<and> vc_refs c \<noteq> [] \<and> \<not> refs_invalid (vc_refs c)")
  case True
  with verifyCmd_success_iff [OF env pol l] show ?thesis unfolding refs_invalid_iff by blast
next
  case False
  then have "fst (fst (verifyCmd_Execute E c w)) = ExitUsageError"
    by (auto simp: verifyCmd_Execute_def)
  with False show ?thesis unfolding refs_invalid_iff by auto
qed

text \<open>A GitHub that answers nothing, and a clock that does not advance.\<close>

definition ex_issues :: "(ex_world, string) issue_env" where
  "ex_issues =
     \<lparr>ie_Create = (\<lambda>c ow r t b. eret 1), ie_Get = (\<lambda>c ow r n. eret ''open''),
      ie_ListComments = (\<lambda>c ow r n p. eret ([], 0)), ie_wait = (\<lambda>d. efail (Errorf ''deadline'' [])),
      ie_now = (\<lambda>w. 0), ie_Write = (\<lambda>r. Inr []), ie_ReadResponse = (\<lambda>s r. Inr s), ie_Getenv = (\<lambda>s. []),
      ie_Parse = (\<lambda>s. Inl (Errorf [] []))\<rparr>"

definition ex_cli :: "(ex_world, string list, uint64 \<times> uint64, string) cli" where
  "ex_cli = \<lparr>c_deps = ex_deps, c_ReadFile = (\<lambda>p. eret ''policy''), c_Unmarshal = (\<lambda>d. Inr ex_policy),
     c_url_String = (\<lambda>u. url_Scheme u @ ''://'' @ url_Host u), c_http = (\<lambda>req w. Some (Inr ''200 OK'', w)), c_issues = ex_issues,
     c_pages = 1, c_Update = (\<lambda>client timeout. d_Update ex_deps)\<rparr>"

theorem verify_exit_status_witness:
  "fst (fst (verifyCmd_Execute ex_cli \<lparr>vc_refs = [''HEAD''], vc_policyPath = ''p'', vc_repoDir = ''dir''\<rparr>
      (ex_repo ex_c1 ex_log_entries []))) \<noteq> ExitSuccess"
proof -
  let ?c = "\<lparr>vc_refs = [''HEAD''], vc_policyPath = ''p'', vc_repoDir = ''dir''\<rparr>"
  have d: "c_deps ex_cli = ex_deps" by (simp add: ex_cli_def)
  have "FromPath (c_ReadFile ex_cli) (c_Unmarshal ex_cli) (vc_policyPath ?c) (ex_repo ex_c1 ex_log_entries [])
      = (Inr ex_policy, ex_repo ex_c1 ex_log_entries [])" by (simp add: FromPath_Inr_iff ex_cli_def)
  from verify_exit_status [of ex_cli ?c ex_db ex_graph ex_refs, OF _ this, unfolded d, OF ex_env ex_repo_env]
  have "fst (fst (verifyCmd_Execute ex_cli ?c (ex_repo ex_c1 ex_log_entries []))) = ExitSuccess \<Longrightarrow>
      \<not> (\<exists>e. ParseRefKind ''HEAD'' = Inl e)" by auto
  then show ?thesis by (auto simp: ParseRefKind_def tags_prefix_def heads_prefix_def)
qed

text \<open>
  Usage errors. \<^verbatim>\<open>log\<close> with no ref or with one that is neither branch nor tag, and \<^verbatim>\<open>checkpoint\<close>
  without a policy, without exactly one of the two keys, or with a KMS key and no origin, end in
  a usage error before anything is read or written; otherwise the status of \<^verbatim>\<open>log\<close> says whether
  recording succeeded.
\<close>

theorem usage_errors:
  "logCmd_Execute E c w =
     (if lc_refs c = [] \<or> (\<exists>ref\<in>set (lc_refs c). \<exists>e. ParseRefKind ref = Inl e) then (ExitUsageError, w)
      else (case logRefs (c_deps E) (lc_repoDir c) (lc_refs c) w of
              (r, w') \<Rightarrow> (if \<exists>s. r = Inr s then ExitSuccess else ExitFailure, w'))) \<and>
   (cc_policyPath k = [] \<or> (cc_keyPath k = [] \<longleftrightarrow> cc_kmsKey k = []) \<or> cc_kmsKey k \<noteq> [] \<and> cc_origin k = [] \<longrightarrow>
      checkpointCmd_Execute E sched k w = (ExitUsageError, w))"
  by (auto simp: logCmd_Execute_def refs_invalid_iff checkpointCmd_Execute_def split: prod.split sum.split)

theorem usage_errors_witness:
  "checkpointCmd_Execute ex_cli [] \<lparr>cc_origin = [], cc_policyPath = ''p'', cc_keyPath = [], cc_kmsKey = ''k'',
     cc_repoDir = ''dir'', cc_timeout = 30 * Second, cc_githubToken = []\<rparr> (ex_start ex_c1) = (ExitUsageError, ex_start ex_c1)"
  using usage_errors [of ex_cli undefined "ex_start ex_c1" "\<lparr>cc_origin = [], cc_policyPath = ''p'', cc_keyPath = [],
     cc_kmsKey = ''k'', cc_repoDir = ''dir'', cc_timeout = 30 * Second, cc_githubToken = []\<rparr>" "[]"] by simp

text \<open>
  A quorum is never lowered for want of a token. If some witness of the policy has an endpoint
  of the GitHub issue scheme and there is no token, \<^verbatim>\<open>checkpoint\<close> ends in a usage error in the
  state in which the policy was read: nothing was signed and no witness was asked.
\<close>

theorem missing_token_refused:
  assumes "FromPath (c_ReadFile E) (c_Unmarshal E) (cc_policyPath c) w = (Inr pol, w1)"
    and "cc_githubToken c = []" "wit \<in> set (pol_Witnesses pol)" "w_URL wit = Some u"
    and "c_url_String E u = IssueScheme @ ''://'' @ rest"
  shows "checkpointCmd_run E sched c origin signer w = (ExitUsageError, w1)"
proof -
  have "c_url_String E u \<in> set (endpoints_of (c_url_String E) pol)"
    unfolding endpoints_of_def List.map_filter_def using assms(3,4) by force
  moreover have "HasPrefix (c_url_String E u) (IssueScheme @ ''://'')" by (simp add: assms(5) prefix_def)
  ultimately have "\<exists>e\<in>set (endpoints_of (c_url_String E) pol). HasPrefix e (IssueScheme @ ''://'')" by blast
  then have "requireGitHubToken (endpoints_of (c_url_String E) pol) [] \<noteq> Inr ()"
    by (simp add: requireGitHubToken_def requireGitHubToken_loop_iff)
  then obtain e where "requireGitHubToken (endpoints_of (c_url_String E) pol) [] = Inl e"
    by (cases "requireGitHubToken (endpoints_of (c_url_String E) pol) []") auto
  with assms(1,2) show ?thesis by (simp add: checkpointCmd_run_def)
qed

definition ex_issue_policy :: tlog_policy where
  "ex_issue_policy = ex_policy\<lparr>pol_Witnesses := [\<lparr>w_Name = ''wit'',
       w_URL = Some \<lparr>url_Scheme = IssueScheme, url_Host = ''owner'', url_Path = ''/repo''\<rparr>\<rparr>]\<rparr>"

theorem missing_token_refused_witness:
  "checkpointCmd_run (ex_cli\<lparr>c_Unmarshal := (\<lambda>d. Inr ex_issue_policy)\<rparr>) []
     \<lparr>cc_origin = [], cc_policyPath = ''p'', cc_keyPath = ''k'', cc_kmsKey = [], cc_repoDir = ''dir'', cc_timeout = 30 * Second, cc_githubToken = []\<rparr>
     ''log'' ex_origin (ex_start ex_c1) = (ExitUsageError, ex_start ex_c1)"
proof (rule missing_token_refused)
  show "FromPath (c_ReadFile (ex_cli\<lparr>c_Unmarshal := (\<lambda>d. Inr ex_issue_policy)\<rparr>))
      (c_Unmarshal (ex_cli\<lparr>c_Unmarshal := (\<lambda>d. Inr ex_issue_policy)\<rparr>))
      (cc_policyPath \<lparr>cc_origin = [], cc_policyPath = ''p'', cc_keyPath = ''k'', cc_kmsKey = [], cc_repoDir = ''dir'', cc_timeout = 30 * Second, cc_githubToken = []\<rparr>)
      (ex_start ex_c1) = (Inr ex_issue_policy, ex_start ex_c1)"
    by (simp add: FromPath_Inr_iff ex_cli_def)
  show "hd (pol_Witnesses ex_issue_policy) \<in> set (pol_Witnesses ex_issue_policy)"
    "w_URL (hd (pol_Witnesses ex_issue_policy)) = Some \<lparr>url_Scheme = IssueScheme, url_Host = ''owner'', url_Path = ''/repo''\<rparr>"
    by (simp_all add: ex_issue_policy_def)
qed (simp_all add: ex_cli_def)

end
