(* ===== verification/Ledger.thy ===== *)
theory Ledger
  imports Prelude "HOL-Library.Sublist"
begin

section \<open>The ledger: what a repository promises\<close>

text \<open>
  The abstract specification of a repository with a log. A ledger is a sequence of entries, of which the
  first \<open>covered\<close> are under a witnessed checkpoint. There are two ways to move on: entries are recorded at the
  end, or the whole ledger is witnessed. Nothing is ever removed, changed or uncovered.
\<close>

record 'e ledger =
  recorded :: "'e list"
  covered :: nat

definition ledger_ok :: "'e ledger \<Rightarrow> bool" where
  "ledger_ok L \<longleftrightarrow> covered L \<le> length (recorded L)"

inductive ledger_step :: "'e ledger \<Rightarrow> 'e ledger \<Rightarrow> bool" where
  record_entries: "new \<noteq> [] \<Longrightarrow> ledger_step L (L\<lparr>recorded := recorded L @ new\<rparr>)"
| witness_all: "recorded L \<noteq> [] \<Longrightarrow> ledger_step L (L\<lparr>covered := length (recorded L)\<rparr>)"

inductive_cases ledger_stepE: "ledger_step L L'"

inductive_simps ledger_step_iff: "ledger_step L L'"

text \<open>The part that a reader who trusts the checkpoint goes by.\<close>

definition readable :: "'e ledger \<Rightarrow> 'e list" where
  "readable L = take (covered L) (recorded L)"

definition ledger_le :: "'e ledger \<Rightarrow> 'e ledger \<Rightarrow> bool" where
  "ledger_le L L' \<longleftrightarrow> prefix (recorded L) (recorded L') \<and> covered L \<le> covered L'"

lemma ledger_le_refl [simp]: "ledger_le L L"
  by (simp add: ledger_le_def)

lemma ledger_le_trans: "ledger_le L L' \<Longrightarrow> ledger_le L' L'' \<Longrightarrow> ledger_le L L''"
  by (auto simp: ledger_le_def)

lemma ledger_step_ok: "ledger_step L L' \<Longrightarrow> ledger_ok L \<Longrightarrow> ledger_ok L' \<and> ledger_le L L'"
  by (auto simp: ledger_step_iff ledger_ok_def ledger_le_def)

lemma ledger_steps_ok: "ledger_step\<^sup>*\<^sup>* L L' \<Longrightarrow> ledger_ok L \<Longrightarrow> ledger_ok L' \<and> ledger_le L L'"
  by (induction rule: rtranclp_induct) (auto dest: ledger_step_ok intro: ledger_le_trans)

lemma prefix_take:
  assumes "prefix xs ys" "m \<le> k" "m \<le> length xs"
  shows "prefix (take m xs) (take k ys)"
proof -
  have "take m (take k ys) = take m xs" using assms by (auto simp: prefix_def)
  then show ?thesis by (metis take_is_prefix)
qed

lemma readable_prefix: "ledger_ok L \<Longrightarrow> ledger_le L L' \<Longrightarrow> prefix (readable L) (readable L')"
  by (auto simp: readable_def ledger_ok_def ledger_le_def intro: prefix_take)

text \<open>
  A system implements the ledger if each of its steps, from a state that shows a ledger, is a step of
  the ledger or leaves it alone. \<open>works\<close> says that what the system rests on is as documented.
\<close>

locale ledger_implementation =
  fixes step :: "'s \<Rightarrow> 's \<Rightarrow> bool" and shows_ledger :: "'s \<Rightarrow> 'e ledger \<Rightarrow> bool" and works :: bool
  assumes simulates: "works \<Longrightarrow> shows_ledger s L \<Longrightarrow> step s s' \<Longrightarrow> \<exists>L'. shows_ledger s' L' \<and> ledger_step\<^sup>=\<^sup>= L L'"
    and shown_ok: "works \<Longrightarrow> shows_ledger s L \<Longrightarrow> ledger_ok L"
begin

lemma run_simulates:
  assumes "works" "step\<^sup>*\<^sup>* s s'" "shows_ledger s L"
  shows "\<exists>L'. shows_ledger s' L' \<and> ledger_step\<^sup>*\<^sup>* L L'"
  using assms(2)
proof (induction rule: rtranclp_induct)
  case base
  with assms(3) show ?case by blast
next
  case (step s1 s2)
  then obtain L1 where "shows_ledger s1 L1" "ledger_step\<^sup>*\<^sup>* L L1" by blast
  with simulates [OF assms(1) this(1) step.hyps(2)] show ?case by (auto intro: rtranclp.rtrancl_into_rtrancl)
qed

lemma run_grows:
  assumes "works" "step\<^sup>*\<^sup>* s s'" "shows_ledger s L"
  shows "\<exists>L'. shows_ledger s' L' \<and> ledger_le L L' \<and> prefix (readable L) (readable L')"
proof -
  obtain L' where L': "shows_ledger s' L'" "ledger_step\<^sup>*\<^sup>* L L'" using run_simulates [OF assms] by blast
  with ledger_steps_ok shown_ok [OF assms(1,3)] have "ledger_le L L'" by blast
  with L'(1) readable_prefix shown_ok [OF assms(1,3)] show ?thesis by blast
qed

end

end
