(* ===== verification/Repo_History.thy ===== *)
theory Repo_History
  imports Checkpoint_Run Ledger
begin

section \<open>The history of a repository\<close>

text \<open>
  A repository over time, used by any number of processes at once. A run of \<^verbatim>\<open>log\<close> or \<^verbatim>\<open>checkpoint\<close> is
  taken apart where it matters to the others: it reads the log and decides what to save, it writes
  the objects of the new log, and it moves \<^verbatim>\<open>refs/ratchet/log\<close>. Between these, other runs and any other git activity
  may come. What they implement together is the ledger of \<open>Ledger\<close>.
\<close>

subsection \<open>The phases of a run\<close>

text \<open>What a run has decided to save: the log with the entries added, its checkpoint, and the message.\<close>

definition log_reads ::
    "('w, 'rng, 'nodes) deps \<Rightarrow> string \<Rightarrow> string list \<Rightarrow> ('w, uint64 + glog \<times> string \<times> string \<times> nat) io" where
  "log_reads D repoDir refs =
     ebind (ewrap ''opening log: %w'' [] (Open (d_os D) (d_tessera D) repoDir)) (\<lambda>l.
     let sizeBefore = Size l in
     ebind (log_each (d_os D) repoDir l [] refs) (\<lambda>(l, added).
       if length added = 0 then eret (Inl sizeBefore)
       else
         ebind (ewrap ''refusing to log: %w'' [] (checkLogChains (d_os D) repoDir l)) (\<lambda>_.
           eret (Inr (l, StoredCheckpoint l, ''ratchet: log '' @ Join added '', '', length added)))))"

definition checkpoint_reads ::
    "('w, 'rng, 'nodes) deps \<Rightarrow> nat list \<Rightarrow> string \<Rightarrow> string \<Rightarrow> Signer \<Rightarrow> tlog_policy
     \<Rightarrow> ('w, glog \<times> string \<times> string \<times> nat) io" where
  "checkpoint_reads D sched repoDir origin signer pol =
     ebind (logToCheckpoint D repoDir) (\<lambda>(l, oldSize).
     ebind (elift (LogRoot (d_merkle D) l)) (\<lambda>root.
     let cp = NewCheckpoint origin (Size l) root in
     ebind (ewrap ''signing checkpoint: %w'' []
              (SignTlogCheckpoint (d_crypto D) (d_formats D) (d_log D)
                 (checkpoint_Marshal (d_log D) cp) signer)) (\<lambda>signedNote.
     ebind (collectCosignatures D sched pol l oldSize signedNote) (\<lambda>cosigLines.
     let assembled = foldl AppendSignature signedNote cosigLines in
       if \<not> pol_Satisfied pol assembled then
         efail (Errorf ''quorum %q not satisfied by %d cosignatures''
                  [FStr (pol_Quorum pol), FNat (length cosigLines)])
       else eret (l, assembled, checkpointMessage l, length cosigLines)))))"

text \<open>A run is its phases, one after the other.\<close>

lemma ebind_eq: "(\<And>x. f x = g x) \<Longrightarrow> ebind m f = ebind m g"
  by (rule arg_cong [of f g "ebind m"]) (rule ext)

lemma ebind_eret_left [simp]: "ebind (eret x) f = f x"
  by (rule ext) simp

lemma ebind_efail_left [simp]: "ebind (efail e) f = efail e"
  by (rule ext) simp

lemma logRefs_phases:
  "logRefs D dir rs = ebind (log_reads D dir rs) (\<lambda>x. case x of
     Inl n \<Rightarrow> eret (NothingToLog n)
   | Inr (l, cp, msg, k) \<Rightarrow>
       ebind (prepare (d_os D) (d_tessera D) l cp msg) (\<lambda>commit.
       ebind (update_log_ref (d_os D) l commit) (\<lambda>_.
       let l = l\<lparr>log_head := commit, log_checkpoint := cp\<rparr> in
       ebind (elift (storedSize (d_log D) l)) (\<lambda>stored. eret (Logged k (Size l) (Size l - stored))))))"
  unfolding logRefs_def log_reads_def Save_prepare ebind_assoc Let_def
  by (intro ebind_eq) (auto simp: ebind_assoc intro!: ebind_eq split: prod.split)

lemma checkpointLog_phases:
  "checkpointLog D sched dir origin signer pol =
     ebind (checkpoint_reads D sched dir origin signer pol) (\<lambda>(l, cp, msg, k).
     ebind (prepare (d_os D) (d_tessera D) l cp msg) (\<lambda>commit.
     ebind (update_log_ref (d_os D) l commit) (\<lambda>_.
     eret (Size (l\<lparr>log_head := commit, log_checkpoint := cp\<rparr>), k))))"
  unfolding checkpointLog_def checkpoint_reads_def Save_prepare ebind_assoc Let_def
  by (intro ebind_eq) (auto simp: ebind_assoc intro!: ebind_eq split: prod.split, simp add: fun_eq_iff)

subsection \<open>Processes and steps\<close>

datatype process = Idle | Saving glog string string | Publishing glog string string

type_synonym 'w system = "(nat \<Rightarrow> process) \<times> 'w"

text \<open>
  Steps: a process starts a run of \<^verbatim>\<open>log\<close> or \<^verbatim>\<open>checkpoint\<close> by reading, goes on to write objects and to move the log
  ref, or ends, failed or killed, at any point; and git does anything else that only adds
  objects and leaves \<^verbatim>\<open>refs/ratchet/log\<close> alone: branches and tags are created, moved, rewritten or deleted.
  A checkpoint may be signed by any key, Ed25519 or ML-DSA-44, for an origin that fits in the checkpoint format,
  and a log has fewer than \<open>2 ^ 63\<close> entries.

  Not among the steps is what moves \<^verbatim>\<open>refs/ratchet/log\<close> by other means than a run in this repository: a push of entries
  to it, or a reset of it that drops entries, both of which the comment in \<^verbatim>\<open>logToCheckpoint\<close> describes.
\<close>

inductive repo_step :: "('w, 'rng, 'nodes) deps \<Rightarrow> string \<Rightarrow> ('w \<Rightarrow> git_db) \<Rightarrow> 'w system \<Rightarrow> 'w system \<Rightarrow> bool"
  for D dir db where
  starts_log: "ps p = Idle \<Longrightarrow> log_reads D dir rs w = (r, w') \<Longrightarrow>
     (\<And>es cp head. repo_log (d_tessera D) (db w) es cp head \<Longrightarrow> length es + length rs < 2 ^ 63) \<Longrightarrow>
     repo_step D dir db (ps, w) (ps(p := (case r of Inr (Inr (l, cp, msg, k)) \<Rightarrow> Saving l cp msg | _ \<Rightarrow> Idle)), w')"
| starts_checkpoint: "ps p = Idle \<Longrightarrow> checkpoint_reads D sched dir origin signer pol w = (r, w') \<Longrightarrow>
     checkpoint_format (d_log D) origin \<Longrightarrow>
     repo_step D dir db (ps, w) (ps(p := (case r of Inr (l, cp, msg, k) \<Rightarrow> Saving l cp msg | _ \<Rightarrow> Idle)), w')"
| writes_objects: "ps p = Saving l cp msg \<Longrightarrow> prepare (d_os D) (d_tessera D) l cp msg w = (r, w') \<Longrightarrow>
     repo_step D dir db (ps, w) (ps(p := (case r of Inr commit \<Rightarrow> Publishing l cp commit | Inl _ \<Rightarrow> Idle)), w')"
| moves_ref: "ps p = Publishing l cp commit \<Longrightarrow> update_log_ref (d_os D) l commit w = (r, w') \<Longrightarrow>
     repo_step D dir db (ps, w) (ps(p := Idle), w')"
| killed: "repo_step D dir db (ps, w) (ps(p := Idle), w)"
| git_activity: "grows (db w) (db w') \<Longrightarrow> g_refs (db w') LogRef = g_refs (db w) LogRef \<Longrightarrow>
     repo_step D dir db (ps, w) (ps, w')"

abbreviation history :: "('w, 'rng, 'nodes) deps \<Rightarrow> string \<Rightarrow> ('w \<Rightarrow> git_db) \<Rightarrow> 'w system \<Rightarrow> 'w system \<Rightarrow> bool" where
  "history D dir db \<equiv> (repo_step D dir db)\<^sup>*\<^sup>*"

text \<open>The ledger that a state holds: the entries of its log, and how many the stored checkpoint covers.\<close>

definition covers :: "('w, 'rng, 'nodes) deps \<Rightarrow> string \<Rightarrow> entry ledger \<Rightarrow> bool" where
  "covers D cp L \<longleftrightarrow> ledger_ok L \<and> (\<exists>n. storedSize (d_log D) (the_log [] [] cp []) = Inr n \<and> covered L = unat n)"

definition holds_ledger ::
    "('w, 'rng, 'nodes) deps \<Rightarrow> ('w \<Rightarrow> git_db) \<Rightarrow> 'w \<Rightarrow> entry ledger \<Rightarrow> bool" where
  "holds_ledger D db w L \<longleftrightarrow>
     (\<exists>cp head. repo_log (d_tessera D) (db w) (recorded L) cp head \<and> covers D cp L)"

lemma holds_ledgerI:
  "repo_log (d_tessera D) (db w) (recorded L) cp head \<Longrightarrow> covers D cp L \<Longrightarrow> holds_ledger D db w L"
  unfolding holds_ledger_def by blast

lemma holds_ledgerE:
  assumes "holds_ledger D db w L"
  obtains cp head where "repo_log (d_tessera D) (db w) (recorded L) cp head" "covers D cp L"
  using assms unfolding holds_ledger_def by blast

lemma coversD:
  assumes "covers D cp L"
  obtains n where "storedSize (d_log D) (the_log dir es cp head) = Inr n" "covered L = unat n" "ledger_ok L"
proof -
  obtain n where n: "storedSize (d_log D) (the_log [] [] cp []) = Inr n" "covered L = unat n" "ledger_ok L"
    using assms unfolding covers_def by blast
  have "storedSize (d_log D) (the_log dir es cp head) = Inr n" using n(1) storedSize_the_log by metis
  then show ?thesis using n(2,3) by (rule that)
qed

lemma coversI:
  assumes "storedSize (d_log D) (the_log dir es cp head) = Inr n" "covered L = unat n" "ledger_ok L"
  shows "covers D cp L"
proof -
  have "storedSize (d_log D) (the_log [] [] cp []) = Inr n" using assms(1) storedSize_the_log by metis
  with assms(2,3) show ?thesis unfolding covers_def by blast
qed

text \<open>A repository without a log holds the empty ledger.\<close>

lemma holds_ledger_empty:
  "g_refs (db w) LogRef = None \<Longrightarrow> holds_ledger D db w \<lparr>recorded = [], covered = 0\<rparr>"
  by (rule holds_ledgerI [where cp = "[]" and head = "[]"])
     (simp_all add: repo_log_def go_len_def storedSize_def covers_def ledger_ok_def)

subsection \<open>What other git activity keeps\<close>

lemma saved_grows:
  assumes "saved TL d es cp k blobs" "grows d d'"
  shows "saved TL d' es cp k blobs"
proof -
  have "stays d (d'\<lparr>g_refs := g_refs d\<rparr>)" using assms(2) by (simp add: stays_def grows_def)
  from saved_stays [OF assms(1) this] show ?thesis
    using saved_blobs [of "d'\<lparr>g_refs := g_refs d\<rparr>" d'] by simp
qed

lemma log_tree_grows:
  assumes "log_tree d = Some t" "grows d d'" "g_refs d' LogRef = g_refs d LogRef"
  shows "log_tree d' = Some t"
  using assms by (force simp: log_tree_def grows_def map_le_def dom_def split: option.splits)

lemma repo_log_grows:
  assumes "repo_log TL d es cp head" "grows d d'" "g_refs d' LogRef = g_refs d LogRef"
  shows "repo_log TL d' es cp head"
  using assms log_tree_grows [OF _ assms(2,3)] saved_grows [OF _ assms(2)]
  unfolding repo_log_def holds_log_def by fastforce

lemma holds_ledger_grows:
  assumes "holds_ledger D db w L" "grows (db w) (db w')" "g_refs (db w') LogRef = g_refs (db w) LogRef"
  shows "holds_ledger D db w' L"
  using assms repo_log_grows unfolding holds_ledger_def by blast

text \<open>A log is fixed by where it is: a state holds at most one.\<close>

lemma repo_log_unique:
  assumes env: "repo_env D dir db graph refs"
    and "repo_log (d_tessera D) (db w) es cp head" "repo_log (d_tessera D) (db w) es' cp' head'"
  shows "es = es' \<and> cp = cp' \<and> head = head'"
proof -
  have "the_log dir es cp head = the_log dir es' cp' head'"
    using Open_repo_log [OF env assms(2)] Open_repo_log [OF env assms(3)] by simp
  then show ?thesis by (simp add: the_log_def)
qed

text \<open>What \<^verbatim>\<open>Open\<close> and \<^verbatim>\<open>storedSize\<close> return where a ledger is held.\<close>

lemma holds_ledger_Open:
  assumes env: "repo_env D dir db graph refs" and h: "holds_ledger D db w L"
  obtains cp head n where "Open (d_os D) (d_tessera D) dir w = (Inr (the_log dir (recorded L) cp head), w)"
    "storedSize (d_log D) (the_log dir (recorded L) cp head) = Inr n" "covered L = unat n"
proof -
  obtain cp head where l: "repo_log (d_tessera D) (db w) (recorded L) cp head" and cov: "covers D cp L"
    by (rule holds_ledgerE [OF h])
  obtain n where n: "storedSize (d_log D) (the_log dir (recorded L) cp head) = Inr n" "covered L = unat n"
    by (rule coversD [OF cov])
  from that [OF Open_repo_log [OF env l] n] show ?thesis .
qed

text \<open>
  The log at some commit, which need not be the one the log ref names: it stays there whatever
  happens, and once the ref names the commit, it is the log.
\<close>

definition log_at :: "tessera_lib \<Rightarrow> git_db \<Rightarrow> entry list \<Rightarrow> string \<Rightarrow> string \<Rightarrow> bool" where
  "log_at TL d es cp head \<longleftrightarrow>
     repo_log TL (d\<lparr>g_refs := (g_refs d)(LogRef := (if head = [] then None else Some head))\<rparr>) es cp head"

lemma log_at_grows:
  assumes "log_at TL d es cp head" "grows d d'"
  shows "log_at TL d' es cp head"
  using assms(1) unfolding log_at_def
  by (rule repo_log_grows) (use assms(2) in \<open>simp_all add: grows_def\<close>)

lemma log_at_current:
  assumes "g_refs d LogRef = (if head = [] then None else Some head)"
  shows "log_at TL d es cp head = repo_log TL d es cp head"
proof -
  have "(g_refs d)(LogRef := (if head = [] then None else Some head)) = g_refs d" using assms by (simp add: fun_upd_idem)
  then show ?thesis by (simp add: log_at_def)
qed

lemma repo_log_at: "repo_log TL d es cp head \<Longrightarrow> log_at TL d es cp head"
  using log_at_current [OF repo_log_head] by blast

subsection \<open>What a process is about to save\<close>

definition will_save ::
    "('w, 'rng, 'nodes) deps \<Rightarrow> string \<Rightarrow> ('w \<Rightarrow> git_db) \<Rightarrow> ('w \<Rightarrow> commit_graph) \<Rightarrow> 'w \<Rightarrow> glog \<Rightarrow> string \<Rightarrow> bool" where
  "will_save D dir db graph w l cp \<longleftrightarrow>
     (\<exists>L L'. log_at (d_tessera D) (db w) (recorded L) (log_checkpoint l) (log_head l) \<and> covers D (log_checkpoint l) L \<and>
        ledger_step L L' \<and> covers D cp L' \<and> l = the_log dir (recorded L') (log_checkpoint l) (log_head l) \<and>
        (\<forall>e\<in>set (recorded L'). entry_ok e) \<and> go_len (recorded L') \<and> chains_ok (graph w) l)"

fun process_ok ::
    "('w, 'rng, 'nodes) deps \<Rightarrow> string \<Rightarrow> ('w \<Rightarrow> git_db) \<Rightarrow> ('w \<Rightarrow> commit_graph) \<Rightarrow> 'w \<Rightarrow> process \<Rightarrow> bool" where
  "process_ok D dir db graph w Idle = True"
| "process_ok D dir db graph w (Saving l cp msg) = will_save D dir db graph w l cp"
| "process_ok D dir db graph w (Publishing l cp commit) =
     (will_save D dir db graph w l cp \<and> commit \<noteq> [] \<and> log_at (d_tessera D) (db w) (log_entries l) cp commit)"

lemma will_save_grows:
  assumes "graph_view db graph" "will_save D dir db graph w l cp" "grows (db w) (db w')"
  shows "will_save D dir db graph w' l cp"
proof -
  have "chains_ok (graph w) l \<Longrightarrow> chains_ok (graph w') l"
    using assms(1,3) chains_ok_subgraph unfolding graph_view_def by blast
  with assms(2) log_at_grows [OF _ assms(3)] show ?thesis unfolding will_save_def by meson
qed

lemma process_ok_grows:
  assumes "graph_view db graph" "process_ok D dir db graph w p" "grows (db w) (db w')"
  shows "process_ok D dir db graph w' p"
  using assms(2) will_save_grows [OF assms(1) _ assms(3)] log_at_grows [OF _ assms(3)] by (cases p) auto

text \<open>\<^verbatim>\<open>log\<close> intends to record, \<^verbatim>\<open>checkpoint\<close> to have everything witnessed.\<close>

lemma log_reads_pure:
  assumes env: "repo_env D dir db graph refs" and l: "repo_log (d_tessera D) (db w) es cp head"
  shows "pure_at (log_reads D dir rs) w"
proof -
  have "pure_at (Open (d_os D) (d_tessera D) dir) w"
    using Open_repo_log [OF env l] by (simp add: pure_at_def)
  moreover have "pure_at (log_each (d_os D) dir l' [] rs) w" for l'
    by (rule log_each_pure [OF repo_envD(3) [OF env]])
  moreover have "pure_at (checkLogChains (d_os D) dir l') w" for l'
    by (rule checkLogChains_pure [OF repo_envD(2) [OF env]])
  ultimately show ?thesis
    unfolding log_reads_def Let_def by (auto intro!: pure_intros split: prod.split)
qed

lemma log_reads_intends:
  assumes env: "repo_env D dir db graph refs" and h: "holds_ledger D db w L"
    and len: "length (recorded L) + length rs < 2 ^ 63"
    and r: "log_reads D dir rs w = (Inr (Inr (l, cp, msg, k)), w')"
  shows "will_save D dir db graph w l cp"
proof -
  obtain cp0 head where rl: "repo_log (d_tessera D) (db w) (recorded L) cp0 head" and cov: "covers D cp0 L"
    by (rule holds_ledgerE [OF h])
  have ok: "\<forall>e\<in>set (recorded L). entry_ok e" using rl by (simp add: repo_log_def)
  obtain added w1 w2 where le: "log_each (d_os D) dir (the_log dir (recorded L) cp0 head) [] rs w = (Inr (l, added), w1)"
    and ne: "added \<noteq> []" and ch: "checkLogChains (d_os D) dir l w1 = (Inr (), w2)" and cp: "cp = StoredCheckpoint l"
    using r Open_repo_log [OF env rl]
    by (auto simp: log_reads_def ebind_Inr_iff ewrap_Inr Let_def split: if_splits)
  have w1: "w1 = w" using pure_at_result [OF log_each_pure [OF repo_envD(3) [OF env]] le] .
  have chains: "chains_ok (graph w) l"
    using checkLogChains_iff [OF repo_envD(2) [OF env] repo_envD(4) [OF env]] ch unfolding w1 by blast
  obtain new where new: "l = the_log dir (recorded L @ new) cp0 head" "length added = length new"
    "\<forall>e\<in>set (recorded L @ new). entry_ok e" "go_len (recorded L @ new)"
    by (rule log_each_records [OF repo_envD(3) [OF env] ok len le chains])
  have n: "new \<noteq> []" using ne new(2) by auto
  let ?L = "L\<lparr>recorded := recorded L @ new\<rparr>"
  have "ledger_step L ?L" by (rule record_entries [OF n])
  moreover have "covers D cp0 ?L" using cov unfolding covers_def by (auto simp: ledger_ok_def)
  moreover have "log_at (d_tessera D) (db w) (recorded L) (log_checkpoint l) (log_head l)"
    unfolding new(1) the_log_simps by (rule repo_log_at [OF rl])
  ultimately show ?thesis
    using new(3,4) chains cov unfolding will_save_def cp
    by (intro exI [of _ L] exI [of _ ?L]) (simp add: new(1))
qed

lemma checkpoint_reads_keeps:
  assumes env: "repo_env D dir db graph refs" and l: "repo_log (d_tessera D) (db w) es cp head"
    and net: "network_contract D db"
  shows "keeps db (checkpoint_reads D sched dir origin signer pol) w"
proof (cases "logToCheckpoint D dir w")
  case (Pair res w0)
  have w0: "w0 = w" using pure_at_result [OF logToCheckpoint_pure [OF env l] Pair] .
  have k: "keeps db (SignTlogCheckpoint (d_crypto D) (d_formats D) (d_log D) b signer) w1"
    "keeps db (collectCosignatures D sched pol l' old sn) w1" for b l' old sn w1
    by (rule SignTlogCheckpoint_keeps [OF net], rule collectCosignatures_keeps [OF net])
  show ?thesis
    unfolding checkpoint_reads_def Let_def
    by (intro keeps_intros keeps_pure [OF logToCheckpoint_pure [OF env l]] k) (auto intro!: keeps_intros k split: prod.split)
qed

lemma checkpoint_reads_intends:
  assumes env: "repo_env D dir db graph refs" and view: "graph_view db graph" and net: "network_contract D db"
    and lib: "hasher_contract (d_merkle D)" "range_contract (d_merkle D) repr"
    and h: "holds_ledger D db w L"
    and s: "note_sign_contract (d_formats D)" and fmt: "checkpoint_format (d_log D) origin"
    and r: "checkpoint_reads D sched dir origin signer pol w = (Inr (l, cp, msg, k), w')"
  shows "will_save D dir db graph w' l cp"
proof -
  obtain cp0 head where rl: "repo_log (d_tessera D) (db w) (recorded L) cp0 head" and cov: "covers D cp0 L"
    by (rule holds_ledgerE [OF h])
  let ?l = "the_log dir (recorded L) cp0 head" and ?L = "L\<lparr>covered := length (recorded L)\<rparr>"
  have ok: "\<forall>e\<in>set (recorded L). entry_ok e" "go_len (recorded L)" using rl by (auto simp: repo_log_def)
  from r obtain l' old w0 root sn w1 lines where lc: "logToCheckpoint D dir w = (Inr (l', old), w0)"
    and 1: "LogRoot (d_merkle D) l' = Inr root"
      "SignTlogCheckpoint (d_crypto D) (d_formats D) (d_log D)
         (checkpoint_Marshal (d_log D) (NewCheckpoint origin (Size l') root)) signer w0 = (Inr sn, w1)"
      "l = l'" "cp = foldl AppendSignature sn lines"
    by (auto simp: checkpoint_reads_def ebind_Inr_iff ewrap_Inr Let_def split: if_splits)
  from lc have 2: "w0 = w" "l' = ?l" "recorded L \<noteq> []" "chains_ok (graph w) ?l"
    unfolding logToCheckpoint_iff [OF env rl] by auto
  have g: "stays (db w) (db w')" by (rule keepsD [OF checkpoint_reads_keeps [OF env rl net] r])
  have at: "log_at (d_tessera D) (db w') (recorded L) cp0 head"
    using log_at_grows [OF repo_log_at [OF rl]] g by (simp add: stays_def)
  have ch: "chains_ok (graph w') ?l"
    using 2(4) g view chains_ok_subgraph unfolding stays_def graph_view_def by blast
  have "storedSize (d_log D) (the_log dir (recorded L) cp head) = Inr (of_nat (length (recorded L)))"
    using assembled_size [OF fmt lib s 1(1,2)] 1(4) 2(2) by simp
  then have c: "covers D cp ?L" by (rule coversI) (simp_all add: ledger_ok_def go_len_unat [OF ok(2)])
  have "ledger_step L ?L" by (rule witness_all [OF 2(3)])
  with at ch c cov ok show ?thesis
    unfolding will_save_def 1(3) 2(2)
    by (intro exI [of _ L] exI [of _ ?L]) simp
qed

subsection \<open>What a process writes\<close>

lemma prepare_log_at:
  assumes env: "repo_env D dir db graph refs" and w: "will_save D dir db graph w l cp"
    and r: "prepare (d_os D) (d_tessera D) l cp msg w = (Inr commit, w')"
  shows "commit \<noteq> [] \<and> log_at (d_tessera D) (db w') (log_entries l) cp commit"
proof -
  from w obtain es where l: "log_repoDir l = dir" "log_entries l = es" "\<forall>e\<in>set es. entry_ok e" "go_len es"
    unfolding will_save_def by (metis the_log_simps(1,2))
  have s: "git_objects (d_os D) (log_repoDir l) db" using repo_envD(1) [OF env] l(1) by simp
  have g: "go_len (log_entries l)" using l by simp
  from postD [OF prepare_post [OF s repo_envD(4) [OF env] repo_envD(5) [OF env] g] r] obtain t blobs where
    o: "object_id commit" and c: "g_commits (db w') commit = Some (t, if log_head l \<noteq> [] then [log_head l] else [], msg)"
    "g_trees (db w') t = Some (map_of blobs)" and sv: "saved (d_tessera D) (db w') es cp (nbundles es) blobs"
    unfolding l(2) by blast
  have ne: "commit \<noteq> []" using o by (auto simp: object_id_def)
  let ?d = "(db w')\<lparr>g_refs := (g_refs (db w'))(LogRef := Some commit)\<rparr>"
  have "saved (d_tessera D) ?d es cp (nbundles es) blobs" using sv saved_blobs [of ?d "db w'"] by simp
  then have "holds_log (d_tessera D) ?d es cp commit"
    using o c by (auto simp: holds_log_def log_tree_def)
  with ne l(2-4) show ?thesis by (simp add: log_at_def repo_log_def)
qed

text \<open>The ledger that a state holds is the one its log was read from.\<close>

lemma holds_ledger_at:
  assumes env: "repo_env D dir db graph refs" and h: "holds_ledger D db w L"
    and l: "repo_log (d_tessera D) (db w) (recorded L0) cp head" and c: "covers D cp L0"
  shows "L0 = L"
proof -
  obtain cp' head' where rl: "repo_log (d_tessera D) (db w) (recorded L) cp' head'" and cov: "covers D cp' L"
    by (rule holds_ledgerE [OF h])
  have e: "recorded L0 = recorded L" "cp = cp'" using repo_log_unique [OF env l rl] by blast+
  have "covered L0 = covered L" using c cov unfolding e(2) covers_def by auto
  with e(1) show ?thesis by simp
qed

definition log_ref_kept :: "git_db \<Rightarrow> git_db \<Rightarrow> bool" where
  "log_ref_kept d d' \<longleftrightarrow> (g_refs d LogRef \<noteq> None \<longrightarrow> g_refs d' LogRef \<noteq> None)"

text \<open>Git moves the ref only for the process whose log was read from the current one.\<close>

lemma update_log_ref_ledger:
  assumes env: "repo_env D dir db graph refs" and h: "holds_ledger D db w L"
    and p: "process_ok D dir db graph w (Publishing l cp commit)"
    and r: "update_log_ref (d_os D) l commit w = (r, w')"
  shows "grows (db w) (db w') \<and> log_ref_kept (db w) (db w') \<and> (holds_ledger D db w' L \<or>
    (\<exists>L'. holds_ledger D db w' L' \<and> ledger_step L L' \<and> chains_ok (graph w) (the_log dir (recorded L') [] [])))"
proof -
  from p obtain L0 L' where at: "log_at (d_tessera D) (db w) (recorded L0) (log_checkpoint l) (log_head l)"
    and L: "covers D (log_checkpoint l) L0" "ledger_step L0 L'" "covers D cp L'"
    and l: "l = the_log dir (recorded L') (log_checkpoint l) (log_head l)" and ch: "chains_ok (graph w) l"
    and c: "commit \<noteq> []" "log_at (d_tessera D) (db w) (log_entries l) cp commit"
    by (auto simp: will_save_def)
  have dir: "log_repoDir l = dir" and en: "log_entries l = recorded L'" by (subst l, simp)+
  have s: "git_objects (d_os D) (log_repoDir l) db" using repo_envD(1) [OF env] dir by simp
  show ?thesis
  proof (cases r)
    case (Inl e)
    with update_log_ref_result [OF s, where commit = commit and w = w] r have "stays (db w) (db w')" by simp
    then show ?thesis using holds_ledger_grows [OF h] by (simp add: stays_def log_ref_kept_def)
  next
    case (Inr out)
    with update_log_ref_result [OF s, where commit = commit and w = w] r
    have ref: "g_refs (db w) LogRef = (if log_head l = [] then None else Some (log_head l))"
      and d: "db w' = (db w)\<lparr>g_refs := (g_refs (db w))(LogRef \<mapsto> commit)\<rparr>" by simp_all
    have g: "grows (db w) (db w')" by (simp add: d grows_def)
    have "L0 = L" using holds_ledger_at [OF env h _ L(1)] at log_at_current [OF ref] by blast
    moreover have "repo_log (d_tessera D) (db w') (recorded L') cp commit"
      using log_at_grows [OF c(2) g] log_at_current [of "db w'" commit] c(1) by (simp add: d en)
    moreover have "chains_ok (graph w) (the_log dir (recorded L') [] [])"
      using ch chains_ok_entries [of l "the_log dir (recorded L') [] []"] en by simp
    moreover have "log_ref_kept (db w) (db w')" by (simp add: d log_ref_kept_def)
    ultimately show ?thesis using g L(2) holds_ledgerI [OF _ L(3), of db w' commit] by blast
  qed
qed

subsection \<open>The repository implements the ledger\<close>

text \<open>What a system rests on: git, the hosts and the libraries behave as documented.\<close>

definition repo_works ::
    "('w, 'rng, 'nodes) deps \<Rightarrow> string \<Rightarrow> ('w \<Rightarrow> git_db) \<Rightarrow> ('w \<Rightarrow> commit_graph) \<Rightarrow> ('w \<Rightarrow> string \<rightharpoonup> string) \<Rightarrow>
     ('rng \<Rightarrow> string list \<Rightarrow> bool) \<Rightarrow> bool" where
  "repo_works D dir db graph refs repr \<longleftrightarrow>
     repo_env D dir db graph refs \<and> graph_view db graph \<and> network_contract D db \<and>
     hasher_contract (d_merkle D) \<and> range_contract (d_merkle D) repr \<and> note_sign_contract (d_formats D)"

lemma repo_worksD:
  assumes "repo_works D dir db graph refs repr"
  shows "repo_env D dir db graph refs" "graph_view db graph" "network_contract D db"
    "hasher_contract (d_merkle D)" "range_contract (d_merkle D) repr" "note_sign_contract (d_formats D)"
  using assms unfolding repo_works_def by blast+

text \<open>A system holds a ledger if its repository does and every process has in hand what it must.\<close>

definition system_holds ::
    "('w, 'rng, 'nodes) deps \<Rightarrow> string \<Rightarrow> ('w \<Rightarrow> git_db) \<Rightarrow> ('w \<Rightarrow> commit_graph) \<Rightarrow> 'w system \<Rightarrow> entry ledger \<Rightarrow> bool" where
  "system_holds D dir db graph s L \<longleftrightarrow>
     holds_ledger D db (snd s) L \<and> (\<forall>p. process_ok D dir db graph (snd s) (fst s p))"

lemma system_holds_idle:
  "holds_ledger D db w L \<Longrightarrow> system_holds D dir db graph ((\<lambda>_. Idle), w) L"
  by (simp add: system_holds_def)

text \<open>One process's part of the state changes, the rest only grows.\<close>

lemma system_holds_update:
  assumes "graph_view db graph" "system_holds D dir db graph (ps, w) L" "grows (db w) (db w')"
    and "holds_ledger D db w' L'" "process_ok D dir db graph w' x"
  shows "system_holds D dir db graph (ps(p := x), w') L'"
  using assms(2,4,5) by (auto simp: system_holds_def intro: process_ok_grows [where w = w, OF assms(1) _ assms(3)])

text \<open>The log of a ledger obeys the ratchet.\<close>

definition ledger_sound :: "commit_graph \<Rightarrow> entry ledger \<Rightarrow> bool" where
  "ledger_sound G L \<longleftrightarrow> chains_ok G (the_log [] (recorded L) [] [])"

lemma ledger_sound_log: "ledger_sound G L \<longleftrightarrow> chains_ok G (the_log dir (recorded L) cp head)"
  unfolding ledger_sound_def by (rule chains_ok_entries) simp

lemma ledger_sound_grows:
  "graph_view db graph \<Longrightarrow> grows (db w) (db w') \<Longrightarrow> ledger_sound (graph w) L \<Longrightarrow> ledger_sound (graph w') L"
  unfolding graph_view_def ledger_sound_def using chains_ok_subgraph by blast

text \<open>
  Where a step goes: the database grows, and the ledger is the same, or one step on and then
  within the ratchet.
\<close>

definition moves_on ::
    "('w, 'rng, 'nodes) deps \<Rightarrow> string \<Rightarrow> ('w \<Rightarrow> git_db) \<Rightarrow> ('w \<Rightarrow> commit_graph) \<Rightarrow> 'w \<Rightarrow> entry ledger \<Rightarrow> 'w system \<Rightarrow> bool" where
  "moves_on D dir db graph w L s' \<longleftrightarrow> grows (db w) (db (snd s')) \<and> log_ref_kept (db w) (db (snd s')) \<and>
     (system_holds D dir db graph s' L \<or>
      (\<exists>L'. system_holds D dir db graph s' L' \<and> ledger_step L L' \<and> ledger_sound (graph (snd s')) L'))"

lemma moves_on_stays:
  assumes "graph_view db graph" "system_holds D dir db graph (ps, w) L" "stays (db w) (db w')"
    and "process_ok D dir db graph w' x"
  shows "moves_on D dir db graph w L (ps(p := x), w')"
proof -
  have g: "grows (db w) (db w')" "g_refs (db w') = g_refs (db w)" using assms(3) by (simp_all add: stays_def)
  have "holds_ledger D db w L" using assms(2) by (simp add: system_holds_def)
  from holds_ledger_grows [of D db w L w', OF this g(1)] g(2) have "holds_ledger D db w' L" by simp
  from system_holds_update [OF assms(1,2) g(1) this assms(4)] g show ?thesis by (simp add: moves_on_def log_ref_kept_def)
qed

lemma repo_step_moves_on:
  assumes works: "repo_works D dir db graph refs repr"
    and h: "system_holds D dir db graph (ps, w) L" and st: "repo_step D dir db (ps, w) s'"
  shows "moves_on D dir db graph w L s'"
proof -
  note env = repo_worksD(1) [OF works] and view = repo_worksD(2) [OF works] and net = repo_worksD(3) [OF works]
  have hl: "holds_ledger D db w L" and ok: "process_ok D dir db graph w (ps p)" for p
    using h by (simp_all add: system_holds_def)
  obtain cp head where rl: "repo_log (d_tessera D) (db w) (recorded L) cp head" by (rule holds_ledgerE [OF hl])
  show ?thesis
    using st
  proof (cases rule: repo_step.cases)
    case (starts_log p rs r w')
    have w': "w' = w" using pure_at_result [OF log_reads_pure [OF env rl] starts_log(3)] .
    have "process_ok D dir db graph w (case r of Inr (Inr (l, cp, msg, k)) \<Rightarrow> Saving l cp msg | _ \<Rightarrow> Idle)"
      using log_reads_intends [OF env hl starts_log(4) [OF rl]] starts_log(3)
      by (auto simp: w' split: sum.split)
    then show ?thesis unfolding starts_log(1) w' by (intro moves_on_stays [OF view h]) simp_all
  next
    case (starts_checkpoint p sched origin signer pol r w')
    have "process_ok D dir db graph w' (case r of Inr (l, cp, msg, k) \<Rightarrow> Saving l cp msg | _ \<Rightarrow> Idle)"
      using checkpoint_reads_intends [OF env view net repo_worksD(4,5) [OF works] hl repo_worksD(6) [OF works] starts_checkpoint(4)] starts_checkpoint(3)
      by (auto split: sum.split)
    then show ?thesis unfolding starts_checkpoint(1)
      by (intro moves_on_stays [OF view h] keepsD [OF checkpoint_reads_keeps [OF env rl net] starts_checkpoint(3)])
  next
    case (writes_objects p l cp msg r w')
    have w: "will_save D dir db graph w l cp" using ok [of p] writes_objects(2) by simp
    then have "git_objects (d_os D) (log_repoDir l) db"
      using repo_envD(1) [OF env] unfolding will_save_def by (metis the_log_simps(1))
    note k = keepsD [OF prepare_keeps [OF this] writes_objects(3)]
    have "process_ok D dir db graph w' (case r of Inr commit \<Rightarrow> Publishing l cp commit | Inl _ \<Rightarrow> Idle)"
      using prepare_log_at [OF env w] will_save_grows [OF view w] k writes_objects(3)
      by (auto simp: stays_def split: sum.split)
    then show ?thesis unfolding writes_objects(1) by (intro moves_on_stays [OF view h k])
  next
    case (moves_ref p l cp commit r w')
    have "process_ok D dir db graph w (Publishing l cp commit)" using ok [of p] moves_ref(2) by simp
    note u = update_log_ref_ledger [OF env hl this moves_ref(3)]
    have g: "grows (db w) (db w')" using u by blast
    from u system_holds_update [OF view h g, of _ Idle p] ledger_sound_grows [OF view g]
    show ?thesis unfolding moves_ref(1) moves_on_def snd_conv ledger_sound_log [of _ _ dir "[]" "[]"]
      by (metis process_ok.simps(1))
  next
    case (killed p)
    then show ?thesis by (auto intro: moves_on_stays [OF view h])
  next
    case (git_activity w')
    have "system_holds D dir db graph (ps, w') L"
      using h holds_ledger_grows [OF hl git_activity(2,3)]
      by (auto simp: system_holds_def intro: process_ok_grows [where w = w, OF view _ git_activity(2)])
    then show ?thesis unfolding git_activity(1) moves_on_def log_ref_kept_def using git_activity(2,3) by simp
  qed
qed

text \<open>
  So the system implements the ledger; and, seen from any state it has been in, the database
  has grown and the ledger has stayed within the ratchet.
\<close>

lemma repo_step_simulates:
  assumes "repo_works D dir db graph refs repr" "system_holds D dir db graph s L" "repo_step D dir db s s'"
  shows "\<exists>L'. system_holds D dir db graph s' L' \<and> ledger_step\<^sup>=\<^sup>= L L'"
proof -
  obtain ps w where s: "s = (ps, w)" by force
  have "moves_on D dir db graph w L s'" by (rule repo_step_moves_on [OF assms [unfolded s]])
  then show ?thesis unfolding moves_on_def by auto
qed

lemma system_holds_ok: "system_holds D dir db graph s L \<Longrightarrow> ledger_ok L"
  by (auto simp: system_holds_def holds_ledger_def covers_def)

interpretation repository: ledger_implementation "repo_step D dir db" "system_holds D dir db graph"
    "repo_works D dir db graph refs repr" for D dir db graph refs repr
  by unfold_locales (blast intro: repo_step_simulates, rule system_holds_ok)

definition since ::
    "('w, 'rng, 'nodes) deps \<Rightarrow> string \<Rightarrow> ('w \<Rightarrow> git_db) \<Rightarrow> ('w \<Rightarrow> commit_graph) \<Rightarrow> 'w \<Rightarrow> entry ledger \<Rightarrow>
     'w system \<Rightarrow> entry ledger \<Rightarrow> bool" where
  "since D dir db graph w0 L0 s L \<longleftrightarrow>
     system_holds D dir db graph s L \<and> grows (db w0) (db (snd s)) \<and> log_ref_kept (db w0) (db (snd s)) \<and>
     (ledger_sound (graph w0) L0 \<longrightarrow> ledger_sound (graph (snd s)) L)"

lemma since_start: "system_holds D dir db graph (ps, w) L \<Longrightarrow> since D dir db graph w L (ps, w) L"
  by (simp add: since_def log_ref_kept_def)

lemma repo_step_since:
  assumes works: "repo_works D dir db graph refs repr" and h: "since D dir db graph w0 L0 s L"
    and st: "repo_step D dir db s s'"
  shows "\<exists>L'. since D dir db graph w0 L0 s' L' \<and> ledger_step\<^sup>=\<^sup>= L L'"
proof -
  obtain ps w where s: "s = (ps, w)" by force
  from h have sh: "system_holds D dir db graph (ps, w) L" and g0: "grows (db w0) (db w)" and k0: "log_ref_kept (db w0) (db w)"
    and ch: "ledger_sound (graph w0) L0 \<longrightarrow> ledger_sound (graph w) L" by (simp_all add: since_def s)
  from repo_step_moves_on [OF works sh st [unfolded s]]
  have g: "grows (db w) (db (snd s'))" and k: "log_ref_kept (db w) (db (snd s'))" and m: "system_holds D dir db graph s' L \<or>
    (\<exists>L'. system_holds D dir db graph s' L' \<and> ledger_step L L' \<and> ledger_sound (graph (snd s')) L')"
    unfolding moves_on_def by blast+
  have "grows (db w0) (db (snd s'))" by (rule grows_trans [OF g0 g])
  moreover have "ledger_sound (graph w0) L0 \<longrightarrow> ledger_sound (graph (snd s')) L"
    using ch ledger_sound_grows [OF repo_worksD(2) [OF works] g] by blast
  moreover have "log_ref_kept (db w0) (db (snd s'))" using k0 k by (simp add: log_ref_kept_def)
  ultimately show ?thesis using m unfolding since_def by blast
qed

interpretation repository_since: ledger_implementation "repo_step D dir db" "since D dir db graph w0 L0"
    "repo_works D dir db graph refs repr" for D dir db graph refs repr w0 L0
  by unfold_locales (blast intro: repo_step_since, auto simp: since_def dest: system_holds_ok)

lemma history_since:
  assumes "repo_works D dir db graph refs repr" "system_holds D dir db graph (ps, w) L" "history D dir db (ps, w) s'"
  obtains L' where "since D dir db graph w L s' L'" "ledger_le L L'" "prefix (readable L) (readable L')"
  using repository_since.run_grows [OF assms(1,3) since_start [OF assms(2)]] by blast

text \<open>Every state that a run reaches, all processes idle at first, holds a ledger.\<close>

lemma history_holds:
  assumes "repo_works D dir db graph refs repr" "holds_ledger D db w L" "history D dir db ((\<lambda>_. Idle), w) s'"
  obtains L' where "system_holds D dir db graph s' L'" "ledger_step\<^sup>*\<^sup>* L L'"
  using repository.run_simulates [OF assms(1,3) system_holds_idle [OF assms(2)]] by blast

subsection \<open>Undisturbed runs\<close>

text \<open>A run that nothing comes between is a history, with whatever outcome, wherever the other processes are.\<close>

lemma save_history:
  assumes idle: "ps p = Idle" and st: "repo_step D dir db (ps, w0) (ps(p := Saving l cp msg), w)"
    and r: "ebind (prepare (d_os D) (d_tessera D) l cp msg) (\<lambda>commit.
      ebind (update_log_ref (d_os D) l commit) (\<lambda>_. f commit)) w = (r, w')" and f: "\<And>c w w' r. f c w = (r, w') \<Longrightarrow> w' = w"
  shows "history D dir db (ps, w0) (ps, w')"
proof -
  obtain res w1 where p: "prepare (d_os D) (d_tessera D) l cp msg w = (res, w1)" by force
  let ?ps = "ps(p := Saving l cp msg)"
  have "repo_step D dir db (?ps, w) (?ps(p := (case res of Inr commit \<Rightarrow> Publishing l cp commit | Inl _ \<Rightarrow> Idle)), w1)"
    by (rule writes_objects [OF _ p]) simp
  then have h: "history D dir db (ps, w0) (ps(p := (case res of Inr commit \<Rightarrow> Publishing l cp commit | Inl _ \<Rightarrow> Idle)), w1)"
    using st by simp
  show ?thesis
  proof (cases res)
    case (Inl e)
    with r p have "w' = w1" by (simp add: ebind_def)
    with h Inl show ?thesis by (simp add: fun_upd_idem idle)
  next
    case (Inr c)
    obtain out w2 where u: "update_log_ref (d_os D) l c w1 = (out, w2)" by force
    have "w' = w2" using r p Inr u f by (cases out) (auto simp: ebind_def)
    moreover have "repo_step D dir db (ps(p := Publishing l cp c), w1) (ps(p := Publishing l cp c, p := Idle), w2)"
      by (rule moves_ref [OF _ u]) simp
    ultimately show ?thesis using h Inr by (simp add: fun_upd_idem idle)
  qed
qed

lemma log_run_history:
  assumes idle: "ps p = Idle" and r: "logRefs D dir rs w = (r, w')"
    and len: "\<And>es cp head. repo_log (d_tessera D) (db w) es cp head \<Longrightarrow> length es + length rs < 2 ^ 63"
  shows "history D dir db (ps, w) (ps, w')"
proof -
  obtain res w1 where lr: "log_reads D dir rs w = (res, w1)" by force
  note s = starts_log [where ps = ps and p = p, OF idle lr len]
  consider e where "res = Inl e" | n where "res = Inr (Inl n)" | l cp msg k where "res = Inr (Inr (l, cp, msg, k))"
    by (metis obj_sumE prod.collapse)
  then show ?thesis
  proof cases
    case 3
    from r have "ebind (prepare (d_os D) (d_tessera D) l cp msg) (\<lambda>commit.
       ebind (update_log_ref (d_os D) l commit) (\<lambda>_.
       let l = l\<lparr>log_head := commit, log_checkpoint := cp\<rparr> in
       ebind (elift (storedSize (d_log D) l)) (\<lambda>stored. eret (Logged k (Size l) (Size l - stored))))) w1 = (r, w')"
      unfolding logRefs_phases ebind_def [of "log_reads D dir rs"] lr 3 by simp
    moreover have "repo_step D dir db (ps, w) (ps(p := Saving l cp msg), w1)"
      using s by (simp add: 3)
    ultimately show ?thesis
      by (intro save_history [where w = w1 and ps = ps and p = p, OF idle]) (auto simp: Let_def ebind_def elift_def eret_def efail_def split: sum.splits)
  qed (use r s lr in \<open>auto simp: logRefs_phases ebind_def fun_upd_idem idle\<close>)
qed

lemma checkpoint_run_history:
  assumes idle: "ps p = Idle" and r: "checkpointLog D sched dir origin signer pol w = (r, w')"
    and s: "checkpoint_format (d_log D) origin"
  shows "history D dir db (ps, w) (ps, w')"
proof -
  obtain res w1 where cr: "checkpoint_reads D sched dir origin signer pol w = (res, w1)" by force
  note s = starts_checkpoint [where ps = ps and p = p, OF idle cr s]
  consider e where "res = Inl e" | l cp msg k where "res = Inr (l, cp, msg, k)" by (cases res) auto
  then show ?thesis
  proof cases
    case 2
    from r have "ebind (prepare (d_os D) (d_tessera D) l cp msg) (\<lambda>commit.
       ebind (update_log_ref (d_os D) l commit) (\<lambda>_.
       eret (Size (l\<lparr>log_head := commit, log_checkpoint := cp\<rparr>), k))) w1 = (r, w')"
      unfolding checkpointLog_phases ebind_def [of "checkpoint_reads D sched dir origin signer pol"] cr 2 by simp
    with s show ?thesis unfolding 2 by (intro save_history [where w = w1 and ps = ps and p = p, OF idle]) auto
  qed (use r s cr in \<open>auto simp: checkpointLog_phases ebind_def fun_upd_idem idle\<close>)
qed

subsection \<open>What readers see\<close>

text \<open>A reader's log is the readable part of the ledger.\<close>

lemma checkpointedLog_part:
  assumes works: "repo_works D dir db graph refs repr" and h: "holds_ledger D db w L"
    and r: "checkpointedLog D dir pol w = (Inr t, w')"
  shows "log_entries t = readable L \<and> log_ok t"
proof -
  note env = repo_worksD(1) [OF works] and lib = repo_worksD(4,5) [OF works]
  obtain cp head where l: "repo_log (d_tessera D) (db w) (recorded L) cp head" and cov: "covers D cp L"
    by (rule holds_ledgerE [OF h])
  obtain n where st: "storedSize (d_log D) (the_log dir (recorded L) cp head) = Inr n" "covered L = unat n"
    by (rule coversD [OF cov])
  have ok: "\<forall>e\<in>set (recorded L). entry_ok e" "go_len (log_entries (the_log dir (recorded L) cp head))"
    using l by (auto simp: repo_log_def)
  from r checkpointedLog_Inr_iff [OF env l] obtain body c root where c: "cp \<noteq> []" "ExtractBody cp = Inr body"
    "ParseCheckpoint (d_log D) body = Inr (c, root)"
    "Checkpointed (d_merkle D) (the_log dir (recorded L) cp head) c = Inr t" by blast
  have "covered L = unat (cp_Size c)" using st c(1-3) by (simp add: storedSize_def)
  moreover have "t = the_log dir (take (unat (cp_Size c)) (recorded L)) cp head"
    using Checkpointed_Inr_iff [OF lib ok(2), THEN iffD1, OF c(4)] by simp
  ultimately show ?thesis using ok(1) in_set_takeD by (fastforce simp: log_ok_def readable_def)
qed

lemma readers_prefix:
  assumes works: "repo_works D dir db graph refs repr" and h: "system_holds D dir db graph (ps, w) L"
    and run: "history D dir db (ps, w) (ps', w')"
    and r: "checkpointedLog D dir pol w = (Inr t, v)" "checkpointedLog D dir pol' w' = (Inr t', v')"
  shows "prefix (log_entries t) (log_entries t') \<and> log_ok t \<and> log_ok t' \<and> grows (db w) (db w')"
proof -
  obtain L' where L': "since D dir db graph w L (ps', w') L'" "prefix (readable L) (readable L')"
    by (rule history_since [OF works h run])
  have "holds_ledger D db w L" "holds_ledger D db w' L'" "grows (db w) (db w')"
    using h L'(1) by (simp_all add: since_def system_holds_def)
  with checkpointedLog_part [OF works _ r(1)] checkpointedLog_part [OF works _ r(2)] L'(2) show ?thesis by simp
qed

text \<open>A longer log extends the records of every ref.\<close>

lemma RefRecords_prefix:
  assumes "prefix (log_entries l) (log_entries l')" "RefRecords l x = Inr rs" "RefRecords l' x = Inr rs'"
  shows "prefix rs rs'"
  using assms by (auto simp: RefRecords_Inr_iff prefix_def)

text \<open>What a ref's records prescribe, from an earlier record to a later one.\<close>

lemma records_advance:
  assumes "ratchet_ok G RefBranch (objects rs')" "prefix rs rs'" "rs \<noteq> []"
  shows "rr_Object (last rs) = rr_Object (last rs') \<or> is_ancestor G (rr_Object (last rs)) (rr_Object (last rs'))"
proof -
  obtain zs where rs': "rs' = rs @ zs" using assms(2) by (auto simp: prefix_def)
  show ?thesis
  proof (cases "zs = []")
    case False
    then have "length rs - 1 < length rs' - 1" "length rs' - 1 < length (objects rs')"
      using assms(3) rs' by (auto simp: Suc_le_eq diff_less_mono)
    note pair = ratchet_ok_branch_pairs [OF assms(1) this]
    have "rs' \<noteq> []" using assms(3) rs' by simp
    then have "objects rs' ! (length rs' - 1) = rr_Object (last rs')" by (simp add: last_conv_nth)
    moreover have "objects rs' ! (length rs - 1) = rr_Object (last rs)"
      using assms(3) rs' by (simp add: last_conv_nth nth_append)
    ultimately show ?thesis using pair by (simp only:)
  qed (simp add: rs')
qed

lemma tag_records_same:
  assumes "ratchet_ok G RefTag (objects rs')" "prefix rs rs'" "rs \<noteq> []"
  shows "rr_Object (last rs) = rr_Object (last rs')"
proof -
  have "rs' \<noteq> []" using assms(2,3) by auto
  then have "rr_Object (last rs') \<in> set (objects rs')" by simp
  moreover have "rr_Object (last rs) \<in> set (objects rs')"
    using set_mono_prefix [OF assms(2)] last_in_set [OF assms(3)] by auto
  ultimately show ?thesis using assms(1) unfolding ratchet_ok_def RefKind.case by blast
qed

end
