(* ===== verification/Unlisted_Log.thy ===== *)
theory Unlisted_Log
  imports Repo_History
begin

section \<open>A log whose bundles could not be listed\<close>

text \<open>
  \<^verbatim>\<open>readEntries\<close> takes every error of \<^verbatim>\<open>git ls-tree\<close> for an empty tree, whatever its cause, and \<^verbatim>\<open>Open\<close> then
  returns the head and the checkpoint of the log with no entries. What the commands do from there.
\<close>

abbreviation list_bundles :: "'w os \<Rightarrow> string \<Rightarrow> ('w, string) io" where
  "list_bundles os dir \<equiv> Run os (Git dir) [''ls-tree'', ''-r'', ''--name-only'', LogRef, entriesPrefix]"

lemma readEntries_unlisted: "list_bundles os dir w = (Inl e, w) \<Longrightarrow> readEntries os TL dir w = (Inr [], w)"
  by (simp add: readEntries_def etry_def)

lemma Open_unlisted:
  assumes s: "log_files_contract (d_os D) dir db" and l: "repo_log (d_tessera D) (db w) es cp head" and h: "head \<noteq> []"
    and fail: "list_bundles (d_os D) dir w = (Inl e, w)"
  shows "Open (d_os D) (d_tessera D) dir w = (Inr (the_log dir [] cp head), w)"
proof -
  from l h obtain blobs where r: "g_refs (db w) LogRef = Some head" "object_id head"
    and t: "log_tree (db w) = Some (map_of blobs)" and sv: "saved (d_tessera D) (db w) es cp (nbundles es) blobs"
    by (auto simp: repo_log_def holds_log_def)
  from sv obtain bl where "map_of blobs checkpointPath = Some bl" "g_blobs (db w) bl = Some cp"
    by (auto simp: saved_def)
  from CatFile_log [OF s t this]
  have cp: "CatFile (d_os D) dir (LogRef @ '':'' @ checkpointPath) w = (Inr cp, w)" .
  show ?thesis
    using RefExists_LogRef [OF s, of w] ResolveRef_LogRef [OF s r] cp readEntries_unlisted [OF fail] r
    by (simp add: Open_def Let_def ebind_def ewrap_def etry_def empty_log_def the_log_def)
qed

text \<open>Whatever the refs are, they are recorded: an empty log has no record of them.\<close>

lemma logRefs_unlisted_records:
  assumes q: "ancestry_contract (d_os D) dir graph" "rev_parse_contract (d_os D) dir refs" "map_order_contract (d_os D)"
    and op: "Open (d_os D) (d_tessera D) dir w = (Inr (the_log dir [] cp head), w)"
    and ne: "rs \<noteq> []" and r: "logRefs D dir rs w = (Inr s, w')"
  obtains n sz pend where "s = Logged n sz pend"
proof (cases s)
  case (NothingToLog k)
  obtain res where le: "log_each (d_os D) dir (the_log dir [] cp head) [] rs w = (res, w)"
    using pure_atD [OF log_each_pure [OF q(2)]] by metis
  have nt: "ebind (Save (d_os D) (d_tessera D) l' cp msg) (\<lambda>l. ebind (elift (storedSize (d_log D) l)) (\<lambda>stored.
      eret (Logged k (Size l) (Size l - stored)))) w \<noteq> (Inr (NothingToLog n), w')" for l' msg k n
    by (auto simp: ebind_Inr_iff)
  from logRefs_opened [OF q op, of rs] r NothingToLog le obtain l' where res: "res = Inr (l', [])"
    by (cases res) (auto simp: nt nt [symmetric] split: if_splits)
  from log_each_appends [OF q(2) le [unfolded res]] have l': "l' = the_log dir [] cp head" by auto
  from ne obtain x where x: "x \<in> set rs" by (cases rs) auto
  have "up_to_date (refs w) l' x"
    by (rule log_each_up_to_date [OF q(2) le [unfolded res] _ x]) (simp add: l')
  then show ?thesis by (auto simp: up_to_date_def RefRecords_Inr_iff l')
qed (rule that)

text \<open>The log is saved over: the new commit holds the new records alone, and the old checkpoint.\<close>

lemma logRefs_unlisted:
  assumes s: "git_objects (d_os D) dir db" "map_order_contract (d_os D)" "layout_contract (d_tessera D)"
    and q: "log_files_contract (d_os D) dir db" "ancestry_contract (d_os D) dir graph" "rev_parse_contract (d_os D) dir refs"
    and l: "repo_log (d_tessera D) (db w) es cp head" and h: "head \<noteq> []"
    and fail: "list_bundles (d_os D) dir w = (Inl e, w)"
    and len: "length rs < 2 ^ 63" "rs \<noteq> []" and r: "logRefs D dir rs w = (Inr out, w')"
  obtains new c where "new \<noteq> []" "repo_log (d_tessera D) (db w') new cp c" "records_of_refs (refs w) rs new"
    "\<exists>t msg. g_commits (db w') c = Some (t, [head], msg)" "\<exists>pend. out = Logged (length new) (of_nat (length new)) pend"
proof -
  note op = Open_unlisted [OF q(1) l h fail]
  obtain n sz pend where out: "out = Logged n sz pend"
    by (rule logRefs_unlisted_records [OF q(2,3) s(2) op len(2) r])
  show thesis
  proof (rule logRefs_opened_Logged [OF q(2,3) s op _ _ r [unfolded out]])
    fix new c assume 1: "n = length new" "sz = of_nat (length ([] @ new))" "new \<noteq> []" "records_of_refs (refs w) rs new"
      "repo_log (d_tessera D) (db w') ([] @ new) cp c"
      "\<exists>t msg. g_commits (db w') c = Some (t, if head \<noteq> [] then [head] else [], msg)"
    show thesis by (rule that [of new c]) (use 1 h out in auto)
  qed (use len in simp_all)
qed

text \<open>A later reader whose git works refuses that log when the checkpoint covers more than it holds.\<close>

lemma short_log_refused:
  assumes env: "repo_env D dir db graph refs" and lib: "hasher_contract (d_merkle D)" "range_contract (d_merkle D) repr"
    and l: "repo_log (d_tessera D) (db w) new cp c" and m: "storedSize (d_log D) (the_log dir new cp c) = Inr m"
    and short: "length new < unat m"
  shows "\<exists>e. checkpointedLog D dir pol w = (Inl e, w)"
proof (cases "fst (checkpointedLog D dir pol w)")
  case (Inl e)
  then show ?thesis using pure_atD [OF checkpointedLog_pure [OF env l]] by metis
next
  case (Inr t)
  then have "checkpointedLog D dir pol w = (Inr t, w)" using pure_atD [OF checkpointedLog_pure [OF env l]] by metis
  with checkpointedLog_Inr_iff [OF env l] obtain body k root where k: "cp \<noteq> []" "ExtractBody cp = Inr body"
    "ParseCheckpoint (d_log D) body = Inr (k, root)" "Checkpointed (d_merkle D) (the_log dir new cp c) k = Inr t" by blast
  have "m = cp_Size k" using m k(1-3) by (simp add: storedSize_def)
  moreover have "go_len (log_entries (the_log dir new cp c))" using l by (simp add: repo_log_def)
  ultimately show ?thesis using Checkpointed_Inr_iff [OF lib, THEN iffD1, OF _ k(4)] short by simp
qed

end
