(* ===== verification/Example_Unlisted.thy ===== *)
theory Example_Unlisted
  imports Example_Works Unlisted_Log
begin

section \<open>A git that cannot list a tree\<close>

text \<open>Any git, but with \<^verbatim>\<open>ls-tree\<close> failing; whatever does not list a tree is as it was.\<close>

definition unlisting :: "'w os \<Rightarrow> 'w os" where
  "unlisting os = os\<lparr>exec_command := (\<lambda>name argv env inp w.
     if drop 3 argv = [''ls-tree'', ''-r'', ''--name-only'', LogRef, entriesPrefix] then (Exited 128 [] [], w)
     else exec_command os name argv env inp w)\<rparr>"

lemma unlisting_exec: "args \<noteq> [''ls-tree'', ''-r'', ''--name-only'', LogRef, entriesPrefix] \<Longrightarrow>
    exec_command (unlisting os) name (git_argv dir args) env inp w = exec_command os name (git_argv dir args) env inp w"
  by (simp add: unlisting_def git_argv_def)

lemma unlisting_git_at: "args \<noteq> [''ls-tree'', ''-r'', ''--name-only'', LogRef, entriesPrefix] \<Longrightarrow>
    git_at (unlisting os) dir args = git_at os dir args"
  by (simp add: fun_eq_iff git_at_def unlisting_exec)

lemma unlisting_writes: "writes_object args \<Longrightarrow> git_at (unlisting os) dir args = git_at os dir args"
  by (rule unlisting_git_at) (auto simp: writes_object_def)

lemma unlisting_fields [simp]:
  "MkdirTemp (unlisting os) = MkdirTemp os" "RemoveAll (unlisting os) = RemoveAll os"
  "filepath_Join (unlisting os) = filepath_Join os" "map_keys_order (unlisting os) = map_keys_order os"
  by (simp_all add: unlisting_def)

lemma unlisting_fails:
  "list_bundles (unlisting os) dir w = (Inl (exit_message [''ls-tree'', ''-r'', ''--name-only'', LogRef, entriesPrefix] 128 []), w)"
  by (simp add: Run_def Git_def Let_def unlisting_def git_argv_def)

lemma unlisting_objects: "git_objects os dir db \<Longrightarrow> git_objects (unlisting os) dir db"
  by (simp add: git_objects_def objects_contract_def hash_object_contract_def update_index_contract_def
    write_tree_contract_def commit_tree_contract_def update_ref_contract_def scratch_contract_def
    unlisting_git_at unlisting_writes cong: imp_cong)

lemma unlisting_files: "log_files_contract os dir db \<Longrightarrow> log_files_contract (unlisting os) dir db"
  by (simp add: log_files_contract_def unlisting_git_at)

lemma unlisting_ancestry: "ancestry_contract os dir graph \<Longrightarrow> ancestry_contract (unlisting os) dir graph"
  by (simp add: ancestry_contract_def unlisting_exec)

lemma unlisting_rev_parse: "rev_parse_contract os dir refs \<Longrightarrow> rev_parse_contract (unlisting os) dir refs"
  by (simp add: rev_parse_contract_def unlisting_exec cong: option.case_cong)

lemma unlisting_works: "git_works os dir TL db sound \<Longrightarrow> git_works (unlisting os) dir TL db sound"
  by (simp add: git_works_def unlisting_git_at)

end
