(* ===== verification/History_Properties.thy ===== *)
theory History_Properties
  imports Example_Unlisted
begin

section \<open>Properties of a repository's history\<close>

text \<open>
  What holds between any two states of a repository, whatever runs of \<^verbatim>\<open>log\<close> and \<^verbatim>\<open>checkpoint\<close>,
  of any number of processes, interleaved, failed or killed, lie between them, and whatever other git activity
  that leaves \<^verbatim>\<open>refs/ratchet/log\<close> alone. The scope is that of \<open>repo_step\<close>: entries that are pushed to that ref, and a reset
  of it that drops entries, are outside it; a checkpoint is signed by any kind of log key, for an origin that fits in
  the checkpoint format.
\<close>

text \<open>
  C4: The log only grows, as long as \<^verbatim>\<open>refs/ratchet/log\<close> is moved by nothing but runs of \<^verbatim>\<open>log\<close> and \<^verbatim>\<open>checkpoint\<close> in this
  repository (not by a push or a reset). Whatever \<^verbatim>\<open>Open\<close> returns at some point of such a history, what it
  returns at any later point has the same entries and possibly more at the end, and a checkpoint that covers no
  fewer of them; and if the log obeyed the ratchet it still does, even if branches were
  rewritten and tags moved in between.
\<close>

theorem history_append_only:
  assumes works: "repo_works D dir db graph refs repr" and start: "holds_ledger D db w0 L0"
    and runs: "history D dir db ((\<lambda>_. Idle), w0) (ps, w)" "history D dir db (ps, w) (ps', w')"
  shows "\<exists>l l' n n'. Open (d_os D) (d_tessera D) dir w = (Inr l, w) \<and> Open (d_os D) (d_tessera D) dir w' = (Inr l', w') \<and>
    prefix (log_entries l) (log_entries l') \<and>
    storedSize (d_log D) l = Inr n \<and> storedSize (d_log D) l' = Inr n' \<and> n \<le> n' \<and>
    (chains_ok (graph w) l \<longrightarrow> chains_ok (graph w') l')"
proof -
  obtain L where h: "system_holds D dir db graph (ps, w) L" by (rule history_holds [OF works start runs(1)])
  obtain L' where s: "since D dir db graph w L (ps', w') L'" and le: "ledger_le L L'"
    by (rule history_since [OF works h runs(2)])
  have hl: "holds_ledger D db w L" "holds_ledger D db w' L'" using h s by (simp_all add: since_def system_holds_def)
  obtain cp head n where 1: "Open (d_os D) (d_tessera D) dir w = (Inr (the_log dir (recorded L) cp head), w)"
    "storedSize (d_log D) (the_log dir (recorded L) cp head) = Inr n" "covered L = unat n"
    by (rule holds_ledger_Open [OF repo_worksD(1) [OF works] hl(1)])
  obtain cp' head' n' where 2: "Open (d_os D) (d_tessera D) dir w' = (Inr (the_log dir (recorded L') cp' head'), w')"
    "storedSize (d_log D) (the_log dir (recorded L') cp' head') = Inr n'" "covered L' = unat n'"
    by (rule holds_ledger_Open [OF repo_worksD(1) [OF works] hl(2)])
  have "prefix (recorded L) (recorded L')" "n \<le> n'"
    using le 1(3) 2(3) by (simp_all add: ledger_le_def word_le_nat_alt)
  moreover have "chains_ok (graph w) (the_log dir (recorded L) cp head) \<longrightarrow>
      chains_ok (graph w') (the_log dir (recorded L') cp' head')"
    using s unfolding since_def snd_conv ledger_sound_log [of _ L dir cp head] ledger_sound_log [of _ L' dir cp' head'] by blast
  ultimately show ?thesis
    by (intro exI [of _ "the_log dir (recorded L) cp head"] exI [of _ "the_log dir (recorded L') cp' head'"])
       (simp add: 1(1,2) 2(1,2))
qed

text \<open>Two processes: \<^verbatim>\<open>log\<close> runs in one while a branch is moved by another program.\<close>

lemma ex_repo_works: "repo_works ex_deps dir ex_db ex_graph ex_refs (=)"
  using ex_env ex_graph_view ex_network ex_checkpoint_libs(2,3) ex_note_sign_deps by (simp add: repo_works_def)

lemma ex_repo_log_unique:
  assumes "repo_log (d_tessera ex_deps) (ex_db (ex_repo h ex_log_entries [])) es cp head"
  shows "es = ex_log_entries"
  using repo_log_unique [OF ex_env assms ex_repo_env] by blast

lemma ex_holds_ledger: "holds_ledger ex_deps ex_db (ex_repo h ex_log_entries []) \<lparr>recorded = ex_log_entries, covered = 0\<rparr>"
  by (rule holds_ledgerI [where cp = "[]" and head = "''c3''"])
     (use ex_repo_env in \<open>simp_all add: covers_def ledger_ok_def storedSize_def\<close>)

lemma ex_branch_moves: "history ex_deps dir ex_db (ps, ex_repo ex_c1 ex_log_entries []) (ps, ex_repo ex_c2 ex_log_entries [])"
  by (intro r_into_rtranclp git_activity) (simp_all add: grows_def ex_db_def ex_repo_def)

lemma ex_log_run: "history ex_deps dir ex_db ((\<lambda>_. Idle), ex_repo ex_c2 ex_log_entries [])
    ((\<lambda>_. Idle), snd (logRefs ex_deps dir [ex_main] (ex_repo ex_c2 ex_log_entries [])))"
  by (rule log_run_history [OF _ prod.collapse [symmetric]]) (simp, drule ex_repo_log_unique, simp add: ex_log_size)

theorem history_append_only_witness:
  "\<exists>l l'. Open (d_os ex_deps) (d_tessera ex_deps) ''dir'' (ex_repo ex_c2 ex_log_entries [])
      = (Inr l, ex_repo ex_c2 ex_log_entries []) \<and>
    fst (Open (d_os ex_deps) (d_tessera ex_deps) ''dir''
      (snd (logRefs ex_deps ''dir'' [ex_main] (ex_repo ex_c2 ex_log_entries [])))) = Inr l' \<and>
    prefix (log_entries l) (log_entries l')"
proof -
  from history_append_only [OF ex_repo_works ex_holds_ledger ex_branch_moves ex_log_run]
  show ?thesis by (metis fst_conv)
qed

text \<open>
  C5: The repository implements the ledger of \<open>Ledger\<close>. However many processes run, with log keys of
  either kind, and however their reads, writes and ref updates interleave with each other and with git
  activity that leaves \<^verbatim>\<open>refs/ratchet/log\<close> alone, from one state to a later one the ledger takes
  steps of its own only: entries recorded at the end, or everything recorded witnessed; no
  entry of a run that lost the race is kept, none of one that won is lost.
\<close>

theorem repository_refines_ledger:
  assumes "repo_works D dir db graph refs repr" "holds_ledger D db w L" "history D dir db ((\<lambda>_. Idle), w) (ps, w')"
  shows "\<exists>L'. holds_ledger D db w' L' \<and> ledger_step\<^sup>*\<^sup>* L L'"
  by (rule history_holds [OF assms]) (auto simp: system_holds_def)

text \<open>One process has read the log; another one records and publishes in the meantime.\<close>

definition ex_reading :: "string \<Rightarrow> ex_world \<Rightarrow> nat \<Rightarrow> process" where
  "ex_reading dir w = (\<lambda>_. Idle)(1 := (case fst (log_reads ex_deps dir [ex_main] w) of
     Inr (Inr (l, cp, msg, k)) \<Rightarrow> Saving l cp msg | _ \<Rightarrow> Idle))"

lemma ex_start_size: "repo_log (d_tessera ex_deps) (ex_db (ex_start ex_c1)) es cp head \<Longrightarrow> length es + length [ex_main] < 2 ^ 63"
  using repo_log_unique [OF ex_env _ ex_start_state(1), of ex_c1 es cp head] by simp

lemma ex_start_ledger: "holds_ledger ex_deps ex_db (ex_start ex_c1) \<lparr>recorded = [], covered = 0\<rparr>"
  by (rule holds_ledger_empty) (simp add: ex_db_def ex_start_def LogRef_def ex_main_def)

lemma ex_race: "history ex_deps dir ex_db ((\<lambda>_. Idle), ex_start ex_c1)
    (ex_reading dir (ex_start ex_c1), snd (logRefs ex_deps dir [ex_main] (ex_start ex_c1)))"
proof -
  let ?w = "ex_start ex_c1"
  have "log_reads ex_deps dir [ex_main] ?w = (fst (log_reads ex_deps dir [ex_main] ?w), ?w)"
    using log_reads_pure [OF ex_env ex_start_state(1), where rs = "[ex_main]" and dir = dir] by (metis pure_at_result prod.collapse)
  then have "repo_step ex_deps dir ex_db ((\<lambda>_. Idle), ?w) (ex_reading dir ?w, ?w)"
    unfolding ex_reading_def by (intro starts_log) (simp, assumption, rule ex_start_size)
  moreover have "history ex_deps dir ex_db (ex_reading dir ?w, ?w) (ex_reading dir ?w, snd (logRefs ex_deps dir [ex_main] ?w))"
    by (rule log_run_history [where p = 0, OF _ prod.collapse [symmetric] ex_start_size]) (simp add: ex_reading_def)
  ultimately show ?thesis by (rule converse_rtranclp_into_rtranclp)
qed

theorem repository_refines_ledger_witness:
  "\<exists>L'. holds_ledger ex_deps ex_db (snd (logRefs ex_deps ''dir'' [ex_main] (ex_start ex_c1))) L' \<and>
     ledger_step\<^sup>*\<^sup>* \<lparr>recorded = [], covered = 0\<rparr> L'"
proof -
  have "holds_ledger ex_deps ex_db (ex_start ex_c1) \<lparr>recorded = [], covered = 0\<rparr>" by (rule ex_start_ledger)
  from repository_refines_ledger [OF ex_repo_works this ex_race] show ?thesis .
qed

text \<open>
  C3: What was verified is never rewritten. If a ref verifies in a reader's log, and verifies
  again for any reader later in a history (runs of any number of processes, with Ed25519 or ML-DSA-44 log
  keys, and git activity that leaves \<^verbatim>\<open>refs/ratchet/log\<close> alone), then a tag is still the same object, and a branch has
  moved only forward: both what it was and what it is lie in the history of the last object
  recorded for it, and the records the first reader saw are a prefix of what the second sees.
\<close>

theorem verified_never_rewritten:
  assumes works: "repo_works D dir db graph refs repr" and start: "holds_ledger D db w0 L0"
    and runs: "history D dir db ((\<lambda>_. Idle), w0) (ps, w)" "history D dir db (ps, w) (ps', w')"
    and r: "checkpointedLog D dir pol w = (Inr t, v)" "checkpointedLog D dir pol' w' = (Inr t', v')"
    and ok: "verifySingleRef (d_os D) dir x t w = (Inr (), u)" "verifySingleRef (d_os D) dir x t' w' = (Inr (), u')"
  shows "\<exists>k rs rs' h h'. ParseRefKind x = Inr k \<and> RefRecords t x = Inr rs \<and> RefRecords t' x = Inr rs' \<and>
    prefix rs rs' \<and> refs w x = Some h \<and> refs w' x = Some h' \<and>
    (case k of RefTag \<Rightarrow> h' = h
     | RefBranch \<Rightarrow> is_ancestor (graph w') h (rr_Object (last rs')) \<and> is_ancestor (graph w') h' (rr_Object (last rs')))"
proof -
  note c = repo_envD(2,3) [OF repo_worksD(1) [OF works]]
  obtain L where h: "system_holds D dir db graph (ps, w) L" by (rule history_holds [OF works start runs(1)])
  have rp: "prefix (log_entries t) (log_entries t')" "grows (db w) (db w')"
    using readers_prefix [OF works h runs(2) r] by simp_all
  obtain k rs a where 1: "ParseRefKind x = Inr k" "RefRecords t x = Inr rs" "rs \<noteq> []" "refs w x = Some a"
    "case k of RefTag \<Rightarrow> a = rr_Object (last rs) | RefBranch \<Rightarrow> is_ancestor (graph w) a (rr_Object (last rs))"
    using ok(1) verifySingleRef_iff [OF c] unfolding ref_verified_def by blast
  obtain rs' b where 2: "RefRecords t' x = Inr rs'" "ratchet_ok (graph w') k (objects rs')" "refs w' x = Some b"
    "case k of RefTag \<Rightarrow> b = rr_Object (last rs') | RefBranch \<Rightarrow> is_ancestor (graph w') b (rr_Object (last rs'))"
    using ok(2) 1(1) verifySingleRef_iff [OF c] unfolding ref_verified_def by fastforce
  have p: "prefix rs rs'"
    using rp(1) RefRecords_prefix 1(2) 2(1) by blast
  have sub: "subgraph (graph w) (graph w')" using rp(2) repo_worksD(2) [OF works] unfolding graph_view_def by blast
  have "case k of RefTag \<Rightarrow> b = a
     | RefBranch \<Rightarrow> is_ancestor (graph w') a (rr_Object (last rs')) \<and> is_ancestor (graph w') b (rr_Object (last rs'))"
  proof (cases k)
    case RefTag
    with 1(5) 2(4) tag_records_same [OF 2(2) [unfolded RefTag] p 1(3)] show ?thesis by simp
  next
    case RefBranch
    then have "is_ancestor (graph w') a (rr_Object (last rs))" using 1(5) is_ancestor_subgraph [OF sub] by simp
    with RefBranch 2(4) records_advance [OF 2(2) [unfolded RefBranch] p 1(3)] show ?thesis
      by (auto intro: is_ancestor_trans)
  qed
  with 1 2 p show ?thesis by blast
qed

text \<open>After a run of \<^verbatim>\<open>log\<close> and \<^verbatim>\<open>checkpoint\<close>, another branch is created; the first verifies again.\<close>

definition ex_branched :: "ex_world \<Rightarrow> ex_world" where
  "ex_branched w = w\<lparr>x_refs := (''refs/heads/other'', ex_c2) # x_refs w\<rparr>"

lemma ex_branched_db:
  "grows (ex_db w) (ex_db (ex_branched w))" "g_refs (ex_db (ex_branched w)) LogRef = g_refs (ex_db w) LogRef"
  "ex_graph (ex_branched w) = ex_graph w" "ex_refs (ex_branched w) ex_main = ex_refs w ex_main"
  by (simp_all add: ex_branched_def ex_db_def grows_def ex_graph_def ex_refs_def LogRef_def ex_main_def)

lemma ex_two_reads:
  obtains w t where "history ex_deps dir ex_db ((\<lambda>_. Idle), ex_start ex_c1) ((\<lambda>_. Idle), w)"
    "checkpointedLog ex_deps dir ex_policy w = (Inr t, w)"
    "verifySingleRef (d_os ex_deps) dir ex_main t w = (Inr (), w)"
    "checkpointedLog ex_deps dir ex_policy (ex_branched w) = (Inr t, ex_branched w)"
    "verifySingleRef (d_os ex_deps) dir ex_main t (ex_branched w) = (Inr (), ex_branched w)"
proof -
  obtain summary w1 n k w2 es' cp' c where
    r1: "logRefs ex_deps dir [ex_main] (ex_start ex_c1) = (Inr summary, w1)" and
    r2: "checkpointLog ex_deps [0] dir ''log'' ex_mldsa_origin ex_policy w1 = (Inr (n, k), w2)" and
    l: "repo_log (d_tessera ex_deps) (ex_db w2) es' cp' c" and sat: "pol_Satisfied ex_policy cp'" and
    rd: "\<forall>pol'. pol_Verify pol' cp' = Inr () \<longrightarrow> checkpointedLog ex_deps dir pol' w2 = (Inr (the_log dir es' cp' c), w2)" and
    v: "\<forall>x\<in>set [ex_main]. verifySingleRef (d_os ex_deps) dir x (the_log dir es' cp' c) w2 = (Inr (), w2)"
    using log_then_checkpoint [OF ex_run_facts, where sched = "[0]" and dir = dir] by blast
  let ?t = "the_log dir es' cp' c" and ?b = "ex_branched w2" and ?i = "\<lambda>_::nat. Idle"
  have "history ex_deps dir ex_db (?i, ex_start ex_c1) (?i, w1)"
    by (rule log_run_history [OF refl r1 ex_start_size])
  also have "history ex_deps dir ex_db (?i, w1) (?i, w2)"
    by (rule checkpoint_run_history [OF refl r2 ex_checkpoint_libs(1)])
  finally have h: "history ex_deps dir ex_db (?i, ex_start ex_c1) (?i, w2)" .
  have c2: "checkpointedLog ex_deps dir ex_policy w2 = (Inr ?t, w2)" using rd ex_policy_accepts [OF sat] by blast
  have "repo_log (d_tessera ex_deps) (ex_db ?b) es' cp' c" by (rule repo_log_grows [OF l ex_branched_db(1,2)])
  then have c3: "checkpointedLog ex_deps dir ex_policy ?b = (Inr ?t, ?b)"
    using c2 unfolding checkpointedLog_Inr_iff [OF ex_env l] by (subst checkpointedLog_Inr_iff [OF ex_env]) auto
  have v2: "verifySingleRef (d_os ex_deps) dir ex_main ?t w2 = (Inr (), w2)" using v by simp
  then have "verifySingleRef (d_os ex_deps) dir ex_main ?t ?b = (Inr (), ?b)"
    unfolding verifySingleRef_iff [OF repo_envD(2,3) [OF ex_env]] ref_verified_def ex_branched_db by simp
  from that [OF h c2 v2 c3 this] show ?thesis .
qed

theorem verified_never_rewritten_witness:
  "\<exists>w t. checkpointedLog ex_deps ''dir'' ex_policy w = (Inr t, w) \<and>
     (\<exists>k rs rs' h h'. ParseRefKind ex_main = Inr k \<and> RefRecords t ex_main = Inr rs \<and> RefRecords t ex_main = Inr rs' \<and>
        prefix rs rs' \<and> ex_refs w ex_main = Some h \<and> ex_refs (ex_branched w) ex_main = Some h' \<and>
        (case k of RefTag \<Rightarrow> h' = h
         | RefBranch \<Rightarrow> is_ancestor (ex_graph (ex_branched w)) h (rr_Object (last rs')) \<and>
             is_ancestor (ex_graph (ex_branched w)) h' (rr_Object (last rs'))))"
proof -
  obtain w t where s: "history ex_deps ''dir'' ex_db ((\<lambda>_. Idle), ex_start ex_c1) ((\<lambda>_. Idle), w)"
    and r: "checkpointedLog ex_deps ''dir'' ex_policy w = (Inr t, w)"
    "verifySingleRef (d_os ex_deps) ''dir'' ex_main t w = (Inr (), w)"
    "checkpointedLog ex_deps ''dir'' ex_policy (ex_branched w) = (Inr t, ex_branched w)"
    "verifySingleRef (d_os ex_deps) ''dir'' ex_main t (ex_branched w) = (Inr (), ex_branched w)"
    by (rule ex_two_reads)
  have "repo_step ex_deps ''dir'' ex_db ((\<lambda>_. Idle), w) ((\<lambda>_. Idle), ex_branched w)"
    by (rule git_activity) (rule ex_branched_db)+
  then have b: "history ex_deps ''dir'' ex_db ((\<lambda>_. Idle), w) ((\<lambda>_. Idle), ex_branched w)" by blast
  have "holds_ledger ex_deps ex_db (ex_start ex_c1) \<lparr>recorded = [], covered = 0\<rparr>" by (rule ex_start_ledger)
  from verified_never_rewritten [OF ex_repo_works this s b r(1,3,2,4)] r(1)
  show ?thesis by blast
qed

text \<open>
  C9: What a failing \<^verbatim>\<open>git ls-tree\<close> does. \<^verbatim>\<open>readEntries\<close> takes any error of it for an empty tree, so if it fails
  once, while the rest of git works, \<^verbatim>\<open>log\<close> takes the log for empty and succeeds: the log ref moves on to a
  commit that holds the refs' new records and none of the entries before. A reader whose git works refuses
  that log as long as the stored checkpoint covers more entries than it has.
\<close>

theorem unlisted_log_replaced:
  assumes "git_objects (d_os D) dir db" "map_order_contract (d_os D)" "layout_contract (d_tessera D)"
    and "log_files_contract (d_os D) dir db" "ancestry_contract (d_os D) dir graph" "rev_parse_contract (d_os D) dir refs"
    and "repo_log (d_tessera D) (db w) es cp head" "head \<noteq> []"
    and "list_bundles (d_os D) dir w = (Inl e, w)" "length rs < 2 ^ 63" "rs \<noteq> []"
    and "logRefs D dir rs w = (Inr out, w')"
    and later: "repo_env D' dir db graph refs" "d_tessera D' = d_tessera D"
      "hasher_contract (d_merkle D')" "range_contract (d_merkle D') repr"
  shows "\<exists>new c. repo_log (d_tessera D) (db w') new cp c \<and> new \<noteq> [] \<and> records_of_refs (refs w) rs new \<and>
    (\<exists>pend. out = Logged (length new) (of_nat (length new)) pend) \<and>
    (\<forall>m. storedSize (d_log D') (the_log dir new cp c) = Inr m \<longrightarrow> length new < unat m \<longrightarrow>
       (\<exists>e. checkpointedLog D' dir pol w' = (Inl e, w')))"
proof -
  obtain new c where n: "new \<noteq> []" "repo_log (d_tessera D) (db w') new cp c" "records_of_refs (refs w) rs new"
    "\<exists>pend. out = Logged (length new) (of_nat (length new)) pend"
    by (rule logRefs_unlisted [OF assms(1-12)])
  moreover have "repo_log (d_tessera D') (db w') new cp c" using n(2) later(2) by simp
  note short_log_refused [OF later(1,3,4) this]
  ultimately show ?thesis by blast
qed

text \<open>A log of two entries, and a run of \<^verbatim>\<open>log\<close> after which there is one.\<close>

definition ex_unlisted :: "(ex_world, string list, uint64 \<times> uint64) deps" where
  "ex_unlisted = ex_deps\<lparr>d_os := unlisting ex_os\<rparr>"

lemma ex_unlisted_deps:
  "git_objects (d_os ex_unlisted) dir ex_db" "map_order_contract (d_os ex_unlisted)" "layout_contract (d_tessera ex_unlisted)"
  "log_files_contract (d_os ex_unlisted) dir ex_db" "ancestry_contract (d_os ex_unlisted) dir ex_graph"
  "rev_parse_contract (d_os ex_unlisted) dir ex_refs"
  "git_works (d_os ex_unlisted) dir (d_tessera ex_unlisted) ex_db ex_sound"
  using unlisting_objects [OF ex_objects_ok] unlisting_files [OF ex_log_files] unlisting_ancestry [OF ex_ancestry]
    unlisting_rev_parse [OF ex_rev_parse_ok] unlisting_works [OF ex_works] ex_map_order repo_envD(5) [OF ex_env]
  by (simp_all add: ex_unlisted_def map_order_contract_def)

lemma ex_unlisted_log:
  "repo_log (d_tessera ex_unlisted) (ex_db (ex_repo h ex_log_entries cp)) ex_log_entries cp ''c3''"
  using ex_repo_env by (simp add: ex_unlisted_def)

lemma decimal_large:
  assumes "n \<ge> 4"
  shows "decimal n \<noteq> ''0''" "decimal n \<noteq> ''1''" "decimal n \<noteq> ''2''" "decimal n \<noteq> ''3''"
  using dec_val_decimal [of n] assms by auto

lemma ex_sound_repo: "ex_sound (ex_repo ex_c1 es cp)"
proof -
  have c: "CHR ''c'' # z \<noteq> ex_c1" "CHR ''c'' # z \<noteq> ex_c2" for z
    by (simp_all add: ex_c1_def ex_c2_def numeral_eq_Suc)
  then have "ex_c1 \<noteq> CHR ''c'' # z" "ex_c2 \<noteq> CHR ''c'' # z" for z by metis+
  with c show ?thesis using decimal_large by (simp add: ex_sound_def ex_repo_def)
qed

lemma ex_unlisted_runs:
  "succeeds ex_sound (logRefs ex_unlisted dir [ex_main]) (ex_repo ex_c1 ex_log_entries [])"
proof (rule logRefs_opened_succeeds [OF ex_unlisted_deps(7,5,6,1-3) ex_unlisted_log])
  show "Open (d_os ex_unlisted) (d_tessera ex_unlisted) dir (ex_repo ex_c1 ex_log_entries [])
      = (Inr (the_log dir [] [] ''c3''), ex_repo ex_c1 ex_log_entries [])"
    by (rule Open_unlisted [OF ex_unlisted_deps(4) ex_unlisted_log]) (simp_all add: ex_unlisted_def unlisting_fails)
next
  show "ex_sound (ex_repo ex_c1 ex_log_entries [])" by (rule ex_sound_repo)
  show "storedSize (d_log ex_unlisted) (the_log dir [] [] ''c3'') = Inr 0" by (simp add: storedSize_def)
  show "chains_ok (ex_graph (ex_repo ex_c1 ex_log_entries [])) (the_log dir [] [] ''c3'')" by (simp add: chains_ok_def)
  show "\<forall>x\<in>set [ex_main]. recordable (ex_graph (ex_repo ex_c1 ex_log_entries []))
      (ex_refs (ex_repo ex_c1 ex_log_entries [])) (the_log dir [] [] ''c3'') x"
    using ex_record_ok [OF ex_object(1)] ex_refs_repo [OF ex_commit_id(1)]
    by (simp add: recordable_def ex_main_kind RefRecords_Inr_iff ex_record_def) (simp add: ex_main_def)
qed simp_all

lemma ex_head: "''c3'' \<noteq> []" and ex_refs_size: "length [ex_main] < 2 ^ 63" "[ex_main] \<noteq> []"
  by simp_all

theorem unlisted_log_replaced_witness:
  "\<exists>new c. repo_log ex_tessera (ex_db (snd (logRefs ex_unlisted ''dir'' [ex_main] (ex_repo ex_c1 ex_log_entries [])))) new [] c \<and>
     records_of_refs (ex_refs (ex_repo ex_c1 ex_log_entries [])) [ex_main] new"
proof -
  let ?w = "ex_repo ex_c1 ex_log_entries []"
  obtain out w' where r: "logRefs ex_unlisted ''dir'' [ex_main] ?w = (Inr out, w')"
    by (rule succeedsE [OF ex_unlisted_runs])
  have f: "list_bundles (d_os ex_unlisted) ''dir'' ?w
      = (Inl (exit_message [''ls-tree'', ''-r'', ''--name-only'', LogRef, entriesPrefix] 128 []), ?w)"
    by (simp add: ex_unlisted_def unlisting_fails)
  have t: "d_tessera ex_deps = d_tessera ex_unlisted" by (simp add: ex_unlisted_def)
  have "\<exists>new c. repo_log (d_tessera ex_unlisted) (ex_db w') new [] c \<and>
      records_of_refs (ex_refs ?w) [ex_main] new"
    using unlisted_log_replaced [OF ex_unlisted_deps(1-6) ex_unlisted_log ex_head f ex_refs_size r ex_env t
        ex_checkpoint_libs(2,3), of ex_policy] by blast
  moreover have "d_tessera ex_unlisted = ex_tessera" by (simp add: ex_unlisted_def)
  ultimately show ?thesis by (simp only: r snd_conv)
qed

end
