(* ===== verification/Torn_Reads.thy ===== *)
theory Torn_Reads
  imports Repo_History
begin

section \<open>Reading while others write\<close>

text \<open>
  \<^verbatim>\<open>Open\<close> reads the log with one run of git after another: the head, the checkpoint, the list of the
  bundles, each bundle. The other processes go on in between, so what it returns may come from
  several states. Here \<open>act\<close> is what they do before each run of git: any history in the sense of \<open>repo_step\<close>.
\<close>

definition interleaved :: "('w system \<Rightarrow> 'w system) \<Rightarrow> 'w os \<Rightarrow> 'w system os" where
  "interleaved act os =
     \<lparr>exec_command = (\<lambda>name argv env inp s.
        case exec_command os name argv env inp (snd (act s)) of (r, w) \<Rightarrow> (r, (fst (act s), w))),
      Environ = Environ os,
      MkdirTemp = (\<lambda>a b s. case MkdirTemp os a b (snd s) of (r, w) \<Rightarrow> (r, (fst s, w))),
      RemoveAll = (\<lambda>d s. (fst s, RemoveAll os d (snd s))),
      filepath_Join = filepath_Join os, map_keys_order = map_keys_order os\<rparr>"

text \<open>A file that the tree of the log does not have cannot be read.\<close>

definition log_missing_contract :: "'w os \<Rightarrow> string \<Rightarrow> ('w \<Rightarrow> git_db) \<Rightarrow> bool" where
  "log_missing_contract os dir db \<longleftrightarrow>
     (\<forall>w m path. log_tree (db w) = Some m \<longrightarrow> m path = None \<longrightarrow> (\<exists>code out err. code \<noteq> 0 \<and>
        git_at os dir [''cat-file'', ''-p'', LogRef @ '':'' @ path] None None w = (Exited code out err, w)))"

subsection \<open>One query\<close>

lemma Run_interleaved:
  "Run (interleaved act os) c args s =
     (fst (Run os c args (snd (act s))), (fst (act s), snd (Run os c args (snd (act s)))))"
  by (simp add: Run_def Let_def interleaved_def split: prod.split exec_result.split)

lemma Run_interleaved_query:
  assumes "Run os c args (snd (act s)) = (r, snd (act s))"
  shows "Run (interleaved act os) c args s = (r, act s)"
  unfolding Run_interleaved assms by simp

lemma CatFile_interleaved:
  "CatFile os dir obj (snd (act s)) = (r, snd (act s)) \<Longrightarrow> CatFile (interleaved act os) dir obj s = (r, act s)"
  unfolding CatFile_def by (rule Run_interleaved_query [where act = act and s = s])

lemma RefExists_interleaved:
  assumes "log_files_contract os dir db"
  shows "RefExists (interleaved act os) dir LogRef s = (Inr (g_refs (db (snd (act s))) LogRef \<noteq> None), act s)"
proof -
  let ?w = "snd (act s)"
  obtain code out err where g: "git_at os dir [''rev-parse'', ''--verify'', ''--quiet'', LogRef] None None ?w = (Exited code out err, ?w)"
    "code = 0 \<longleftrightarrow> g_refs (db ?w) LogRef \<noteq> None" using log_files(1) [OF assms] by blast
  have "Run os (Git dir) [''rev-parse'', ''--verify'', ''--quiet'', LogRef] ?w
      = ((if code = 0 then Inr out else Inl (exit_message [''rev-parse'', ''--verify'', ''--quiet'', LogRef] code err)), ?w)"
    by (simp add: Run_git_at g(1))
  from Run_interleaved_query [where act = act and s = s, OF this] g(2) show ?thesis by (auto simp: RefExists_def etry_def)
qed

lemma ResolveRef_interleaved:
  assumes "log_files_contract os dir db" "g_refs (db (snd (act s))) LogRef = Some c" "object_id c"
  shows "ResolveRef (interleaved act os) dir LogRef s = (Inr c, act s)"
proof -
  obtain err where g: "git_at os dir [''rev-parse'', LogRef] None None (snd (act s)) = (Exited 0 (c @ [nl]) err, snd (act s))"
    using log_files(2) [OF assms] by blast
  have "Run os (Git dir) [''rev-parse'', LogRef] (snd (act s)) = (Inr (c @ [nl]), snd (act s))"
    by (simp add: Run_git_at g)
  from Run_interleaved_query [where act = act and s = s, OF this] assms(3) show ?thesis
    by (simp add: ResolveRef_def ebind_def ewrap_def TrimSpace_newline object_id_def)
qed

subsection \<open>Paths of bundles\<close>

text \<open>The path of a bundle tells how many entries it holds, so a later log has it only if it has the same bundle.\<close>

lemma slice_length: "i < nbundles es \<Longrightarrow> 0 < length (slice es i) \<and> length (slice es i) \<le> EntriesPerBundle"
  unfolding nbundles_iff by (simp add: slice_def EntriesPerBundle_def)

lemma EntriesPath_inject:
  assumes "layout_contract TL" "unat n < 2 ^ 55" "EntriesPath TL n p = EntriesPath TL n q"
  shows "p = q"
proof -
  obtain x y where "EntriesPath TL n p = entriesPrefix @ x" "ParseTileIndexPartial TL x = Inr (n, p)"
    "EntriesPath TL n q = entriesPrefix @ y" "ParseTileIndexPartial TL y = Inr (n, q)"
    using assms(1,2) unfolding layout_contract_def by meson
  with assms(3) show ?thesis by simp
qed

lemma bundle_path_length:
  assumes lay: "layout_contract TL" and i: "i < 2 ^ 55" "i < nbundles es" "i < nbundles fs"
    and eq: "bundle_path TL es i = bundle_path TL fs i"
  shows "length (slice es i) = length (slice fs i)"
proof -
  let ?m = "length (slice es i)" and ?n = "length (slice fs i)"
  have "unat (of_nat i :: uint64) < 2 ^ 55" using i(1) by (simp add: unat_of_nat)
  from EntriesPath_inject [OF lay this eq [unfolded bundle_path_def]]
  have p: "(if ?m < EntriesPerBundle then of_nat ?m else 0 :: 8 word) = (if ?n < EntriesPerBundle then of_nat ?n else 0)" .
  have b: "0 < ?m" "?m \<le> 256" "0 < ?n" "?n \<le> 256"
    using slice_length [OF i(2)] slice_length [OF i(3)] by (simp_all add: EntriesPerBundle_def)
  have u: "unat (of_nat k :: 8 word) = k" if "k < 256" for k using that by (simp add: unat_of_nat)
  have "unat (if ?m < EntriesPerBundle then of_nat ?m else 0 :: 8 word)
      = unat (if ?n < EntriesPerBundle then of_nat ?n else 0 :: 8 word)" using p by (simp only:)
  then show ?thesis using b u [of ?m] u [of ?n] by (auto simp: EntriesPerBundle_def split: if_splits)
qed

lemma slice_prefix:
  assumes "prefix es fs" "length (slice es i) = length (slice fs i)"
  shows "slice fs i = slice es i"
proof -
  obtain zs where fs: "fs = es @ zs" using assms(1) by (auto simp: prefix_def)
  have "take (length (slice es i)) (slice fs i) = slice es i" by (auto simp: slice_def fs min_def)
  with assms(2) show ?thesis by simp
qed

lemma saved_bundle:
  assumes lay: "layout_contract TL" and g: "go_len es" and p: "prefix es fs" and i: "i < nbundles es"
    and sv: "saved TL d fs cp (nbundles fs) blobs" and b: "map_of blobs (bundle_path TL es i) = Some b" and gf: "go_len fs"
  obtains c where "marshalBundle (slice es i) = Inr c" "g_blobs d b = Some c"
proof -
  have i55: "i < 2 ^ 55" by (rule go_len_bundles [OF g i])
  have "bundle_path TL es i \<noteq> checkpointPath"
    using bundle_path_line [OF lay i55, of es] checkpointPath_not_bundle by metis
  moreover have "bundle_path TL es i \<in> insert checkpointPath (bundle_path TL fs ` {..<nbundles fs})"
    using b sv unfolding saved_def by blast
  ultimately obtain j where j: "j < nbundles fs" "bundle_path TL es i = bundle_path TL fs j" by auto
  have "j = i" using bundle_path_inject [OF lay i55 go_len_bundles [OF gf j(1)] j(2)] by simp
  with j have s: "slice fs i = slice es i" and k: "i < nbundles fs"
    using slice_prefix [OF p bundle_path_length [OF lay i55 i, of fs]] by simp_all
  with sv obtain b' c where "map_of blobs (bundle_path TL fs i) = Some b'" "marshalBundle (slice fs i) = Inr c" "g_blobs d b' = Some c"
    unfolding saved_def by blast
  with that [of c] b s j(2) \<open>j = i\<close> show ?thesis by simp
qed

subsection \<open>Reading along\<close>

text \<open>What the reader rests on: a repository that works, and others that only do what processes do.\<close>

definition reads_along ::
    "('w, 'rng, 'nodes) deps \<Rightarrow> string \<Rightarrow> ('w \<Rightarrow> git_db) \<Rightarrow> ('w \<Rightarrow> commit_graph) \<Rightarrow> ('w \<Rightarrow> string \<rightharpoonup> string) \<Rightarrow>
     ('rng \<Rightarrow> string list \<Rightarrow> bool) \<Rightarrow> ('w system \<Rightarrow> 'w system) \<Rightarrow> bool" where
  "reads_along D dir db graph refs repr act \<longleftrightarrow>
     repo_works D dir db graph refs repr \<and> log_missing_contract (d_os D) dir db \<and> (\<forall>s. history D dir db s (act s))"

lemma reads_alongD:
  assumes "reads_along D dir db graph refs repr act"
  shows "repo_works D dir db graph refs repr" "log_missing_contract (d_os D) dir db" "history D dir db s (act s)"
    "repo_env D dir db graph refs"
  using assms repo_worksD(1) unfolding reads_along_def by blast+

text \<open>A state whose log is known.\<close>

definition log_here ::
    "('w, 'rng, 'nodes) deps \<Rightarrow> string \<Rightarrow> ('w \<Rightarrow> git_db) \<Rightarrow> ('w \<Rightarrow> commit_graph) \<Rightarrow> 'w system \<Rightarrow> entry ledger \<Rightarrow>
     string \<Rightarrow> string \<Rightarrow> bool" where
  "log_here D dir db graph s L cp head \<longleftrightarrow>
     system_holds D dir db graph s L \<and> covers D cp L \<and> repo_log (d_tessera D) (db (snd s)) (recorded L) cp head"

lemma log_hereE:
  assumes "system_holds D dir db graph s L"
  obtains cp head where "log_here D dir db graph s L cp head"
  using assms unfolding system_holds_def log_here_def by (meson holds_ledgerE)

lemma log_here_later:
  assumes works: "repo_works D dir db graph refs repr" and h: "log_here D dir db graph s L cp head" and run: "history D dir db s s'"
  obtains L' cp' head' where "log_here D dir db graph s' L' cp' head'" "ledger_le L L'" "grows (db (snd s)) (db (snd s'))"
    "head \<noteq> [] \<Longrightarrow> head' \<noteq> []"
proof -
  obtain ps w where s: "s = (ps, w)" by force
  have sh: "system_holds D dir db graph (ps, w) L" and rl: "repo_log (d_tessera D) (db w) (recorded L) cp head"
    using h by (simp_all add: log_here_def s)
  obtain L' where L': "since D dir db graph w L s' L'" "ledger_le L L'"
    by (rule history_since [OF works sh run [unfolded s]])
  then have sh': "system_holds D dir db graph s' L'" and g: "grows (db w) (db (snd s'))" and k: "log_ref_kept (db w) (db (snd s'))"
    by (simp_all add: since_def)
  obtain cp' head' where h': "log_here D dir db graph s' L' cp' head'" by (rule log_hereE [OF sh'])
  then have "repo_log (d_tessera D) (db (snd s')) (recorded L') cp' head'" by (simp add: log_here_def)
  from repo_log_head [OF this] repo_log_head [OF rl] k have "head \<noteq> [] \<Longrightarrow> head' \<noteq> []"
    by (auto simp: log_ref_kept_def split: if_splits)
  with h' L'(2) g show ?thesis by (intro that) (simp_all add: s)
qed

text \<open>Where a log with a head is, its tree.\<close>

lemma log_here_tree:
  assumes "log_here D dir db graph s L cp head" "head \<noteq> []"
  obtains blobs where "log_tree (db (snd s)) = Some (map_of blobs)" "g_refs (db (snd s)) LogRef = Some head" "object_id head"
    "saved (d_tessera D) (db (snd s)) (recorded L) cp (nbundles (recorded L)) blobs" "go_len (recorded L)"
    "\<forall>e\<in>set (recorded L). entry_ok e"
  using assms by (auto simp: log_here_def repo_log_def holds_log_def)

subsection \<open>The bundles, each in its own time\<close>

lemma read_bundle_interleaved:
  assumes r: "reads_along D dir db graph refs repr act" and h: "log_here D dir db graph s L cp head" "head \<noteq> []"
    and p: "prefix es (recorded L)" and g: "go_len es" and ok: "\<forall>e\<in>set es. entry_ok e"
    and i: "i < nbundles es" "map_of bundles (of_nat i) = Some (bundle_path (d_tessera D) es i)"
    and x: "read_bundle (interleaved act (d_os D)) (d_tessera D) dir bundles i s = (Inr xs, s')"
  shows "s' = act s \<and> xs = slice es i"
proof -
  note env = reads_alongD(4) [OF r] and lay = repo_envD(5) [OF reads_alongD(4) [OF r]]
  let ?path = "bundle_path (d_tessera D) es i" and ?w = "snd (act s)"
  obtain L1 cp1 head1 where h1: "log_here D dir db graph (act s) L1 cp1 head1" and le: "ledger_le L L1" and ne: "head1 \<noteq> []"
    by (rule log_here_later [OF reads_alongD(1) [OF r] h(1) reads_alongD(3) [OF r, of s]]) (use h(2) in blast)
  obtain blobs where t: "log_tree (db ?w) = Some (map_of blobs)"
    and sv: "saved (d_tessera D) (db ?w) (recorded L1) cp1 (nbundles (recorded L1)) blobs" and g1: "go_len (recorded L1)"
    by (rule log_here_tree [OF h1 ne])
  have p1: "prefix es (recorded L1)" using p le by (auto simp: ledger_le_def)
  show ?thesis
  proof (cases "map_of blobs ?path")
    case None
    obtain code out err where "code \<noteq> 0"
      "git_at (d_os D) dir [''cat-file'', ''-p'', LogRef @ '':'' @ ?path] None None ?w = (Exited code out err, ?w)"
      using reads_alongD(2) [OF r] t None unfolding log_missing_contract_def by blast
    then have "CatFile (d_os D) dir (LogRef @ '':'' @ ?path) ?w
        = (Inl (exit_message [''cat-file'', ''-p'', LogRef @ '':'' @ ?path] code err), ?w)"
      by (simp add: CatFile_def Run_git_at)
    from CatFile_interleaved [where act = act and s = s, OF this] x have False
      unfolding read_bundle_def i(2) by (simp add: ebind_def ewrap_def)
    then show ?thesis ..
  next
    case (Some b)
    obtain c where c: "marshalBundle (slice es i) = Inr c" "g_blobs (db ?w) b = Some c"
      by (rule saved_bundle [OF lay g p1 i(1) sv Some g1])
    have "CatFile (d_os D) dir (LogRef @ '':'' @ ?path) ?w = (Inr c, ?w)"
      by (rule CatFile_log [OF repo_envD(7) [OF env] t Some c(2)])
    note cat = CatFile_interleaved [where act = act and s = s, OF this]
    have u: "EntryBundle_UnmarshalText (d_tessera D) c = Inr (map entry_raw (slice es i))"
      by (rule marshalBundle_roundtrip [OF repo_envD(6) [OF env] c(1)])
    have "res_map ParseEntry (map entry_raw (slice es i)) = Inr (slice es i)"
      by (rule ParseEntry_raws) (use slice_ok [OF ok] in blast)
    with x cat u show ?thesis unfolding read_bundle_def i(2) by (simp add: ebind_def ewrap_def)
  qed
qed

lemma read_bundles_interleaved:
  assumes r: "reads_along D dir db graph refs repr act" and g: "go_len es" and ok: "\<forall>e\<in>set es. entry_ok e"
    and b: "\<forall>i<nbundles es. map_of bundles (of_nat i) = Some (bundle_path (d_tessera D) es i)"
  shows "log_here D dir db graph s L cp head \<Longrightarrow> head \<noteq> [] \<Longrightarrow> prefix es (recorded L) \<Longrightarrow> set is' \<subseteq> {..<nbundles es} \<Longrightarrow>
    emap (read_bundle (interleaved act (d_os D)) (d_tessera D) dir bundles) is' s = (Inr xss, s') \<Longrightarrow>
    xss = map (slice es) is' \<and> history D dir db s s'"
proof (induction is' arbitrary: s L cp head xss)
  case Nil
  then show ?case by simp
next
  case (Cons i is')
  then obtain xs s1 yss where x: "read_bundle (interleaved act (d_os D)) (d_tessera D) dir bundles i s = (Inr xs, s1)"
    and ys: "emap (read_bundle (interleaved act (d_os D)) (d_tessera D) dir bundles) is' s1 = (Inr yss, s')"
    and xss: "xss = xs # yss" by (auto simp: ebind_Inr_iff)
  have i: "i < nbundles es" using Cons.prems(4) by simp
  have 1: "s1 = act s" "xs = slice es i"
    using read_bundle_interleaved [OF r Cons.prems(1-3) g ok i b [rule_format, OF i] x] by blast+
  have h1: "history D dir db s s1" unfolding 1(1) by (rule reads_alongD(3) [OF r])
  obtain L1 cp1 head1 where "log_here D dir db graph s1 L1 cp1 head1" "ledger_le L L1" "head1 \<noteq> []"
    by (rule log_here_later [OF reads_alongD(1) [OF r] Cons.prems(1) h1]) (use Cons.prems(2) in blast)
  moreover from this Cons.prems(3) have "prefix es (recorded L1)" by (auto simp: ledger_le_def)
  ultimately have "yss = map (slice es) is' \<and> history D dir db s1 s'"
    using Cons.IH [OF _ _ _ _ ys] Cons.prems(4) by simp
  with 1 h1 xss show ?case by auto
qed

lemma readEntries_interleaved:
  assumes r: "reads_along D dir db graph refs repr act" and h: "log_here D dir db graph s L cp head" "head \<noteq> []"
    and x: "readEntries (interleaved act (d_os D)) (d_tessera D) dir s = (Inr es, s')"
  obtains L1 cp1 head1 where "log_here D dir db graph (act s) L1 cp1 head1" "ledger_le L L1" "es = recorded L1"
    "history D dir db (act s) s'"
proof -
  note env = reads_alongD(4) [OF r]
  let ?w = "snd (act s)" and ?os = "interleaved act (d_os D)"
  obtain L1 cp1 head1 where h1: "log_here D dir db graph (act s) L1 cp1 head1" and le: "ledger_le L L1" and ne: "head1 \<noteq> []"
    by (rule log_here_later [OF reads_alongD(1) [OF r] h(1) reads_alongD(3) [OF r, of s]]) (use h(2) in blast)
  obtain blobs where t: "log_tree (db ?w) = Some (map_of blobs)"
    and sv: "saved (d_tessera D) (db ?w) (recorded L1) cp1 (nbundles (recorded L1)) blobs" and g: "go_len (recorded L1)"
    and ok: "\<forall>e\<in>set (recorded L1). entry_ok e"
    by (rule log_here_tree [OF h1 ne])
  from repo_envD(8) [OF env, unfolded log_listing_contract_def, rule_format, OF t] obtain ps err where
    ls: "git_at (d_os D) dir [''ls-tree'', ''-r'', ''--name-only'', LogRef, entriesPrefix] None None ?w
          = (Exited 0 (concat (map (\<lambda>p. p @ [nl]) ps)) err, ?w)"
    and ps: "distinct ps" "set ps = {p. map_of blobs p \<noteq> None \<and> prefix entriesPrefix p}" by blast
  obtain out where c: "collect_bundles (d_tessera D) [] (Split (TrimSpace (concat (map (\<lambda>p. p @ [nl]) ps))) nl) = Inr out"
    and out: "length out = nbundles (recorded L1)"
      "\<forall>i<nbundles (recorded L1). map_of out (of_nat i) = Some (bundle_path (d_tessera D) (recorded L1) i)"
    by (rule listed_bundles [OF repo_envD(5) [OF env] g sv ps])
  have "Run (d_os D) (Git dir) [''ls-tree'', ''-r'', ''--name-only'', LogRef, entriesPrefix] ?w
      = (Inr (concat (map (\<lambda>p. p @ [nl]) ps)), ?w)" using ls by (simp add: Run_git_at)
  note q = Run_interleaved_query [where act = act and s = s, OF this]
  from x obtain xss where e: "emap (read_bundle ?os (d_tessera D) dir out) [0..<length out] (act s) = (Inr xss, s')"
    and es: "es = concat xss"
    by (auto simp: readEntries_def etry_def q c ebind_Inr_iff)
  have "xss = map (slice (recorded L1)) [0..<length out] \<and> history D dir db (act s) s'"
    by (rule read_bundles_interleaved [OF r g ok out(2) h1 ne _ _ e]) (simp_all add: out(1) lessThan_atLeast0)
  then have "es = recorded L1" "history D dir db (act s) s'" by (simp_all add: es out(1) concat_slices)
  with that h1 le show ?thesis by blast
qed

subsection \<open>The log in one piece\<close>

text \<open>
  \<^verbatim>\<open>Open\<close> either finds no log, or takes the head from one state, the checkpoint from a later one, and
  the entries from a state no earlier than that.
\<close>

lemma Open_interleaved:
  assumes r: "reads_along D dir db graph refs repr act" and h: "system_holds D dir db graph s L"
    and x: "Open (interleaved act (d_os D)) (d_tessera D) dir s = (Inr l, s')"
  shows "history D dir db s s' \<and>
    (l = empty_log dir \<and> g_refs (db (snd s')) LogRef = None \<or>
     (\<exists>s1 L1 cp1 head s2 L2 cp2 head2 s3 L3 cp3 head3.
        history D dir db s s1 \<and> log_here D dir db graph s1 L1 cp1 head \<and> head \<noteq> [] \<and>
        history D dir db s1 s2 \<and> log_here D dir db graph s2 L2 cp2 head2 \<and> head2 \<noteq> [] \<and>
        history D dir db s2 s3 \<and> log_here D dir db graph s3 L3 cp3 head3 \<and> history D dir db s3 s' \<and>
        ledger_le L1 L2 \<and> ledger_le L2 L3 \<and> l = the_log dir (recorded L3) cp2 head))"
proof -
  note works = reads_alongD(1) [OF r] and env = reads_alongD(4) [OF r] and act = reads_alongD(3) [OF r]
  let ?os = "interleaved act (d_os D)" and ?s0 = "act s" and ?s1 = "act (act s)" and ?s2 = "act (act (act s))"
  note ex = RefExists_interleaved [OF repo_envD(7) [OF env], of act s]
  obtain cp00 head00 where h00: "log_here D dir db graph s L cp00 head00" by (rule log_hereE [OF h])
  obtain L0 cp0 head0 where h0: "log_here D dir db graph ?s0 L0 cp0 head0"
    by (rule log_here_later [OF works h00 act [of s]])
  have ref0: "g_refs (db (snd ?s0)) LogRef = (if head0 = [] then None else Some head0)"
    using h0 repo_log_head by (auto simp: log_here_def)
  show ?thesis
  proof (cases "head0 = []")
    case True
    with x ref0 ex have "l = empty_log dir \<and> s' = ?s0" by (simp add: Open_def Let_def ebind_def)
    with True ref0 act show ?thesis by auto
  next
    case False
    obtain L1 cp1 head where h1: "log_here D dir db graph ?s1 L1 cp1 head" and ne: "head \<noteq> []"
      by (rule log_here_later [OF works h0 act [of ?s0]]) (use False in blast)
    obtain L2 cp2 head2 where h2: "log_here D dir db graph ?s2 L2 cp2 head2" and ne2: "head2 \<noteq> []" and le12: "ledger_le L1 L2"
      by (rule log_here_later [OF works h1 act [of ?s1]]) (use ne in blast)
    obtain b1 where ref1: "g_refs (db (snd ?s1)) LogRef = Some head" "object_id head" by (rule log_here_tree [OF h1 ne])
    note rs = ResolveRef_interleaved [OF repo_envD(7) [OF env], of act ?s0 head, OF ref1]
    obtain blobs where t: "log_tree (db (snd ?s2)) = Some (map_of blobs)"
      and sv: "saved (d_tessera D) (db (snd ?s2)) (recorded L2) cp2 (nbundles (recorded L2)) blobs"
      by (rule log_here_tree [OF h2 ne2])
    from sv obtain bl where "map_of blobs checkpointPath = Some bl" "g_blobs (db (snd ?s2)) bl = Some cp2"
      by (auto simp: saved_def)
    from CatFile_log [OF repo_envD(7) [OF env] t this]
    have "CatFile (d_os D) dir (LogRef @ '':'' @ checkpointPath) (snd ?s2) = (Inr cp2, snd ?s2)" .
    note cf = CatFile_interleaved [where act = act and s = ?s1, OF this]
    from x ref0 False obtain es where e: "readEntries ?os (d_tessera D) dir ?s2 = (Inr es, s')"
      and l: "l = the_log dir es cp2 head"
      by (auto simp: Open_def Let_def ebind_Inr_iff ex ewrap_Inr rs etry_def cf [unfolded append.simps] empty_log_def the_log_def)
    obtain L3 cp3 head3 where h3: "log_here D dir db graph (act ?s2) L3 cp3 head3" and le23: "ledger_le L2 L3"
      and es: "es = recorded L3" and run: "history D dir db (act ?s2) s'"
      by (rule readEntries_interleaved [OF r h2 ne2 e])
    have "history D dir db s ?s1" using act [of s] act [of ?s0] by simp
    moreover have "history D dir db s s'" using act [of s] act [of ?s0] act [of ?s1] act [of ?s2] run by simp
    ultimately show ?thesis
      using h1 h2 h3 ne ne2 le12 le23 act [of ?s1] act [of ?s2] run unfolding l es by blast
  qed
qed

text \<open>A reader's log is what an undisturbed reader gets at one moment in between: when the checkpoint is read.\<close>

lemma checkpointedLog_interleaved:
  assumes r: "reads_along D dir db graph refs repr act" and h: "system_holds D dir db graph s L"
    and D': "d_os D' = interleaved act (d_os D)" "d_tessera D' = d_tessera D" "d_log D' = d_log D" "d_merkle D' = d_merkle D"
    and x: "checkpointedLog D' dir pol s = (Inr t, s')"
  obtains s2 t2 where "history D dir db s s2" "history D dir db s2 s'"
    "checkpointedLog D dir pol (snd s2) = (Inr t2, snd s2)" "log_entries t2 = log_entries t" "StoredCheckpoint t2 = StoredCheckpoint t"
proof -
  note env = reads_alongD(4) [OF r] and lib = repo_worksD(4,5) [OF reads_alongD(1) [OF r]]
  from x obtain l body c root where op: "Open (interleaved act (d_os D)) (d_tessera D) dir s = (Inr l, s')"
    and c: "log_checkpoint l \<noteq> []" "pol_Verify pol (log_checkpoint l) = Inr ()" "ExtractBody (log_checkpoint l) = Inr body"
      "ParseCheckpoint (d_log D) body = Inr (c, root)" "Checkpointed (d_merkle D) l c = Inr t"
    by (auto simp: checkpointedLog_def ebind_Inr_iff ewrap_Inr Let_def D' StoredCheckpoint_def split: if_splits)
  have "l \<noteq> empty_log dir" using c(1) by (auto simp: empty_log_def)
  then obtain s1 L1 cp1 head s2 L2 cp2 head2 s3 L3 cp3 head3 where
    h: "history D dir db s s1" "history D dir db s1 s2" "history D dir db s2 s3" "history D dir db s3 s'"
    and l2: "log_here D dir db graph s2 L2 cp2 head2" and l3: "log_here D dir db graph s3 L3 cp3 head3"
    and le: "ledger_le L2 L3" and l: "l = the_log dir (recorded L3) cp2 head"
    using Open_interleaved [OF r h op] by blast
  have rl2: "repo_log (d_tessera D) (db (snd s2)) (recorded L2) cp2 head2" and cov: "covers D cp2 L2"
    using l2 by (simp_all add: log_here_def)
  have g: "go_len (recorded L2)" "go_len (recorded L3)" using l2 l3 by (auto simp: log_here_def repo_log_def)
  obtain n where n: "storedSize (d_log D) (the_log dir (recorded L2) cp2 head2) = Inr n" "covered L2 = unat n" "ledger_ok L2"
    by (rule coversD [OF cov])
  have "n = cp_Size c" using n(1) c(1,3,4) by (simp add: storedSize_def l)
  then have le2: "unat (cp_Size c) \<le> length (recorded L2)" using n(2,3) by (simp add: ledger_ok_def)
  obtain zs where zs: "recorded L3 = recorded L2 @ zs" using le by (auto simp: ledger_le_def prefix_def)
  let ?es = "take (unat (cp_Size c)) (recorded L2)"
  have tk: "take (unat (cp_Size c)) (recorded L3) = ?es" using le2 by (simp add: zs)
  have t: "t = the_log dir ?es cp2 head" and root: "is_hash (cp_Hash c)"
    "cp_Hash c = tree_hash (d_merkle D) (leaf_list (d_merkle D) (log_entries t))"
    using Checkpointed_Inr_iff [OF lib _, THEN iffD1, OF _ c(5)] g(2) unfolding l the_log_simps tk by blast+
  note root = root [unfolded t the_log_simps]
  have "Checkpointed (d_merkle D) (the_log dir (recorded L2) cp2 head2) c = Inr (the_log dir ?es cp2 head2)"
    using Checkpointed_Inr_iff [OF lib, of "the_log dir (recorded L2) cp2 head2" c] g(1) le2 root by simp
  then have "checkpointedLog D dir pol (snd s2) = (Inr (the_log dir ?es cp2 head2), snd s2)"
    using checkpointedLog_Inr_iff [OF env rl2, of pol] c(1-4) by (auto simp: l)
  then show ?thesis
    using h t by (intro that [of s2 "the_log dir ?es cp2 head2"]) (auto intro: rtranclp_trans simp: StoredCheckpoint_def)
qed

text \<open>Between two states with the same log, nothing changed.\<close>

lemma ledger_le_antisym: "ledger_le L L' \<Longrightarrow> ledger_le L' L \<Longrightarrow> recorded L = recorded L' \<and> covered L = covered L'"
  by (auto simp: ledger_le_def prefix_order.antisym)

lemma log_here_order:
  assumes works: "repo_works D dir db graph refs repr" and env: "repo_env D dir db graph refs"
    and h: "log_here D dir db graph s L cp head" "log_here D dir db graph s' L' cp' head'" and run: "history D dir db s s'"
  shows "ledger_le L L' \<and> grows (db (snd s)) (db (snd s'))"
proof -
  obtain L1 cp1 head1 where h1: "log_here D dir db graph s' L1 cp1 head1" and le: "ledger_le L L1" "grows (db (snd s)) (db (snd s'))"
    by (rule log_here_later [OF works h(1) run])
  have "L1 = L'"
    using h(2) h1 by (intro holds_ledger_at [OF env]) (auto simp: log_here_def intro: holds_ledgerI)
  with le show ?thesis by simp
qed

text \<open>
  A writer may get a log that the repository never held. If the log ref is later at the head it got, as
  \<^verbatim>\<open>update-ref\<close> demands, then what it got is the log that the repository holds then.
\<close>

lemma Open_interleaved_current:
  assumes r: "reads_along D dir db graph refs repr act" and h: "system_holds D dir db graph s L"
    and x: "Open (interleaved act (d_os D)) (d_tessera D) dir s = (Inr l, s')"
    and run: "history D dir db s' u" and cas: "g_refs (db (snd u)) LogRef = (if log_head l = [] then None else Some (log_head l))"
  obtains l' where "Open (d_os D) (d_tessera D) dir (snd u) = (Inr l', snd u)"
    "log_entries l = log_entries l'" "log_head l = log_head l'" "storedSize (d_log D) l = storedSize (d_log D) l'"
proof -
  note works = reads_alongD(1) [OF r] and env = reads_alongD(4) [OF r]
  obtain cp0 head0 where h0: "log_here D dir db graph s L cp0 head0" by (rule log_hereE [OF h])
  have rs: "history D dir db s s'" using Open_interleaved [OF r h x] by blast
  obtain U cu hu where hu: "log_here D dir db graph u U cu hu"
    by (rule log_here_later [OF works h0 rtranclp_trans [OF rs run]])
  have ru: "repo_log (d_tessera D) (db (snd u)) (recorded U) cu hu" and cu: "covers D cu U"
    using hu by (simp_all add: log_here_def)
  note op = Open_repo_log [OF env ru]
  have head: "hu = log_head l"
    using repo_log_head [OF ru] cas ru by (auto simp: repo_log_def split: if_splits)
  from Open_interleaved [OF r h x] consider "l = empty_log dir"
    | s1 L1 cp1 hd1 s2 L2 cp2 hd2 s3 L3 cp3 hd3 where
      "log_here D dir db graph s1 L1 cp1 hd1" "hd1 \<noteq> []" "history D dir db s1 s2"
      "log_here D dir db graph s2 L2 cp2 hd2" "history D dir db s2 s3" "log_here D dir db graph s3 L3 cp3 hd3"
      "history D dir db s3 s'" "l = the_log dir (recorded L3) cp2 hd1"
    by blast
  then show ?thesis
  proof cases
    case 1
    then have "l = the_log dir (recorded U) cu hu" using head ru by (simp add: repo_log_def empty_log_def the_log_def)
    with op that show ?thesis by blast
  next
    case 2
    have 12: "history D dir db s1 u" "history D dir db s2 u" "history D dir db s3 u" using 2(3,5,7) run by auto
    note o12 = log_here_order [OF works env 2(1,4,3)] and o23 = log_here_order [OF works env 2(4,6,5)]
      and o1u = log_here_order [OF works env 2(1) hu 12(1)] and o3u = log_here_order [OF works env 2(6) hu 12(3)]
    have cas1: "g_refs (db (snd u)) LogRef = (if hd1 = [] then None else Some hd1)" using cas by (simp add: 2(8))
    have "log_at (d_tessera D) (db (snd u)) (recorded L1) cp1 hd1"
      using 2(1) o1u by (intro log_at_grows [OF repo_log_at]) (auto simp: log_here_def)
    then have "repo_log (d_tessera D) (db (snd u)) (recorded L1) cp1 hd1" unfolding log_at_current [OF cas1] .
    then have "L1 = U"
      using 2(1) hu by (intro holds_ledger_at [OF env]) (auto simp: log_here_def intro: holds_ledgerI)
    with o12 o23 o3u have e: "recorded L2 = recorded U \<and> covered L2 = covered U" "recorded L3 = recorded U"
      using ledger_le_antisym ledger_le_trans by metis+
    then have "L2 = U" by simp
    then have "covers D cp2 U" using 2(4) by (simp add: log_here_def)
    obtain m where m: "storedSize (d_log D) l = Inr m" "covered U = unat m"
      unfolding 2(8) by (rule coversD [OF \<open>covers D cp2 U\<close>])
    obtain n where n: "storedSize (d_log D) (the_log dir (recorded U) cu hu) = Inr n" "covered U = unat n"
      by (rule coversD [OF cu])
    have "storedSize (d_log D) l = storedSize (d_log D) (the_log dir (recorded U) cu hu)"
      using m n by (simp add: word_unat_eq_iff)
    with that [OF op] e(2) head show ?thesis by (simp add: 2(8))
  qed
qed

end
