(* ===== verification/Concurrent_Properties.thy ===== *)
theory Concurrent_Properties
  imports History_Properties Torn_Reads
begin

section \<open>Properties of reading while others write\<close>

text \<open>
  \<^verbatim>\<open>Open\<close> is not atomic: it runs git once for the head, once for the checkpoint, and once for each bundle, and
  other processes go on in between. \<open>interleaved act os\<close> is git as the reading process sees it.
\<close>

text \<open>
  C10: Readers are linearizable. Whatever runs of \<^verbatim>\<open>log\<close> and \<^verbatim>\<open>checkpoint\<close>, with Ed25519 or ML-DSA-44 log keys,
  and whatever git activity that leaves \<^verbatim>\<open>refs/ratchet/log\<close> alone come between a reader's runs of git, if it gets a log under a
  checkpoint at all, it gets the entries and the checkpoint that an undisturbed reader gets in one
  state between its start and its end.
\<close>

theorem reader_linearizable:
  assumes r: "reads_along D dir db graph refs repr act"
    and start: "holds_ledger D db w0 L0" "history D dir db ((\<lambda>_. Idle), w0) s"
    and D': "d_os D' = interleaved act (d_os D)" "d_tessera D' = d_tessera D" "d_log D' = d_log D" "d_merkle D' = d_merkle D"
    and x: "checkpointedLog D' dir pol s = (Inr t, s')"
  shows "\<exists>s2 t2. history D dir db s s2 \<and> history D dir db s2 s' \<and>
    checkpointedLog D dir pol (snd s2) = (Inr t2, snd s2) \<and>
    log_entries t2 = log_entries t \<and> StoredCheckpoint t2 = StoredCheckpoint t"
proof -
  obtain L where "system_holds D dir db graph s L" by (rule history_holds [OF reads_alongD(1) [OF r] start])
  from checkpointedLog_interleaved [OF r this D' x] show ?thesis by blast
qed

text \<open>Another process creates a branch while the log is read.\<close>

definition ex_act :: "ex_world system \<Rightarrow> ex_world system" where
  "ex_act s = (fst s, if map_of (x_refs (snd s)) ''refs/heads/other'' = None then ex_branched (snd s) else snd s)"

lemma ex_act_idem [simp]: "ex_act (ex_act s) = ex_act s"
  by (simp add: ex_act_def ex_branched_def)

lemma ex_act_history: "history ex_deps dir ex_db s (ex_act s)"
proof -
  have "repo_step ex_deps dir ex_db (fst s, snd s) (fst s, ex_branched (snd s))"
    by (rule git_activity) (rule ex_branched_db)+
  then show ?thesis by (cases s) (auto simp: ex_act_def)
qed

lemma ex_missing: "log_missing_contract ex_os dir ex_db"
  unfolding log_missing_contract_def ex_os_git ex_git_commands
proof (intro allI impI)
  fix w m path assume "log_tree (ex_db w) = Some m" "m path = None"
  then obtain t where "ex_tree w = Some t" "map_of t path = None" unfolding ex_log_tree by auto
  moreover have "CutPrefix (LogRef @ '':'' @ path) (LogRef @ '':'') = Some path"
    using CutPrefix_append [of "LogRef @ '':''" path] by simp
  ultimately show "\<exists>code out err. code \<noteq> 0 \<and> ex_cat_file (LogRef @ '':'' @ path) w = (Exited code out err, w)"
    unfolding ex_cat_file_def by (simp add: ex_outcomes)
qed

lemma ex_reads_along: "reads_along ex_deps dir ex_db ex_graph ex_refs (=) ex_act"
  using ex_repo_works ex_missing ex_act_history by (simp add: reads_along_def)

text \<open>Where nothing more happens, the reader's git is git.\<close>

definition mirrors :: "('w system, 'a) io \<Rightarrow> ('w, 'a) io \<Rightarrow> 'w system \<Rightarrow> bool" where
  "mirrors m' m s \<longleftrightarrow> m (snd s) = (fst (m (snd s)), snd s) \<and> m' s = (fst (m (snd s)), s)"

lemma mirrors_eret: "mirrors (eret x) (eret x) s"
  by (simp add: mirrors_def)

lemma mirrors_elift: "mirrors (elift x) (elift x) s"
  by (simp add: mirrors_def)

lemma mirrors_efail: "mirrors (efail e) (efail e) s"
  by (simp add: mirrors_def)

lemma mirrors_if: "mirrors m' m s \<Longrightarrow> mirrors n' n s \<Longrightarrow> mirrors (if b then m' else n') (if b then m else n) s"
  by simp

lemma mirrors_case_sum: "(\<And>x. mirrors (f' x) (f x) s) \<Longrightarrow> (\<And>x. mirrors (g' x) (g x) s) \<Longrightarrow>
    mirrors (case r of Inl x \<Rightarrow> f' x | Inr x \<Rightarrow> g' x) (case r of Inl x \<Rightarrow> f x | Inr x \<Rightarrow> g x) s"
  by (cases r) simp_all

lemma mirrors_case_option: "mirrors m' m s \<Longrightarrow> (\<And>x. mirrors (g' x) (g x) s) \<Longrightarrow>
    mirrors (case r of None \<Rightarrow> m' | Some x \<Rightarrow> g' x) (case r of None \<Rightarrow> m | Some x \<Rightarrow> g x) s"
  by (cases r) simp_all

lemma mirrors_ebind: "mirrors m' m s \<Longrightarrow> (\<And>x. mirrors (f' x) (f x) s) \<Longrightarrow> mirrors (ebind m' f') (ebind m f) s"
  by (cases "m (snd s)"; cases "fst (m (snd s))") (auto simp: mirrors_def ebind_def)

lemma mirrors_etry: "mirrors m' m s \<Longrightarrow> (\<And>x. mirrors (f' x) (f x) s) \<Longrightarrow> mirrors (etry m' f') (etry m f) s"
  by (cases "m (snd s)") (auto simp: mirrors_def etry_def)

lemma mirrors_ewrap: "mirrors m' m s \<Longrightarrow> mirrors (ewrap a b m') (ewrap a b m) s"
  by (cases "m (snd s)") (auto simp: mirrors_def ewrap_def)

lemma mirrors_emap: "(\<And>x. mirrors (f' x) (f x) s) \<Longrightarrow> mirrors (emap f' xs) (emap f xs) s"
  by (induction xs) (auto intro!: mirrors_ebind mirrors_eret)

lemma ex_queries_pure:
  "snd (ex_git (''rev-parse'' # rest) env inp w) = w"
  "snd (ex_git (''cat-file'' # rest) env inp w) = w"
  "snd (ex_git (''ls-tree'' # rest) env inp w) = w"
proof -
  have q: "snd (ex_rev_parse name w) = w" "snd (ex_cat_file name w) = w" "snd (ex_ls_tree name w) = w" for name
    by (simp_all add: ex_rev_parse_def ex_cat_file_def ex_ls_tree_def ex_outcomes split: option.split)
  show "snd (ex_git (''rev-parse'' # rest) env inp w) = w"
    by (simp add: ex_git_def q split: list.split) (simp add: ex_outcomes)
  show "snd (ex_git (''cat-file'' # rest) env inp w) = w"
    by (simp add: ex_git_def q split: list.split) (simp add: ex_outcomes)
  show "snd (ex_git (''ls-tree'' # rest) env inp w) = w"
    by (simp add: ex_git_def q split: list.split) (simp add: ex_outcomes)
qed

lemma mirrors_Run:
  assumes "act s = s" "hd args = ''rev-parse'' \<or> hd args = ''cat-file'' \<or> hd args = ''ls-tree''" "args \<noteq> []"
  shows "mirrors (Run (interleaved act ex_os) c args) (Run ex_os c args) s"
proof -
  have "snd (ex_git args env inp w) = w" for env inp w
    using assms(2,3) ex_queries_pure [of "tl args" env inp w] by (cases args) auto
  then have "snd (Run ex_os c args w) = w" for w by (simp only: snd_Run ex_os_git)
  then show ?thesis by (simp add: mirrors_def Run_interleaved assms(1) prod_eq_iff)
qed

lemmas mirrors_intros = mirrors_ebind mirrors_etry mirrors_ewrap mirrors_emap mirrors_eret mirrors_elift mirrors_efail
  mirrors_if mirrors_case_sum mirrors_case_option mirrors_Run

lemma mirrors_Open:
  assumes "act s = s"
  shows "mirrors (Open (interleaved act ex_os) TL dir) (Open ex_os TL dir) s"
  unfolding Open_def RefExists_def ResolveRef_def CatFile_def readEntries_def read_bundle_def Let_def
  by (intro mirrors_intros assms) simp_all

text \<open>So where the others do one thing and stop, the reader sees the state they leave.\<close>

lemma Open_settled:
  assumes "act (act s) = act s" "Open ex_os TL dir (snd (act s)) = (Inr l, w)"
  shows "Open (interleaved act ex_os) TL dir s = (Inr l, act s)"
proof -
  have "Run (interleaved act ex_os) c args s = Run (interleaved act ex_os) c args (act s)" for c args
    by (simp only: Run_interleaved assms(1))
  then have "RefExists (interleaved act ex_os) dir LogRef s = RefExists (interleaved act ex_os) dir LogRef (act s)"
    by (simp only: RefExists_def etry_def)
  then have "Open (interleaved act ex_os) TL dir s = Open (interleaved act ex_os) TL dir (act s)"
    unfolding Open_def Let_def ebind_def by (simp only:)
  with mirrors_Open [where act = act and s = "act s", OF assms(1), of TL dir] assms(2) show ?thesis by (simp add: mirrors_def)
qed

definition ex_beside :: "(ex_world system, string list, uint64 \<times> uint64) deps" where
  "ex_beside = \<lparr>d_os = interleaved ex_act ex_os, d_tessera = ex_tessera, d_merkle = ex_merkle, d_log = ex_log,
     d_crypto = ex_crypto, d_formats = ex_formats, d_Update = (\<lambda>u from sn pf w. (([], from, None), w))\<rparr>"

lemma ex_beside_fields:
  "d_os ex_beside = interleaved ex_act (d_os ex_deps)" "d_tessera ex_beside = d_tessera ex_deps"
  "d_log ex_beside = d_log ex_deps" "d_merkle ex_beside = d_merkle ex_deps"
  by (simp_all add: ex_beside_def)

lemma ex_beside_reads:
  assumes "checkpointedLog ex_deps dir pol (snd (ex_act s)) = (Inr t, w)"
  shows "checkpointedLog ex_beside dir pol s = (Inr t, ex_act s)"
proof -
  from assms obtain l w1 where op: "Open ex_os ex_tessera dir (snd (ex_act s)) = (Inr l, w1)"
    by (auto simp: checkpointedLog_def ebind_Inr_iff ewrap_Inr)
  from Open_settled [where act = ex_act, OF ex_act_idem op] op assms show ?thesis
    by (auto simp: checkpointedLog_def ebind_Inr_iff ewrap_Inr ex_beside_def Let_def ex_deps_def split: if_splits)
qed

theorem reader_linearizable_witness:
  "\<exists>s t (s2 :: ex_world system) t2. checkpointedLog ex_beside ''dir'' ex_policy s = (Inr t, ex_act s) \<and>
     checkpointedLog ex_deps ''dir'' ex_policy (snd s2) = (Inr t2, snd s2) \<and> log_entries t2 = log_entries t"
proof -
  obtain w t where h: "history ex_deps ''dir'' ex_db ((\<lambda>_. Idle), ex_start ex_c1) ((\<lambda>_. Idle), w)"
    and r: "checkpointedLog ex_deps ''dir'' ex_policy w = (Inr t, w)"
    "checkpointedLog ex_deps ''dir'' ex_policy (ex_branched w) = (Inr t, ex_branched w)"
    by (rule ex_two_reads)
  let ?s = "((\<lambda>_. Idle), w) :: ex_world system"
  have "snd (ex_act ?s) = w \<or> snd (ex_act ?s) = ex_branched w" by (simp add: ex_act_def)
  with r have "checkpointedLog ex_deps ''dir'' ex_policy (snd (ex_act ?s)) = (Inr t, snd (ex_act ?s))" by metis
  note x = ex_beside_reads [OF this]
  obtain s2 :: "ex_world system" and t2 where
    "checkpointedLog ex_deps ''dir'' ex_policy (snd s2) = (Inr t2, snd s2)" "log_entries t2 = log_entries t"
    using reader_linearizable [OF ex_reads_along ex_start_ledger h ex_beside_fields x] by blast
  with x show ?thesis by blast
qed

text \<open>
  C11: A torn read does no harm. While others write (any runs of \<^verbatim>\<open>log\<close> and \<^verbatim>\<open>checkpoint\<close>, with log keys of either kind,
  and git activity that leaves \<^verbatim>\<open>refs/ratchet/log\<close> alone), \<^verbatim>\<open>Open\<close> may return a log that the repository never held: a head with a later
  checkpoint and still later entries. But if the log ref is at that head at any moment after, as \<^verbatim>\<open>update-ref\<close>
  demands of a writer, then what \<^verbatim>\<open>Open\<close> returned has the entries that the repository holds at that
  moment, and a checkpoint of the same size: a writer that is let through lost nothing.
\<close>

theorem torn_read_harmless:
  assumes r: "reads_along D dir db graph refs repr act"
    and start: "holds_ledger D db w0 L0" "history D dir db ((\<lambda>_. Idle), w0) s"
    and x: "Open (interleaved act (d_os D)) (d_tessera D) dir s = (Inr l, s')"
    and run: "history D dir db s' u"
    and cas: "g_refs (db (snd u)) LogRef = (if log_head l = [] then None else Some (log_head l))"
  shows "\<exists>l'. Open (d_os D) (d_tessera D) dir (snd u) = (Inr l', snd u) \<and>
    log_entries l = log_entries l' \<and> log_head l = log_head l' \<and> storedSize (d_log D) l = storedSize (d_log D) l'"
proof -
  obtain L where "system_holds D dir db graph s L" by (rule history_holds [OF reads_alongD(1) [OF r] start])
  from Open_interleaved_current [OF r this x run cas] show ?thesis by blast
qed

theorem torn_read_harmless_witness:
  "\<exists>l l' u. fst (Open (interleaved ex_act ex_os) ex_tessera ''dir'' (\<lambda>_. Idle, ex_repo ex_c1 ex_log_entries [])) = Inr l \<and>
     Open ex_os ex_tessera ''dir'' u = (Inr l', u) \<and> log_entries l = log_entries l'"
proof -
  let ?w = "ex_repo ex_c1 ex_log_entries []"
  let ?s = "((\<lambda>_. Idle), ?w) :: ex_world system"
  have b: "snd (ex_act ?s) = ex_branched ?w" by (simp add: ex_act_def ex_repo_def LogRef_def ex_main_def)
  have l: "repo_log (d_tessera ex_deps) (ex_db (ex_branched ?w)) ex_log_entries [] ''c3''"
    by (rule repo_log_grows [OF ex_repo_env ex_branched_db(1,2)])
  from Open_repo_log [OF ex_env l, of "''dir''"]
  have "Open ex_os ex_tessera ''dir'' (snd (ex_act ?s)) = (Inr (the_log ''dir'' ex_log_entries [] ''c3''), ex_branched ?w)"
    by (simp add: b)
  note x = Open_settled [where act = ex_act, OF ex_act_idem this]
  have cas: "g_refs (ex_db (snd (ex_act ?s))) LogRef
      = (if log_head (the_log ''dir'' ex_log_entries [] ''c3'') = [] then None else Some (log_head (the_log ''dir'' ex_log_entries [] ''c3'')))"
    using repo_log_head [OF l] by (simp add: b)
  have x': "Open (interleaved ex_act (d_os ex_deps)) (d_tessera ex_deps) ''dir'' ?s
      = (Inr (the_log ''dir'' ex_log_entries [] ''c3''), ex_act ?s)" using x by simp
  from torn_read_harmless [OF ex_reads_along ex_holds_ledger rtranclp.rtrancl_refl x' rtranclp.rtrancl_refl cas]
  obtain l' where l': "Open ex_os ex_tessera ''dir'' (ex_branched ?w) = (Inr l', ex_branched ?w)"
      "log_entries (the_log ''dir'' ex_log_entries [] ''c3'') = log_entries l'" unfolding b by auto
  have "fst (Open (interleaved ex_act ex_os) ex_tessera ''dir'' ?s) = Inr (the_log ''dir'' ex_log_entries [] ''c3'')"
    by (simp add: x)
  with l' show ?thesis by blast
qed

end
