(* ===== verification/Main_Program.thy ===== *)
theory Main_Program
  imports Main_Cmd Flags
begin

section \<open>The program (\<^verbatim>\<open>main.go\<close>): from arguments to exit status\<close>

text \<open>
  The flags of the three commands and \<^verbatim>\<open>main\<close>. Finding the command to run is the \<^verbatim>\<open>subcommands\<close>
  library's, and so is making its flag set, calling \<^verbatim>\<open>SetFlags\<close>, \<^verbatim>\<open>Parse\<close> and \<^verbatim>\<open>Execute\<close> on it
  (\<open>run_command\<close>). \<^verbatim>\<open>time.ParseDuration\<close> is a parameter: it computes with floating point.
\<close>

datatype command = Clog logCmd | Ccheckpoint checkpointCmd | Cverify verifyCmd

record ('w, 'rng, 'nodes, 'resp) program =
  p_cli :: "('w, 'rng, 'nodes, 'resp) cli"
  p_ParseDuration :: "string \<Rightarrow> int res"
  p_subcommands :: "command list \<Rightarrow> (command \<Rightarrow> string list \<Rightarrow> 'w \<Rightarrow> ExitStatus \<times> 'w) \<Rightarrow> string list \<Rightarrow> 'w
                      \<Rightarrow> ExitStatus \<times> 'w"

definition logCmd_Name :: string where "logCmd_Name = ''log''"
definition checkpointCmd_Name :: string where "checkpointCmd_Name = ''checkpoint''"
definition verifyCmd_Name :: string where "verifyCmd_Name = ''verify''"

lemmas Name_defs = logCmd_Name_def checkpointCmd_Name_def verifyCmd_Name_def

fun command_Name :: "command \<Rightarrow> string" where
  "command_Name (Clog _) = logCmd_Name"
| "command_Name (Ccheckpoint _) = checkpointCmd_Name"
| "command_Name (Cverify _) = verifyCmd_Name"

subsection \<open>Flags\<close>

definition checkpointCmd_SetFlags :: "(string \<Rightarrow> int res) \<Rightarrow> checkpointCmd flag_set \<Rightarrow> checkpointCmd flag_set" where
  "checkpointCmd_SetFlags ParseDuration f =
     (let f = StringVar cc_origin_update ''origin'' [] f;
          f = StringVar cc_policyPath_update ''policy'' [] f;
          f = StringVar cc_keyPath_update ''key'' [] f;
          f = StringVar cc_kmsKey_update ''kms-key'' [] f;
          f = StringVar cc_repoDir_update ''repo'' ''.'' f;
          f = DurationVar ParseDuration cc_timeout_update ''witness-timeout'' (30 * Second) f
      in StringVar cc_githubToken_update ''github-token'' [] f)"

definition logCmd_SetFlags :: "logCmd flag_set \<Rightarrow> logCmd flag_set" where
  "logCmd_SetFlags f =
     (let f = Var (\<lambda>v c. Inr (c\<lparr>lc_refs := stringSlice_Set (lc_refs c) v\<rparr>)) ''ref'' f
      in StringVar lc_repoDir_update ''repo'' ''.'' f)"

definition verifyCmd_SetFlags :: "verifyCmd flag_set \<Rightarrow> verifyCmd flag_set" where
  "verifyCmd_SetFlags f =
     (let f = Var (\<lambda>v c. Inr (c\<lparr>vc_refs := stringSlice_Set (vc_refs c) v\<rparr>)) ''ref'' f;
          f = StringVar vc_policyPath_update ''policy'' [] f
      in StringVar vc_repoDir_update ''repo'' ''.'' f)"

lemmas SetFlags_defs = checkpointCmd_SetFlags_def logCmd_SetFlags_def verifyCmd_SetFlags_def

subsection \<open>\<^verbatim>\<open>main\<close>\<close>

definition run_command ::
    "('w, 'rng, 'nodes, 'resp) program \<Rightarrow> nat list \<Rightarrow> command \<Rightarrow> string list \<Rightarrow> 'w \<Rightarrow> ExitStatus \<times> 'w" where
  "run_command P sched cmd args w =
     (case cmd of
        Clog c \<Rightarrow>
          (case logCmd_SetFlags ([], c) of (formal, c) \<Rightarrow>
             (case FlagSet_Parse formal c args of
                Inl err \<Rightarrow> (ExitUsageError, w)
              | Inr (c, _) \<Rightarrow> logCmd_Execute (p_cli P) c w))
      | Ccheckpoint c \<Rightarrow>
          (case checkpointCmd_SetFlags (p_ParseDuration P) ([], c) of (formal, c) \<Rightarrow>
             (case FlagSet_Parse formal c args of
                Inl err \<Rightarrow> (ExitUsageError, w)
              | Inr (c, _) \<Rightarrow> checkpointCmd_Execute (p_cli P) sched c w))
      | Cverify c \<Rightarrow>
          (case verifyCmd_SetFlags ([], c) of (formal, c) \<Rightarrow>
             (case FlagSet_Parse formal c args of
                Inl err \<Rightarrow> (ExitUsageError, w)
              | Inr (c, _) \<Rightarrow> (case verifyCmd_Execute (p_cli P) c w of ((status, _), w1) \<Rightarrow> (status, w1)))))"

text \<open>The numbers of the exit statuses, and the commands registered, as zero values.\<close>

fun exit_code :: "ExitStatus \<Rightarrow> nat" where
  "exit_code ExitSuccess = 0"
| "exit_code ExitFailure = 1"
| "exit_code ExitUsageError = 2"

definition registered :: "command list" where
  "registered =
     [Clog \<lparr>lc_refs = [], lc_repoDir = []\<rparr>,
      Ccheckpoint \<lparr>cc_origin = [], cc_policyPath = [], cc_keyPath = [], cc_kmsKey = [], cc_repoDir = [],
        cc_timeout = 0, cc_githubToken = []\<rparr>,
      Cverify \<lparr>vc_refs = [], vc_policyPath = [], vc_repoDir = []\<rparr>]"

text \<open>
  \<^verbatim>\<open>main\<close>: no flag is defined before the command's name, so one there ends the process, with
  status 2, or 0 for a request for help.
\<close>

definition git_ratchet ::
    "('w, 'rng, 'nodes, 'resp) program \<Rightarrow> nat list \<Rightarrow> string list \<Rightarrow> 'w \<Rightarrow> nat \<times> 'w" where
  "git_ratchet P sched args w =
     (case FlagSet_Parse [] () args of
        Inl err \<Rightarrow> (if err = ErrHelp then 0 else 2, w)
      | Inr (_, rest) \<Rightarrow>
          (case p_subcommands P registered (run_command P sched) rest w of
             (status, w1) \<Rightarrow> (exit_code status, w1)))"

text \<open>What is used of \<^verbatim>\<open>subcommands\<close>: the first argument names the command that is run on the others.\<close>

definition subcommands_contract ::
    "(command list \<Rightarrow> (command \<Rightarrow> string list \<Rightarrow> 'w \<Rightarrow> ExitStatus \<times> 'w) \<Rightarrow> string list \<Rightarrow> 'w \<Rightarrow> ExitStatus \<times> 'w) \<Rightarrow> bool"
where
  "subcommands_contract SC \<longleftrightarrow>
     (\<forall>cmds run name args w c. find (\<lambda>c. command_Name c = name) cmds = Some c \<longrightarrow>
        SC cmds run (name # args) w = run c args w)"

lemma git_ratchet_command:
  assumes "subcommands_contract (p_subcommands P)" "c \<in> set registered"
  shows "git_ratchet P sched (command_Name c # args) w =
    (case run_command P sched c args w of (status, w1) \<Rightarrow> (exit_code status, w1))"
proof -
  have f: "find (\<lambda>x. command_Name x = command_Name c) registered = Some c"
    using assms(2) unfolding registered_def list.set insert_iff empty_iff
    by (elim disjE) (simp_all only: find.simps command_Name.simps Name_defs simp_thms if_True if_False list.inject char.inject)
  have "hd (command_Name c) \<noteq> CHR ''-''" by (cases c) (simp_all add: Name_defs)
  then have p: "FlagSet_Parse [] () (command_Name c # args) = Inr ((), command_Name c # args)"
    by (intro Parse_stops) simp
  have "p_subcommands P registered (run_command P sched) (command_Name c # args) w = run_command P sched c args w"
    by (rule assms(1) [unfolded subcommands_contract_def, rule_format, OF f])
  then show ?thesis by (simp only: git_ratchet_def p sum.case prod.case)
qed

lemma git_ratchet_log:
  assumes "subcommands_contract (p_subcommands P)"
  shows "git_ratchet P sched (''log'' # args) w =
    (case (case logCmd_SetFlags ([], \<lparr>lc_refs = [], lc_repoDir = []\<rparr>) of (formal, c) \<Rightarrow> FlagSet_Parse formal c args) of
       Inl err \<Rightarrow> (exit_code ExitUsageError, w)
     | Inr (c, _) \<Rightarrow> (case logCmd_Execute (p_cli P) c w of (status, w1) \<Rightarrow> (exit_code status, w1)))"
  using git_ratchet_command [OF assms, of "Clog \<lparr>lc_refs = [], lc_repoDir = []\<rparr>" sched args w]
  by (simp add: registered_def run_command_def Name_defs split: prod.split sum.split)

lemma git_ratchet_verify:
  assumes "subcommands_contract (p_subcommands P)"
  shows "git_ratchet P sched (''verify'' # args) w =
    (case (case verifyCmd_SetFlags ([], \<lparr>vc_refs = [], vc_policyPath = [], vc_repoDir = []\<rparr>) of (formal, c) \<Rightarrow>
             FlagSet_Parse formal c args) of
       Inl err \<Rightarrow> (exit_code ExitUsageError, w)
     | Inr (c, _) \<Rightarrow> (case verifyCmd_Execute (p_cli P) c w of ((status, _), w1) \<Rightarrow> (exit_code status, w1)))"
  using git_ratchet_command [OF assms, of "Cverify \<lparr>vc_refs = [], vc_policyPath = [], vc_repoDir = []\<rparr>" sched args w]
  by (simp add: registered_def run_command_def Name_defs split: prod.split sum.split)

lemma git_ratchet_checkpoint:
  assumes "subcommands_contract (p_subcommands P)"
  shows "git_ratchet P sched (''checkpoint'' # args) w =
    (case (case checkpointCmd_SetFlags (p_ParseDuration P) ([], \<lparr>cc_origin = [], cc_policyPath = [], cc_keyPath = [],
               cc_kmsKey = [], cc_repoDir = [], cc_timeout = 0, cc_githubToken = []\<rparr>) of (formal, c) \<Rightarrow>
             FlagSet_Parse formal c args) of
       Inl err \<Rightarrow> (exit_code ExitUsageError, w)
     | Inr (c, _) \<Rightarrow> (case checkpointCmd_Execute (p_cli P) sched c w of (status, w1) \<Rightarrow> (exit_code status, w1)))"
  using git_ratchet_command [OF assms, of "Ccheckpoint \<lparr>cc_origin = [], cc_policyPath = [], cc_keyPath = [],
      cc_kmsKey = [], cc_repoDir = [], cc_timeout = 0, cc_githubToken = []\<rparr>" sched args w]
  by (simp add: registered_def run_command_def Name_defs split: prod.split sum.split)

subsection \<open>What a command line sets\<close>

lemma log_set_all:
  "flags_written {''ref'', ''repo''} fs \<Longrightarrow>
   set_all (fst (logCmd_SetFlags ([], c0))) fs c =
     Inr \<lparr>lc_refs = lc_refs c @ flag_values ''ref'' fs, lc_repoDir = flag_last (lc_repoDir c) ''repo'' fs\<rparr>"
proof (induction fs arbitrary: c)
  case (Cons f fs)
  obtain spl name v where f: "f = (spl, name, v)" by (cases f)
  from Cons f show ?case
    by (auto simp: flags_written_def SetFlags_defs flag_set_defs flag_Set_def rwrap_def rbind_def stringSlice_Set_def)
qed simp

lemma verify_set_all:
  "flags_written {''ref'', ''policy'', ''repo''} fs \<Longrightarrow>
   set_all (fst (verifyCmd_SetFlags ([], c0))) fs c =
     Inr \<lparr>vc_refs = vc_refs c @ flag_values ''ref'' fs, vc_policyPath = flag_last (vc_policyPath c) ''policy'' fs,
       vc_repoDir = flag_last (vc_repoDir c) ''repo'' fs\<rparr>"
proof (induction fs arbitrary: c)
  case (Cons f fs)
  obtain spl name v where f: "f = (spl, name, v)" by (cases f)
  from Cons f show ?case
    by (auto simp: flags_written_def SetFlags_defs flag_set_defs flag_Set_def rwrap_def rbind_def stringSlice_Set_def)
qed simp

definition checkpoint_flag_names :: "string set" where
  "checkpoint_flag_names = {''origin'', ''policy'', ''key'', ''kms-key'', ''repo'', ''witness-timeout'', ''github-token''}"

definition written_checkpoint :: "(string \<Rightarrow> int res) \<Rightarrow> checkpointCmd \<Rightarrow> written_flags \<Rightarrow> checkpointCmd" where
  "written_checkpoint ParseDuration c fs =
     \<lparr>cc_origin = flag_last (cc_origin c) ''origin'' fs, cc_policyPath = flag_last (cc_policyPath c) ''policy'' fs,
      cc_keyPath = flag_last (cc_keyPath c) ''key'' fs, cc_kmsKey = flag_last (cc_kmsKey c) ''kms-key'' fs,
      cc_repoDir = flag_last (cc_repoDir c) ''repo'' fs,
      cc_timeout = last (cc_timeout c # map (\<lambda>v. projr (ParseDuration v)) (flag_values ''witness-timeout'' fs)),
      cc_githubToken = flag_last (cc_githubToken c) ''github-token'' fs\<rparr>"

lemma checkpoint_lookup:
  "map_of (fst (checkpointCmd_SetFlags PD ([], c0))) ''origin'' = Some (\<lambda>v c. Inr (c\<lparr>cc_origin := v\<rparr>))"
  "map_of (fst (checkpointCmd_SetFlags PD ([], c0))) ''policy'' = Some (\<lambda>v c. Inr (c\<lparr>cc_policyPath := v\<rparr>))"
  "map_of (fst (checkpointCmd_SetFlags PD ([], c0))) ''key'' = Some (\<lambda>v c. Inr (c\<lparr>cc_keyPath := v\<rparr>))"
  "map_of (fst (checkpointCmd_SetFlags PD ([], c0))) ''kms-key'' = Some (\<lambda>v c. Inr (c\<lparr>cc_kmsKey := v\<rparr>))"
  "map_of (fst (checkpointCmd_SetFlags PD ([], c0))) ''repo'' = Some (\<lambda>v c. Inr (c\<lparr>cc_repoDir := v\<rparr>))"
  "map_of (fst (checkpointCmd_SetFlags PD ([], c0))) ''witness-timeout'' =
     Some (\<lambda>v c. rbind (PD v) (\<lambda>d. Inr (c\<lparr>cc_timeout := d\<rparr>)))"
  "map_of (fst (checkpointCmd_SetFlags PD ([], c0))) ''github-token'' = Some (\<lambda>v c. Inr (c\<lparr>cc_githubToken := v\<rparr>))"
  by (simp_all add: SetFlags_defs flag_set_defs Let_def)

lemma checkpoint_set_all:
  "flags_written checkpoint_flag_names fs \<Longrightarrow> \<forall>v\<in>set (flag_values ''witness-timeout'' fs). \<exists>d. ParseDuration v = Inr d \<Longrightarrow>
   set_all (fst (checkpointCmd_SetFlags ParseDuration ([], c0))) fs c = Inr (written_checkpoint ParseDuration c fs)"
proof (induction fs arbitrary: c)
  case (Cons f fs)
  obtain spl name v where f: "f = (spl, name, v)" by (cases f)
  have fs: "flags_written checkpoint_flag_names fs" "name \<in> checkpoint_flag_names"
    using Cons.prems(1) by (auto simp: flags_written_def f)
  have d: "\<forall>v\<in>set (flag_values ''witness-timeout'' fs). \<exists>d. ParseDuration v = Inr d"
    "name = ''witness-timeout'' \<Longrightarrow> \<exists>d. ParseDuration v = Inr d"
    using Cons.prems(2) by (auto simp: f split: if_splits)
  note IH = Cons.IH [OF fs(1) d(1)]
  from fs(2) d(2) show ?case
    unfolding checkpoint_flag_names_def insert_iff empty_iff
    by (elim disjE) (auto simp: f IH written_checkpoint_def checkpoint_lookup flag_Set_def rwrap_def rbind_def)
qed (simp add: written_checkpoint_def)

lemma SetFlags_defaults:
  "snd (logCmd_SetFlags ([], c)) = c\<lparr>lc_repoDir := ''.''\<rparr>"
  "snd (verifyCmd_SetFlags ([], d)) = d\<lparr>vc_policyPath := [], vc_repoDir := ''.''\<rparr>"
  "snd (checkpointCmd_SetFlags PD ([], e)) =
     \<lparr>cc_origin = [], cc_policyPath = [], cc_keyPath = [], cc_kmsKey = [], cc_repoDir = ''.'',
      cc_timeout = 30 * Second, cc_githubToken = []\<rparr>"
  by (simp_all add: SetFlags_defs flag_set_defs Let_def)

lemma SetFlags_names:
  "fst ` set (fst (logCmd_SetFlags ([], c))) = {''ref'', ''repo''}"
  "fst ` set (fst (verifyCmd_SetFlags ([], d))) = {''ref'', ''policy'', ''repo''}"
  "fst ` set (fst (checkpointCmd_SetFlags PD ([], e))) = checkpoint_flag_names"
  by (auto simp: SetFlags_defs flag_set_defs Let_def checkpoint_flag_names_def)

lemma SetFlags_names_ok:
  "name \<in> checkpoint_flag_names \<Longrightarrow> flag_name_ok name" "flag_name_ok ''ref''"
  by (auto simp: checkpoint_flag_names_def flag_name_ok_def)

lemma log_Parse:
  assumes "flags_written {''ref'', ''repo''} fs" "no_flag rest"
  shows "(case logCmd_SetFlags ([], \<lparr>lc_refs = [], lc_repoDir = []\<rparr>) of (formal, c) \<Rightarrow>
      FlagSet_Parse formal c (command_args fs @ rest)) =
    Inr (\<lparr>lc_refs = flag_values ''ref'' fs, lc_repoDir = flag_last ''.'' ''repo'' fs\<rparr>, rest)"
proof -
  let ?f = "logCmd_SetFlags ([], \<lparr>lc_refs = [], lc_repoDir = []\<rparr>)"
  have "FlagSet_Parse (fst ?f) (snd ?f) (command_args fs @ rest) = rbind (set_all (fst ?f) fs (snd ?f)) (\<lambda>c. Inr (c, rest))"
    using assms SetFlags_names_ok by (intro Parse_command_args) (simp_all add: SetFlags_names checkpoint_flag_names_def)
  then show ?thesis using log_set_all [OF assms(1)] by (simp add: split_beta rbind_def SetFlags_defaults)
qed

lemma verify_Parse:
  assumes "flags_written {''ref'', ''policy'', ''repo''} fs" "no_flag rest"
  shows "(case verifyCmd_SetFlags ([], \<lparr>vc_refs = [], vc_policyPath = [], vc_repoDir = []\<rparr>) of (formal, c) \<Rightarrow>
      FlagSet_Parse formal c (command_args fs @ rest)) =
    Inr (\<lparr>vc_refs = flag_values ''ref'' fs, vc_policyPath = flag_last [] ''policy'' fs,
          vc_repoDir = flag_last ''.'' ''repo'' fs\<rparr>, rest)"
proof -
  let ?f = "verifyCmd_SetFlags ([], \<lparr>vc_refs = [], vc_policyPath = [], vc_repoDir = []\<rparr>)"
  have "FlagSet_Parse (fst ?f) (snd ?f) (command_args fs @ rest) = rbind (set_all (fst ?f) fs (snd ?f)) (\<lambda>c. Inr (c, rest))"
    using assms SetFlags_names_ok by (intro Parse_command_args) (simp_all add: SetFlags_names checkpoint_flag_names_def)
  then show ?thesis using verify_set_all [OF assms(1)] by (simp add: split_beta rbind_def SetFlags_defaults)
qed

lemma checkpoint_Parse:
  assumes "flags_written checkpoint_flag_names fs" "no_flag rest"
    and "\<forall>v\<in>set (flag_values ''witness-timeout'' fs). \<exists>d. ParseDuration v = Inr d"
  shows "(case checkpointCmd_SetFlags ParseDuration ([], c0) of (formal, c) \<Rightarrow>
      FlagSet_Parse formal c (command_args fs @ rest)) =
    Inr (written_checkpoint ParseDuration
      \<lparr>cc_origin = [], cc_policyPath = [], cc_keyPath = [], cc_kmsKey = [], cc_repoDir = ''.'',
       cc_timeout = 30 * Second, cc_githubToken = []\<rparr> fs, rest)"
proof -
  let ?f = "checkpointCmd_SetFlags ParseDuration ([], c0)"
  have "FlagSet_Parse (fst ?f) (snd ?f) (command_args fs @ rest) = rbind (set_all (fst ?f) fs (snd ?f)) (\<lambda>c. Inr (c, rest))"
    using assms SetFlags_names_ok by (intro Parse_command_args) (simp_all add: SetFlags_names)
  then show ?thesis using checkpoint_set_all [OF assms(1,3)] by (simp add: split_beta rbind_def SetFlags_defaults)
qed

end
