(* ===== verification/Program_Properties.thy ===== *)
theory Program_Properties
  imports Command_Properties Main_Program
begin

section \<open>Properties of the program\<close>

text \<open>
  \<^verbatim>\<open>git-ratchet\<close> from its arguments to its exit status (\<^verbatim>\<open>main.go\<close>).
\<close>

text \<open>
  C25: What a command line means. Flags may come in any order, with one dash or two, their values
  joined by an equals sign or as the next argument: every \<^verbatim>\<open>--ref\<close> counts, in order; of any other flag
  the last one does, or its default. Nothing after the first argument that is not a flag is read.
\<close>

theorem command_line_read:
  assumes "subcommands_contract (p_subcommands P)" "no_flag rest"
  shows
    "(flags_written {''ref'', ''repo''} fs \<longrightarrow>
       git_ratchet P sched (''log'' # command_args fs @ rest) w =
         (case logCmd_Execute (p_cli P) \<lparr>lc_refs = flag_values ''ref'' fs, lc_repoDir = flag_last ''.'' ''repo'' fs\<rparr> w of
            (status, w1) \<Rightarrow> (exit_code status, w1))) \<and>
     (flags_written {''ref'', ''policy'', ''repo''} fs \<longrightarrow>
       git_ratchet P sched (''verify'' # command_args fs @ rest) w =
         (case verifyCmd_Execute (p_cli P) \<lparr>vc_refs = flag_values ''ref'' fs, vc_policyPath = flag_last [] ''policy'' fs,
             vc_repoDir = flag_last ''.'' ''repo'' fs\<rparr> w of ((status, _), w1) \<Rightarrow> (exit_code status, w1))) \<and>
     (flags_written checkpoint_flag_names fs \<longrightarrow>
      (\<forall>v\<in>set (flag_values ''witness-timeout'' fs). \<exists>d. p_ParseDuration P v = Inr d) \<longrightarrow>
       git_ratchet P sched (''checkpoint'' # command_args fs @ rest) w =
         (case checkpointCmd_Execute (p_cli P) sched
             \<lparr>cc_origin = flag_last [] ''origin'' fs, cc_policyPath = flag_last [] ''policy'' fs,
              cc_keyPath = flag_last [] ''key'' fs, cc_kmsKey = flag_last [] ''kms-key'' fs,
              cc_repoDir = flag_last ''.'' ''repo'' fs,
              cc_timeout = last (30 * Second # map (\<lambda>v. projr (p_ParseDuration P v)) (flag_values ''witness-timeout'' fs)),
              cc_githubToken = flag_last [] ''github-token'' fs\<rparr> w of (status, w1) \<Rightarrow> (exit_code status, w1)))"
proof (intro conjI impI)
  assume "flags_written {''ref'', ''repo''} fs"
  from log_Parse [OF this assms(2)] git_ratchet_log [OF assms(1)]
  show "git_ratchet P sched (''log'' # command_args fs @ rest) w =
         (case logCmd_Execute (p_cli P) \<lparr>lc_refs = flag_values ''ref'' fs, lc_repoDir = flag_last ''.'' ''repo'' fs\<rparr> w of
            (status, w1) \<Rightarrow> (exit_code status, w1))" by simp
next
  assume "flags_written {''ref'', ''policy'', ''repo''} fs"
  from verify_Parse [OF this assms(2)] git_ratchet_verify [OF assms(1)]
  show "git_ratchet P sched (''verify'' # command_args fs @ rest) w =
         (case verifyCmd_Execute (p_cli P) \<lparr>vc_refs = flag_values ''ref'' fs, vc_policyPath = flag_last [] ''policy'' fs,
             vc_repoDir = flag_last ''.'' ''repo'' fs\<rparr> w of ((status, _), w1) \<Rightarrow> (exit_code status, w1))" by simp
next
  assume "flags_written checkpoint_flag_names fs"
    "\<forall>v\<in>set (flag_values ''witness-timeout'' fs). \<exists>d. p_ParseDuration P v = Inr d"
  from checkpoint_Parse [OF this(1) assms(2) this(2)] git_ratchet_checkpoint [OF assms(1)]
  show "git_ratchet P sched (''checkpoint'' # command_args fs @ rest) w =
         (case checkpointCmd_Execute (p_cli P) sched
             \<lparr>cc_origin = flag_last [] ''origin'' fs, cc_policyPath = flag_last [] ''policy'' fs,
              cc_keyPath = flag_last [] ''key'' fs, cc_kmsKey = flag_last [] ''kms-key'' fs,
              cc_repoDir = flag_last ''.'' ''repo'' fs,
              cc_timeout = last (30 * Second # map (\<lambda>v. projr (p_ParseDuration P v)) (flag_values ''witness-timeout'' fs)),
              cc_githubToken = flag_last [] ''github-token'' fs\<rparr> w of (status, w1) \<Rightarrow> (exit_code status, w1))"
    by (simp add: written_checkpoint_def)
qed

text \<open>The library, as far as its contract goes.\<close>

definition ex_subcommands ::
    "command list \<Rightarrow> (command \<Rightarrow> string list \<Rightarrow> 'w \<Rightarrow> ExitStatus \<times> 'w) \<Rightarrow> string list \<Rightarrow> 'w \<Rightarrow> ExitStatus \<times> 'w" where
  "ex_subcommands cmds run args w =
     (case args of [] \<Rightarrow> (ExitUsageError, w)
      | name # args \<Rightarrow> (case find (\<lambda>c. command_Name c = name) cmds of None \<Rightarrow> (ExitUsageError, w) | Some c \<Rightarrow> run c args w))"

definition ex_program :: "(ex_world, string list, uint64 \<times> uint64, string) program" where
  "ex_program = \<lparr>p_cli = ex_cli, p_ParseDuration = (\<lambda>s. Inr 0), p_subcommands = ex_subcommands\<rparr>"

lemma ex_subcommands: "subcommands_contract (p_subcommands ex_program)"
  by (simp add: subcommands_contract_def ex_program_def ex_subcommands_def)

definition ex_command_line :: written_flags where
  "ex_command_line = [(Spelled 2 False, ''ref'', ex_main), (Spelled 1 True, ''policy'', ''p''), (Spelled 2 True, ''ref'', ''HEAD'')]"

lemma ex_command_line: "flags_written {''ref'', ''policy'', ''repo''} ex_command_line"
  "flag_values ''ref'' ex_command_line = [ex_main, ''HEAD'']" "flag_last [] ''policy'' ex_command_line = ''p''"
  "flag_last ''.'' ''repo'' ex_command_line = ''.''"
  by (simp_all add: ex_command_line_def flags_written_def spelling_ok_def)

theorem command_line_read_witness:
  "git_ratchet ex_program [] [''verify'', ''--ref'', ex_main, ''-policy=p'', ''--ref=HEAD'', ''x'', ''--repo'', ''elsewhere''] (ex_start ex_c1) =
     (case verifyCmd_Execute ex_cli \<lparr>vc_refs = [ex_main, ''HEAD''], vc_policyPath = ''p'', vc_repoDir = ''.''\<rparr> (ex_start ex_c1) of
        ((status, _), w1) \<Rightarrow> (exit_code status, w1))"
proof -
  have "no_flag [''x'', ''--repo'', ''elsewhere'']" by (simp add: no_flag_def)
  from command_line_read [OF ex_subcommands this, THEN conjunct2, THEN conjunct1, rule_format, OF ex_command_line(1)]
  show ?thesis unfolding ex_command_line
    by (simp add: ex_command_line_def command_args_def spelled_def ex_program_def numeral_2_eq_2)
qed

text \<open>
  C24: When \<^verbatim>\<open>git-ratchet verify\<close> exits with zero. From its command line: exactly if a policy is
  given, at least one ref, only branches and tags among them, the stored checkpoint is
  accepted by the policy and reproduced by the log, and every ref is verified in the checkpointed
  part of the log.
\<close>

theorem verify_command_line:
  assumes SC: "subcommands_contract (p_subcommands P)" and args: "flags_written {''ref'', ''policy'', ''repo''} fs" "no_flag rest"
    and env: "repo_env (c_deps (p_cli P)) (flag_last ''.'' ''repo'' fs) db graph refs"
    and pol: "FromPath (c_ReadFile (p_cli P)) (c_Unmarshal (p_cli P)) (flag_last [] ''policy'' fs) w = (Inr pol, w1)"
    and l: "repo_log (d_tessera (c_deps (p_cli P))) (db w1) es cp head"
  shows "fst (git_ratchet P sched (''verify'' # command_args fs @ rest) w) = 0 \<longleftrightarrow>
    flag_last [] ''policy'' fs \<noteq> [] \<and> flag_values ''ref'' fs \<noteq> [] \<and>
    (\<nexists>ref. ref \<in> set (flag_values ''ref'' fs) \<and> (\<exists>e. ParseRefKind ref = Inl e)) \<and>
    (\<exists>t. checkpointedLog (c_deps (p_cli P)) (flag_last ''.'' ''repo'' fs) pol w1 = (Inr t, w1) \<and>
       (\<forall>ref\<in>set (flag_values ''ref'' fs). ref_verified (graph w1) (refs w1) ref t))"
proof -
  let ?c = "\<lparr>vc_refs = flag_values ''ref'' fs, vc_policyPath = flag_last [] ''policy'' fs, vc_repoDir = flag_last ''.'' ''repo'' fs\<rparr>"
  have "fst (git_ratchet P sched (''verify'' # command_args fs @ rest) w) = exit_code (fst (fst (verifyCmd_Execute (p_cli P) ?c w)))"
    using git_ratchet_verify [OF SC] verify_Parse [OF args] by (simp add: split_beta)
  moreover have "exit_code st = 0 \<longleftrightarrow> st = ExitSuccess" for st by (cases st) simp_all
  moreover note verify_exit_status [of "p_cli P" ?c db graph refs w pol w1 es cp head]
  ultimately show ?thesis using env pol l by simp
qed

theorem verify_command_line_witness:
  "fst (git_ratchet ex_program [] [''verify'', ''--ref'', ex_main, ''-policy=p'', ''--ref=HEAD''] (ex_repo ex_c1 ex_log_entries [])) \<noteq> 0"
proof -
  have n: "no_flag []" by (simp add: no_flag_def)
  have d: "c_deps (p_cli ex_program) = ex_deps" by (simp add: ex_program_def ex_cli_def)
  have "FromPath (c_ReadFile (p_cli ex_program)) (c_Unmarshal (p_cli ex_program)) (flag_last [] ''policy'' ex_command_line)
      (ex_repo ex_c1 ex_log_entries []) = (Inr ex_policy, ex_repo ex_c1 ex_log_entries [])"
    by (simp add: FromPath_Inr_iff ex_program_def ex_cli_def)
  from verify_command_line [OF ex_subcommands ex_command_line(1) n _ this, unfolded d, OF ex_env ex_repo_env, of "[]"]
  have "fst (git_ratchet ex_program [] (''verify'' # command_args ex_command_line) (ex_repo ex_c1 ex_log_entries [])) = 0 \<Longrightarrow>
      \<not> (\<exists>e. ParseRefKind ''HEAD'' = Inl e)" unfolding ex_command_line by auto
  then show ?thesis
    by (auto simp: ParseRefKind_def tags_prefix_def heads_prefix_def ex_command_line_def command_args_def spelled_def numeral_2_eq_2)
qed

end
