(* ===== verification/Cosigning_Properties.thy ===== *)
theory Cosigning_Properties
  imports Example_Works Main_Cmd
begin

section \<open>Properties of cosigning\<close>

text \<open>
  What is sent to the witnesses, and what \<^verbatim>\<open>collectCosignatures\<close> makes of their answers under
  every interleaving of its goroutines (\<^verbatim>\<open>ratchet.go\<close>).
\<close>

text \<open>
  Submissions carry valid proofs. \<^verbatim>\<open>submit\<close> asks the witness only with a proof that RFC 6962
  verification accepts between the size the witness is at and the log's head (an empty one at size
  zero and at the log's own size); for a size beyond the log it reports an error and sends nothing.
\<close>

theorem submit_sends_valid_proof:
  assumes "hasher_contract (d_merkle D)" "range_contract (d_merkle D) repr" "proof_contract (d_merkle D)"
    and "go_len (log_entries l)"
  shows "if length (log_entries l) < unat m then \<exists>e. submit D u l signedNote m w = (([], 0, Some e), w)
    else \<exists>p. submit D u l signedNote m w = d_Update D u m signedNote p w \<and>
      (if m = 0 \<or> unat m = length (log_entries l) then p = []
       else proof_accepted (hasher_HashChildren (d_merkle D)) (unat m) (length (log_entries l))
              (tree_hash (d_merkle D) (leaf_list (d_merkle D) (take (unat m) (log_entries l))))
              (tree_hash (d_merkle D) (leaf_list (d_merkle D) (log_entries l))) p)"
proof (cases "ConsistencyProofFrom (d_merkle D) l m")
  case (Inl e)
  with ConsistencyProofFrom_verified [OF assms, of m] have "length (log_entries l) < unat m" by simp
  then show ?thesis unfolding submit_def Inl sum.case by simp
next
  case (Inr p)
  note v = ConsistencyProofFrom_verified [OF assms, of m, unfolded Inr sum.case]
  have "submit D u l signedNote m w = d_Update D u m signedNote p w"
    by (simp add: submit_def rawHashes_def Inr)
  with v show ?thesis unfolding not_less [symmetric] by (simp only: if_False) blast
qed

theorem submit_sends_valid_proof_witness:
  "\<exists>p. submit ex_deps \<lparr>url_Scheme = ''https'', url_Host = ''w'', url_Path = []\<rparr>
      (the_log ''dir'' ex_log_entries [] []) ''note'' 1 (ex_start ex_c1) =
      d_Update ex_deps \<lparr>url_Scheme = ''https'', url_Host = ''w'', url_Path = []\<rparr> 1 ''note'' p (ex_start ex_c1) \<and>
     proof_accepted (hasher_HashChildren ex_merkle) 1 (length ex_log_entries)
       (tree_hash ex_merkle (leaf_list ex_merkle [ex_entry ex_c1])) (tree_hash ex_merkle (leaf_list ex_merkle ex_log_entries)) p"
proof -
  have "hasher_contract (d_merkle ex_deps)" "range_contract (d_merkle ex_deps) (=)" "proof_contract (d_merkle ex_deps)"
    "go_len (log_entries (the_log ''dir'' ex_log_entries [] []))"
    using ex_merkle_hasher ex_merkle_range ex_merkle_proof by (simp_all add: go_len_def ex_log_entries_def)
  from submit_sends_valid_proof [OF this, of 1 "\<lparr>url_Scheme = ''https'', url_Host = ''w'', url_Path = []\<rparr>" "''note''" "ex_start ex_c1"] show ?thesis by (simp add: ex_log_entries_def)
qed

text \<open>
  C18: One verdict for every schedule. If no two witnesses share an endpoint, the order in which
  the goroutines run and answer does not matter: collecting fails exactly if some witness, asked
  alone, rejects the transition, and otherwise returns the cosignatures the witnesses give when
  each is asked alone, the failed ones skipped. The order of the cosignatures, and which of several
  rejections the error names, may still depend on who answers first.
\<close>

theorem cosigning_schedule_independent:
  assumes "independent D view" "endpoints_distinct (pol_Witnesses pol)"
  shows "(case fst (collectCosignatures D sched pol l oldSize signedNote w) of
        Inl e \<Rightarrow> None | Inr lines \<Rightarrow> Some (mset lines)) =
    (if list_ex (\<lambda>(name, r). fatal r) (outcomes D pol l oldSize signedNote w) then None
     else Some (mset (obtained (outcomes D pol l oldSize signedNote w))))"
proof (cases "fst (collectCosignatures D sched pol l oldSize signedNote w)")
  case (Inl e)
  with collectCosignatures_verdict [OF assms, where sched = sched and l = l and old = oldSize and
      sn = signedNote and w = w] show ?thesis
    by (auto simp: list_ex_iff)
next
  case (Inr lines)
  with collectCosignatures_verdict [OF assms, where sched = sched and l = l and old = oldSize and
      sn = signedNote and w = w] show ?thesis
    by (fastforce simp: list_ex_iff)
qed

definition ex_witnesses :: tlog_policy where
  "ex_witnesses = \<lparr>pol_Witnesses =
      [\<lparr>w_Name = ''a'', w_URL = Some \<lparr>url_Scheme = ''https'', url_Host = ''a'', url_Path = []\<rparr>\<rparr>,
       \<lparr>w_Name = ''b'', w_URL = Some \<lparr>url_Scheme = ''https'', url_Host = ''b'', url_Path = []\<rparr>\<rparr>],
     pol_Quorum = ''q'', pol_Satisfied = (\<lambda>n. True), pol_Verify = (\<lambda>n. Inr ())\<rparr>"

theorem cosigning_schedule_independent_witness:
  "(case fst (collectCosignatures ex_deps [1, 0, 1] ex_witnesses
        (the_log ''dir'' ex_log_entries [] ''c3'') 1 ''note'' (ex_start ex_c1)) of
      Inl e \<Rightarrow> None | Inr lines \<Rightarrow> Some (mset lines)) =
   (case fst (collectCosignatures ex_deps [] ex_witnesses
        (the_log ''dir'' ex_log_entries [] ''c3'') 1 ''note'' (ex_start ex_c1)) of
      Inl e \<Rightarrow> None | Inr lines \<Rightarrow> Some (mset lines))"
proof -
  have "endpoints_distinct (pol_Witnesses ex_witnesses)"
    by (auto simp: endpoints_distinct_def ex_witnesses_def less_Suc_eq)
  from cosigning_schedule_independent [OF ex_independent this] show ?thesis by simp
qed

text \<open>
  C26: Every goroutine answers. Under every schedule, once each goroutine has been given two more
  turns, all of them have sent: the receiving loop, which waits for one result per witness, ends.
\<close>

theorem every_goroutine_sends:
  "list_all (\<lambda>g. g = Sent)
     (cos_procs (fold (goroutine_step D ws l oldSize signedNote)
        (sched @ [0..<length ws] @ [0..<length ws]) (cosigning_start ws w))) \<and>
   length (cos_procs (cosign_run D ws l oldSize signedNote sched w)) = length ws"
proof -
  have "length (cos_procs (cosign_run D ws l oldSize signedNote sched w)) = length ws"
    unfolding cosign_run_def by (simp add: cosigning_start_def)
  then show ?thesis
    using cosign_run_all_sent [of _ ws D l oldSize signedNote sched w]
    by (simp add: list_all_length cosign_run_def)
qed

text \<open>
  C19: Rejections are never outvoted. If any result received is a witness's finding that the
  proof is invalid or the root differs, whatever else was received and in whatever order, the
  loop over the results fails, and it names a witness that rejected; otherwise it returns every
  cosignature received, in order of arrival.
\<close>

theorem rejection_never_skipped:
  "case collect_results [] rs of
     Inl e \<Rightarrow> \<exists>name err. (name, Inl err) \<in> set rs \<and>
       (is_panic err \<and> e = err \<or> rejection err \<and> e = wrap_err ''witness %s rejected checkpoint: %w'' [FStr name] err)
   | Inr lines \<Rightarrow> lines = obtained rs \<and> \<not> (\<exists>name err. (name, Inl err) \<in> set rs \<and> rejection err)"
proof -
  have "case collect_results acc rs of
      Inl e \<Rightarrow> \<exists>name err. (name, Inl err) \<in> set rs \<and>
        (is_panic err \<and> e = err \<or> rejection err \<and> e = wrap_err ''witness %s rejected checkpoint: %w'' [FStr name] err)
    | Inr lines \<Rightarrow> lines = acc @ obtained rs \<and> \<not> (\<exists>name err. (name, Inl err) \<in> set rs \<and> rejection err)" for acc
  proof (induction acc rs rule: collect_results.induct)
    case (2 acc n r rs)
    show ?case
    proof (cases r)
      case (Inr line)
      with 2 show ?thesis by (auto split: sum.splits)
    next
      case (Inl a)
      consider "is_panic a" | "\<not> is_panic a" "rejection a" | "\<not> is_panic a" "\<not> rejection a" by blast
      then show ?thesis
      proof cases
        case 3
        then have "collect_results acc ((n, r) # rs) = collect_results acc rs" by (simp add: Inl)
        moreover note 2(1) [OF Inl 3]
        ultimately show ?thesis using 3 Inl by (cases "collect_results acc rs") (simp, blast, auto)
      qed (auto simp: Inl)
    qed
  qed simp
  from this [of "[]"] show ?thesis unfolding append_Nil .
qed

end
