(* ===== verification/Cosign_Cmd.thy ===== *)
theory Cosign_Cmd
  imports Note_Tlog Witness_Message Flags "HOL-Library.AList"
begin

section \<open>The witness command (\<^verbatim>\<open>cosign/\<close>)\<close>

text \<open>
  The state file of a file-borne witness, its list of trusted origins and the answer to one
  add-checkpoint request. The witness itself and its HTTP handler are
  \<^verbatim>\<open>transparency-dev/witness\<close>'s, the file system the operating system's: parameters. The
  state file is an instance of \<open>witness_store\<close>, what a witness needs of its persistence.
\<close>

record 'w fs =
  fs_ReadFile :: "string \<Rightarrow> ('w, string) io"
  fs_MkdirAll :: "string \<Rightarrow> ('w, unit) io"
  fs_WriteFile :: "string \<Rightarrow> string \<Rightarrow> ('w, unit) io"
  fs_Rename :: "string \<Rightarrow> string \<Rightarrow> ('w, unit) io"
  fs_Dir :: "string \<Rightarrow> string"

fun os_IsNotExist :: "goerr \<Rightarrow> bool" where
  "os_IsNotExist (NotExist p) = True"
| "os_IsNotExist _ = False"

subsection \<open>\<^verbatim>\<open>state.go\<close>\<close>

text \<open>A nil byte slice is \<open>None\<close>.\<close>

definition Latest :: "'w fs \<Rightarrow> string \<Rightarrow> string \<Rightarrow> ('w, string option) io" where
  "Latest F path origin =
     etry (fs_ReadFile F path) (\<lambda>r. case r of
        Inl err \<Rightarrow> (if os_IsNotExist err then eret None else efail err)
      | Inr data \<Rightarrow>
          if length data = 0 then eret None
          else
            let (stored, _, _) = Cut data [nl] in
            if stored \<noteq> origin then
              efail (Errorf ''stored checkpoint in %s is for origin %q, not %q''
                       [FStr path, FStr stored, FStr origin])
            else eret (Some data))"

definition Update :: "'w fs \<Rightarrow> string \<Rightarrow> string \<Rightarrow> (string option \<Rightarrow> ('w, string option) io) \<Rightarrow> ('w, unit) io" where
  "Update F path origin f =
     ebind (Latest F path origin) (\<lambda>current.
     ebind (f current) (\<lambda>nxt. case nxt of
        None \<Rightarrow> eret ()
      | Some data \<Rightarrow>
          ebind (fs_MkdirAll F (fs_Dir F path)) (\<lambda>_.
          let tmp = path @ ''.tmp'' in
          ebind (fs_WriteFile F tmp data) (\<lambda>_. fs_Rename F tmp path))))"

subsection \<open>\<^verbatim>\<open>cosign.go\<close>: trusted origins\<close>

record cosignOriginKey =
  ok_vkey :: string
  ok_pub :: pubkey
  ok_sigType :: SigType

text \<open>
  \<^verbatim>\<open>bufio.Scanner\<close> over lines: a final newline ends the last line, a carriage return before
  it is dropped, and a line that does not fit the 64 KiB buffer ends the scan with an error.
\<close>

definition max_token :: nat where "max_token = 65536"

definition drop_cr :: "string \<Rightarrow> string" where
  "drop_cr l = (if HasSuffix l [cr] then butlast l else l)"

definition scan_lines :: "string \<Rightarrow> string list" where
  "scan_lines data =
     (let ls = Split data nl in if last ls = [] then butlast ls else ls)"

type_synonym origins = "(string \<times> cosignOriginKey) list"

fun read_origins :: "'w crypto \<Rightarrow> origins \<Rightarrow> string list \<Rightarrow> origins res" where
  "read_origins C acc [] = Inr acc"
| "read_origins C acc (l # ls) =
     (if length l \<ge> max_token then Inl (Sentinel ''bufio.Scanner: token too long'')
      else
        let line = TrimSpace (drop_cr l) in
        if line = [] \<or> HasPrefix line ''#'' then read_origins C acc ls
        else rbind (rwrap ''parsing vkey %q: %w'' [FStr line] (ParseVKey C line)) (\<lambda>(name, sigType, pub).
               read_origins C (AList.update name \<lparr>ok_vkey = line, ok_pub = pub, ok_sigType = sigType\<rparr> acc) ls))"

definition readTrustedOriginsFile :: "'w crypto \<Rightarrow> 'w fs \<Rightarrow> string \<Rightarrow> ('w, origins) io" where
  "readTrustedOriginsFile C F path =
     ebind (fs_ReadFile F path) (\<lambda>data. elift (read_origins C [] (scan_lines data)))"

subsection \<open>\<^verbatim>\<open>checkpoint.go\<close>: answering a request\<close>

text \<open>
  \<open>tw_serve\<close> is \<^verbatim>\<open>twitness.New\<close> with the handler's \<^verbatim>\<open>ServeHTTP\<close>: given the persistence, the
  signers and the verifiers it answers a parsed request; the result is what
  \<^verbatim>\<open>Response.Write\<close> renders with the content length set.
\<close>

record ('w, 'req, 'v) witness_lib =
  tw_ReadRequest :: "string \<Rightarrow> 'req res"
  tw_NewVerifier :: "string \<Rightarrow> 'v res"
  tw_serve :: "(string \<Rightarrow> ('w, string option) io) \<Rightarrow> (string \<Rightarrow> (string option \<Rightarrow> ('w, string option) io) \<Rightarrow> ('w, unit) io)
     \<Rightarrow> 'w note_signer list \<Rightarrow> (string \<Rightarrow> ('v \<times> bool) option res) \<Rightarrow> 'req \<Rightarrow> ('w, string res) io"

definition VerifierForLog ::
    "('w, 'req, 'v) witness_lib \<Rightarrow> origins \<Rightarrow> string \<Rightarrow> ('v \<times> bool) option res" where
  "VerifierForLog TW trusted origin =
     (case map_of trusted origin of
        None \<Rightarrow> Inr None
      | Some ok \<Rightarrow>
          rbind (rwrap ''trusted origin %q has an unusable vkey: %w'' [FStr origin] (tw_NewVerifier TW (ok_vkey ok)))
            (\<lambda>v. Inr (Some (v, True))))"

definition answerAddCheckpoint ::
    "('w, 'req, 'v) witness_lib \<Rightarrow> 'w fs \<Rightarrow> 'w formats \<Rightarrow> string \<Rightarrow> Signer \<Rightarrow> origins
     \<Rightarrow> string \<Rightarrow> ('w, string) io" where
  "answerAddCheckpoint TW F FM requestMessage witnessKey trusted statePath =
     (if statePath = [] then
        efail (Errorf ''--stored-checkpoint is required: a witness with no state cannot ratchet'' [])
      else
        ebind (elift (rwrap ''parsing request message: %w'' [] (tw_ReadRequest TW requestMessage))) (\<lambda>req.
        ebind (elift (rwrap ''witness key: %w'' [] (TlogCosigner FM witnessKey))) (\<lambda>signer.
        ebind (ewrap ''creating witness: %w'' []
                 (tw_serve TW (Latest F statePath) (Update F statePath) [signer] (VerifierForLog TW trusted) req))
          (\<lambda>written. elift (MarshalMessage written)))))"

text \<open>\<^verbatim>\<open>main\<close>: the response printed, or exit status 1.\<close>

record cosign_flags =
  cf_request :: string
  cf_origin_vkeys :: string
  cf_stored_checkpoint :: string
  cf_key :: string

definition cosign_FlagSet :: "cosign_flags flag_set" where
  "cosign_FlagSet =
     (let f = ([], \<lparr>cf_request = [], cf_origin_vkeys = [], cf_stored_checkpoint = [], cf_key = []\<rparr>);
          f = StringVar cf_request_update ''request'' [] f;
          f = StringVar cf_origin_vkeys_update ''origin-vkeys'' [] f;
          f = StringVar cf_stored_checkpoint_update ''stored-checkpoint'' [] f
      in StringVar cf_key_update ''key'' [] f)"

definition cosign_main ::
    "'w crypto \<Rightarrow> ('w, 'req, 'v) witness_lib \<Rightarrow> 'w fs \<Rightarrow> 'w formats \<Rightarrow> cosign_flags \<Rightarrow> ('w, string) io" where
  "cosign_main C TW F FM c =
     (if cf_request c = [] then efail (Errorf ''error: --request is required'' [])
      else if cf_origin_vkeys c = [] then efail (Errorf ''error: --origin-vkeys is required'' [])
      else if cf_key c = [] then efail (Errorf ''error: --key is required'' [])
      else
        ebind (ewrap ''error: reading witness key: %v'' [] (ReadKeyFile C (fs_ReadFile F) (cf_key c) RoleCosigner))
          (\<lambda>witnessSigner.
        ebind (ewrap ''error: reading origin vkeys: %v'' [] (readTrustedOriginsFile C F (cf_origin_vkeys c)))
          (\<lambda>trustedOrigins.
        if length trustedOrigins = 0 then
          efail (Errorf ''error: no trusted origins found in vkeys file'' [])
        else
          ebind (ewrap ''error: reading request file: %v'' [] (fs_ReadFile F (cf_request c))) (\<lambda>body.
          ebind (answerAddCheckpoint TW F FM body witnessSigner trustedOrigins (cf_stored_checkpoint c))
            (\<lambda>response. eret (response @ [nl]))))))"

text \<open>The command from its arguments: what \<^verbatim>\<open>flag.Parse\<close> refuses ends it before anything is read.\<close>

definition cosign_args ::
    "'w crypto \<Rightarrow> ('w, 'req, 'v) witness_lib \<Rightarrow> 'w fs \<Rightarrow> 'w formats \<Rightarrow> string list \<Rightarrow> ('w, string) io" where
  "cosign_args C TW F FM args =
     (case cosign_FlagSet of (formal, c) \<Rightarrow>
        ebind (elift (FlagSet_Parse formal c args)) (\<lambda>(c, _). cosign_main C TW F FM c))"

subsection \<open>What a witness needs of its store\<close>

text \<open>
  A store holds at most one checkpoint: \<open>held w\<close>. \<open>works\<close> says that the medium behaves as
  documented. Reading changes nothing and serves only the origin held; an update that succeeds
  leaves what \<open>f\<close> returned, or what was there; one that fails leaves what was there.
\<close>

definition installed :: "string option \<Rightarrow> (string option res) \<Rightarrow> string option \<Rightarrow> bool" where
  "installed before r after \<longleftrightarrow>
     (case r of Inl e \<Rightarrow> False | Inr None \<Rightarrow> after = before
      | Inr (Some data) \<Rightarrow> after = (if data = [] then None else Some data))"

locale witness_store =
  fixes latest :: "string \<Rightarrow> ('w, string option) io"
    and update :: "string \<Rightarrow> (string option \<Rightarrow> ('w, string option) io) \<Rightarrow> ('w, unit) io"
    and held :: "'w \<Rightarrow> string option"
    and serves :: "string option \<Rightarrow> string \<Rightarrow> bool"
    and works :: bool
  assumes latest_held: "works \<Longrightarrow> latest orig w = (Inr v, w') \<Longrightarrow> w' = w \<and> v = held w \<and> serves v orig"
    and update_ok: "works \<Longrightarrow> (\<And>v w. held (snd (f v w)) = held w) \<Longrightarrow> update orig f w = (Inr (), w') \<Longrightarrow>
      serves (held w) orig \<and> installed (held w) (fst (f (held w) w)) (held w')"
    and update_fails: "works \<Longrightarrow> (\<And>v w. held (snd (f v w)) = held w) \<Longrightarrow> update orig f w = (Inl e, w') \<Longrightarrow>
      held w' = held w"
begin

text \<open>A witness whose step only ever extends what it was given never loses what it held.\<close>

lemma update_monotone:
  assumes ok: works and f: "\<And>v w. held (snd (f v w)) = held w" and R: "\<And>x. R x x"
    and step: "\<And>v w data. fst (f v w) = Inr (Some data) \<Longrightarrow> data \<noteq> [] \<and> R v (Some data)"
    and u: "update orig f w = (r, w')"
  shows "R (held w) (held w')"
proof (cases r)
  case (Inl e)
  with u have "update orig f w = (Inl e, w')" by simp
  from update_fails [OF ok f this] R show ?thesis by simp
next
  case (Inr x)
  with u have "update orig f w = (Inr (), w')" by simp
  from update_ok [OF ok f this] have i: "installed (held w) (fst (f (held w) w)) (held w')" ..
  show ?thesis
  proof (cases "fst (f (held w) w)")
    case (Inr z)
    show ?thesis
    proof (cases z)
      case (Some data)
      with i Inr step [of "held w" w data] show ?thesis by (simp add: installed_def)
    qed (use i Inr R in \<open>simp add: installed_def\<close>)
  qed (use i in \<open>simp add: installed_def\<close>)
qed

end

text \<open>
  The file system: what each path holds. Reading reports it, creating directories leaves it,
  writing changes the file written at most, renaming is atomic.
\<close>

definition fs_contract :: "'w fs \<Rightarrow> ('w \<Rightarrow> string \<rightharpoonup> string) \<Rightarrow> bool" where
  "fs_contract F files \<longleftrightarrow>
     (\<forall>p w. case fs_ReadFile F p w of
        (Inr data, w') \<Rightarrow> w' = w \<and> files w p = Some data
      | (Inl e, w') \<Rightarrow> w' = w \<and> (os_IsNotExist e \<longrightarrow> files w p = None)) \<and>
     (\<forall>d w. files (snd (fs_MkdirAll F d w)) = files w) \<and>
     (\<forall>p data w. (\<forall>q. q \<noteq> p \<longrightarrow> files (snd (fs_WriteFile F p data w)) q = files w q) \<and>
        (fst (fs_WriteFile F p data w) = Inr () \<longrightarrow> files (snd (fs_WriteFile F p data w)) p = Some data)) \<and>
     (\<forall>a b w. files (snd (fs_Rename F a b w)) =
        (if fst (fs_Rename F a b w) = Inr () then (files w)(b := files w a, a := None) else files w))"

definition held_in :: "('w \<Rightarrow> string \<rightharpoonup> string) \<Rightarrow> string \<Rightarrow> 'w \<Rightarrow> string option" where
  "held_in files path w = (case files w path of Some (c # cs) \<Rightarrow> Some (c # cs) | _ \<Rightarrow> None)"

definition serves_origin :: "string option \<Rightarrow> string \<Rightarrow> bool" where
  "serves_origin v origin \<longleftrightarrow> (case v of None \<Rightarrow> True | Some data \<Rightarrow> fst (Cut data [nl]) = origin)"

lemma fs_contractD:
  assumes "fs_contract F files"
  shows "case fs_ReadFile F p w of
        (Inr data, w') \<Rightarrow> w' = w \<and> files w p = Some data
      | (Inl e, w') \<Rightarrow> w' = w \<and> (os_IsNotExist e \<longrightarrow> files w p = None)"
    "files (snd (fs_MkdirAll F d w)) = files w"
    "q \<noteq> p \<Longrightarrow> files (snd (fs_WriteFile F p data w)) q = files w q"
    "fst (fs_WriteFile F p data w) = Inr () \<Longrightarrow> files (snd (fs_WriteFile F p data w)) p = Some data"
    "files (snd (fs_Rename F a b w)) =
        (if fst (fs_Rename F a b w) = Inr () then (files w)(b := files w a, a := None) else files w)"
proof -
  note c = assms [unfolded fs_contract_def]
  show "case fs_ReadFile F p w of
        (Inr data, w') \<Rightarrow> w' = w \<and> files w p = Some data
      | (Inl e, w') \<Rightarrow> w' = w \<and> (os_IsNotExist e \<longrightarrow> files w p = None)"
    by (rule c [THEN conjunct1, THEN spec, THEN spec])
  show "files (snd (fs_MkdirAll F d w)) = files w"
    by (rule c [THEN conjunct2, THEN conjunct1, THEN spec, THEN spec])
  note wr = c [THEN conjunct2, THEN conjunct2, THEN conjunct1, THEN spec, THEN spec, THEN spec, of p data w]
  show "q \<noteq> p \<Longrightarrow> files (snd (fs_WriteFile F p data w)) q = files w q"
    using wr by simp
  show "fst (fs_WriteFile F p data w) = Inr () \<Longrightarrow> files (snd (fs_WriteFile F p data w)) p = Some data"
    using wr by simp
  show "files (snd (fs_Rename F a b w)) =
        (if fst (fs_Rename F a b w) = Inr () then (files w)(b := files w a, a := None) else files w)"
    by (rule c [THEN conjunct2, THEN conjunct2, THEN conjunct2, THEN spec, THEN spec, THEN spec])
qed

lemma Latest_result:
  assumes "fs_contract F files" "Latest F path origin w = (r, w')"
  shows "w' = w \<and> (case r of Inr v \<Rightarrow> v = held_in files path w \<and> serves_origin v origin | Inl e \<Rightarrow> True)"
proof -
  obtain x w1 where x: "fs_ReadFile F path w = (x, w1)" by force
  from fs_contractD(1) [OF assms(1), where p = path and w = w] x assms(2) show ?thesis
    by (cases x) (auto simp: Latest_def etry_def held_in_def serves_origin_def Let_def
        split: list.split prod.splits if_splits)
qed

definition write_state :: "'w fs \<Rightarrow> string \<Rightarrow> string \<Rightarrow> ('w, unit) io" where
  "write_state F path data =
     ebind (fs_MkdirAll F (fs_Dir F path)) (\<lambda>_.
       ebind (fs_WriteFile F (path @ ''.tmp'') data) (\<lambda>_. fs_Rename F (path @ ''.tmp'') path))"

lemma write_state_files:
  assumes "fs_contract F files" "write_state F path data w = (r, w')"
  shows "files w' path = (if r = Inr () then Some data else files w path)"
proof -
  obtain r1 w1 where 1: "fs_MkdirAll F (fs_Dir F path) w = (r1, w1)" by force
  obtain r2 w2 where 2: "fs_WriteFile F (path @ ''.tmp'') data w1 = (r2, w2)" by force
  obtain r3 w3 where 3: "fs_Rename F (path @ ''.tmp'') path w2 = (r3, w3)" by force
  have f1: "files w1 = files w" using fs_contractD(2) [OF assms(1), where w = w and d = "fs_Dir F path"] 1 by simp
  have f2: "files w2 path = files w1 path" "r2 = Inr () \<Longrightarrow> files w2 (path @ ''.tmp'') = Some data"
    using fs_contractD(3) [OF assms(1), where p = "path @ ''.tmp''" and data = data and w = w1 and q = path]
      fs_contractD(4) [OF assms(1), where p = "path @ ''.tmp''" and data = data and w = w1] 2
    by simp_all
  have f3: "files w3 = (if r3 = Inr () then (files w2)(path := files w2 (path @ ''.tmp''), path @ ''.tmp'' := None) else files w2)"
    using fs_contractD(5) [OF assms(1), where a = "path @ ''.tmp''" and b = path and w = w2] 3 by simp
  show ?thesis
    using assms(2) 1 2 3 f1 f2 f3
    by (cases r1; cases r2; cases r3) (auto simp: write_state_def ebind_def)
qed

lemma Update_write_state:
  "Update F path origin f = ebind (Latest F path origin) (\<lambda>current. ebind (f current) (\<lambda>nxt.
     case nxt of None \<Rightarrow> eret () | Some data \<Rightarrow> write_state F path data))"
  unfolding Update_def write_state_def Let_def ..

lemma held_in_files: "files w path = files w' path \<Longrightarrow> held_in files path w = held_in files path w'"
  by (simp add: held_in_def)

interpretation file_state: witness_store "Latest F path" "Update F path" "held_in files path" serves_origin
    "fs_contract F files" for F path files
proof unfold_locales
  fix orig w v w'
  assume "fs_contract F files" "Latest F path orig w = (Inr v, w')"
  from Latest_result [OF this]
  show "w' = w \<and> v = held_in files path w \<and> serves_origin v orig" unfolding sum.case .
next
  fix f orig w w'
  assume c: "fs_contract F files" and f: "\<And>v w. held_in files path (snd (f v w)) = held_in files path w"
    and u: "Update F path orig f w = (Inr (), w')"
  from u [unfolded Update_write_state ebind_Inr_iff] obtain v w1 nxt w2 where
    1: "Latest F path orig w = (Inr v, w1)" and 2: "f v w1 = (Inr nxt, w2)"
    and 3: "(case nxt of None \<Rightarrow> eret () | Some data \<Rightarrow> write_state F path data) w2 = (Inr (), w')" by blast
  from Latest_result [OF c 1]
  have v: "w1 = w" "v = held_in files path w" "serves_origin (held_in files path w) orig" by auto
  have k: "held_in files path w2 = held_in files path w" using f [of v w1] 2 v(1) by simp
  show "serves_origin (held_in files path w) orig \<and>
      installed (held_in files path w) (fst (f (held_in files path w) w)) (held_in files path w')"
  proof (cases nxt)
    case None
    with 2 3 v k show ?thesis by (simp add: installed_def)
  next
    case (Some data)
    with 3 have "files w' path = Some data" using write_state_files [OF c, of path data w2] by simp
    with 2 v Some show ?thesis by (auto simp: installed_def held_in_def split: list.split)
  qed
next
  fix f orig w e w'
  assume c: "fs_contract F files" and f: "\<And>v w. held_in files path (snd (f v w)) = held_in files path w"
    and u: "Update F path orig f w = (Inl e, w')"
  obtain r w1 where 1: "Latest F path orig w = (r, w1)" by force
  with Latest_result [OF c 1] have w1: "w1 = w" by simp
  show "held_in files path w' = held_in files path w"
  proof (cases r)
    case (Inl x)
    with u 1 w1 show ?thesis by (simp add: Update_write_state ebind_def)
  next
    case (Inr v)
    obtain y w2 where 2: "f v w = (y, w2)" by force
    with f [of v w] have k: "held_in files path w2 = held_in files path w" by simp
    show ?thesis
    proof (cases "\<exists>data. y = Inr (Some data)")
      case True
      then obtain data where "y = Inr (Some data)" by blast
      with u 1 w1 Inr 2 have "write_state F path data w2 = (Inl e, w')"
        by (simp add: Update_write_state ebind_def)
      from write_state_files [OF c this] k show ?thesis by (simp add: held_in_def)
    next
      case False
      with u 1 w1 Inr 2 k show ?thesis
        by (cases y) (auto simp: Update_write_state ebind_def split: option.splits)
    qed
  qed
qed

end
