(* ===== verification/Witness_Properties.thy ===== *)
theory Witness_Properties
  imports Example_Libraries Witness_Message Issue_Transport Cosign_Cmd
begin

section \<open>Properties of the witness side\<close>

text \<open>
  The GitHub issue carrier (\<^verbatim>\<open>internal/witness\<close>) and the witness's own command
  (\<^verbatim>\<open>cosign\<close>): its messages, its polling loop, its state file and its trusted origins.
\<close>

subsection \<open>Messages\<close>

text \<open>
  A message survives the carrier. An HTTP message without carriage returns of its own is
  written with LF line endings; fenced in an issue or a comment, with other text around it, it is
  found again byte for byte, in the first comment that holds a fence.
\<close>

theorem message_survives_carrier:
  assumes "\<forall>l\<in>set hdrs. cr \<notin> set l" "cr \<notin> set body"
    and "\<not> sublist fence_open (pre @ butlast fence_open)" "\<not> sublist ticks (unframed hdrs body @ butlast ticks)"
    and "\<forall>c\<in>set earlier. httpFence_FindStringSubmatch c = None"
  shows "\<exists>m. MarshalMessage (Inr (framed hdrs body)) = Inr m \<and> m = unframed hdrs body \<and>
    first_reply (earlier @ (pre @ fence m @ trailer) # later) = Some m"
proof -
  have "first_reply (earlier @ c # later) = first_reply (c # later)" for c
    using assms(5) by (induction earlier) simp_all
  with MarshalMessage_framed [OF assms(1,2)] fence_match [OF assms(3,4), of trailer] show ?thesis by simp
qed

theorem message_survives_carrier_witness:
  "MarshalMessage (Inr (''HTTP/1.1 200 OK'' @ [cr, nl, cr, nl] @ ''sig'' @ [nl])) =
     Inr (''HTTP/1.1 200 OK'' @ [nl, nl] @ ''sig'' @ [nl]) \<and>
   first_reply [''hello'', ''re: '' @ fence (''HTTP/1.1 200 OK'' @ [nl, nl] @ ''sig'' @ [nl]) @ [nl]] =
     Some (''HTTP/1.1 200 OK'' @ [nl, nl] @ ''sig'' @ [nl])"
proof -
  have "\<not> sublist fence_open (''re: '' @ butlast fence_open)"
    "\<not> sublist ticks (unframed [''HTTP/1.1 200 OK''] (''sig'' @ [nl]) @ butlast ticks)"
    by (simp_all add: sublist_code fence_open_def ticks_def unframed_def)
  moreover have "httpFence_FindStringSubmatch ''hello'' = None"
    by (simp add: httpFence_FindStringSubmatch_def fence_open_def ticks_def)
  ultimately show ?thesis
    using message_survives_carrier [of "[''HTTP/1.1 200 OK'']" "''sig'' @ [nl]" "''re: ''" "[''hello'']" "[nl]" "[]"]
    by (simp add: framed_def unframed_def)
qed

text \<open>
  The origin of a request. From an add-checkpoint body, lines that are not empty, an empty
  line and a note, the origin read is the first line of the note, whatever follows it.
\<close>

theorem request_origin:
  assumes "\<forall>l\<in>set ls. l \<noteq> [] \<and> nl \<notin> set l" "ls \<noteq> []" "origin \<noteq> []" "nl \<notin> set origin"
  shows "originFromAddCheckpoint (concat (map (\<lambda>l. l @ [nl]) ls) @ [nl] @ origin @ [nl] @ rest) = Inr origin"
proof -
  obtain p where p: "concat (map (\<lambda>l. l @ [nl]) ls) = p @ [nl]"
    using assms(2) by (cases ls rule: rev_cases) auto
  have "\<not> sublist [nl, nl] (p @ [nl])" using no_empty_line [OF assms(1)] by (simp only: p not_False_eq_True)
  from originFromAddCheckpoint_body [OF this assms(3,4), of rest] show ?thesis unfolding p by simp
qed

theorem request_origin_witness:
  "originFromAddCheckpoint (''old 7'' @ [nl] @ ''AAAA'' @ [nl, nl] @ ''log'' @ [nl] @ ''9'' @ [nl]) = Inr ''log''"
  using request_origin [of "[''old 7'', ''AAAA'']" "''log''" "''9'' @ [nl]"] by simp

subsection \<open>Polling\<close>

text \<open>
  C38: Waiting for a reply ends with its context. The polling loop returns, with a reply or an error, from every
  state: also when GitHub rate-limits every request and no reply ever comes. If each request and each wait ends
  within \<open>late\<close> of the deadline (or of its own start, when that is later), and an issue has fewer than \<open>fuel\<close> pages
  of comments, the loop returns by \<open>fuel + 3\<close> times \<open>late\<close> after the deadline, or after it was entered
  if that is later: what is left is one wait, one reading of the issue and its pages, and one more wait.
\<close>

theorem await_reply_ends:
  assumes "clock_contract E deadline" "prompt_contract E deadline late" "numbered_pages E fuel"
  shows "\<exists>r w'. awaitReply E t owner repo number fuel w = Some (r, w') \<and>
    ie_now E w' \<le> max (ie_now E w) deadline + (int fuel + 3) * late"
proof (rule awaitReply_by_deadline [OF assms(1,2) numbered_pages_enough [OF assms(3)]])
  have "0 \<le> late" using assms(2) by (simp add: prompt_contract_def)
  then show "ie_now E w \<le> max (ie_now E w) deadline + late" by simp
qed simp

text \<open>A GitHub that limits every request, with a deadline at 100 seconds; a request takes an instant.\<close>

definition ex_limited :: "(int, string) issue_env" where
  "ex_limited =
     \<lparr>ie_Create = (\<lambda>c ow r t b. eret 1), ie_Get = (\<lambda>c ow r n w. (Inl (RateLimitError 0), w + 1)),
      ie_ListComments = (\<lambda>c ow r n p w. (Inr ([], 0), w + 1)),
      ie_wait = (\<lambda>d w. if w + d \<le> 100 * Second then (Inr (), w + d)
        else (Inl (Errorf ''deadline'' []), max w (100 * Second))),
      ie_now = (\<lambda>w. w), ie_Write = (\<lambda>r. Inr []), ie_ReadResponse = (\<lambda>s r. Inr s), ie_Getenv = (\<lambda>s. []),
      ie_Parse = (\<lambda>s. Inl (Errorf [] []))\<rparr>"

lemma ex_limited_contracts: "clock_contract ex_limited (100 * Second)" "pages_contract ex_limited 1"
  "prompt_contract ex_limited (100 * Second) 1" "numbered_pages ex_limited 1"
  by (simp_all add: clock_contract_def pages_contract_def prompt_contract_def numbered_pages_def ex_limited_def max_def)

theorem await_reply_ends_witness:
  "\<exists>r w'. awaitReply ex_limited \<lparr>t_API = None, t_Token = ''token'', t_Poll = 0\<rparr> ''owner'' ''repo'' 1 1 0 = Some (r, w') \<and>
     w' \<le> 100 * Second + 4"
  using await_reply_ends [OF ex_limited_contracts(1,3,4), of "\<lparr>t_API = None, t_Token = ''token'', t_Poll = 0\<rparr>" "''owner''" "''repo''" 1 0]
  by (simp add: ex_limited_def Second_def)

subsection \<open>One exchange\<close>

lemma issueTarget_parts:
  assumes "issueTarget u = Inr (owner, repo)"
  shows "owner = url_Host u \<and> owner \<noteq> [] \<and> repo \<noteq> [] \<and> CHR ''/'' \<notin> set repo"
proof -
  let ?r = "Trim (url_Path u) ''/''"
  have r: "owner = url_Host u" "owner \<noteq> []" "repo \<noteq> []"
    "repo = (case Index ?r ''/'' of Some i \<Rightarrow> take i ?r | None \<Rightarrow> ?r)"
    using assms by (simp_all add: issueTarget_def Let_def split: if_splits)
  moreover have "CHR ''/'' \<notin> set repo"
    using r(4) Index_char_None [of ?r "CHR ''/''"] Index_char_Some [of ?r "CHR ''/''"] by (auto split: option.splits)
  ultimately show ?thesis by blast
qed

lemma apiRoot_slash: "HasSuffix (url_Path (apiRoot E t)) ''/''"
  by (simp add: apiRoot_def Let_def)

text \<open>The request as it travels: addressed to the witness's path alone, with the length of its body.\<close>

definition carried :: "http_request \<Rightarrow> string \<Rightarrow> http_request" where
  "carried req body =
     req\<lparr>r_URL := \<lparr>url_Scheme = [], url_Host = [], url_Path = AddCheckpointPath\<rparr>, r_Host := MessageHost,
         r_Body := Inr body, r_ContentLength := length body, r_Header := Header_Set (r_Header req) ''User-Agent'' []\<rparr>"

lemma issueRequest_carried:
  "r_Body req = Inr body \<Longrightarrow> issueRequest E req =
     rbind (originFromAddCheckpoint body) (\<lambda>origin.
       rbind (MarshalMessage (ie_Write E (carried req body))) (\<lambda>message. Inr (message, origin)))"
  by (simp add: issueRequest_def rwrap_def rbind_def carried_def Let_def)

text \<open>What happened once an issue with the message was asked for.\<close>

definition exchanged ::
    "('w, 'resp) issue_env \<Rightarrow> transport \<Rightarrow> nat \<Rightarrow> http_request \<Rightarrow> string \<Rightarrow> string \<Rightarrow> string \<Rightarrow> string \<Rightarrow> 'w \<Rightarrow> 'resp res
     \<Rightarrow> 'w \<Rightarrow> bool"
where
  "exchanged E t fuel req owner repo origin message w r w' \<longleftrightarrow>
     HasSuffix (url_Path (gh_BaseURL (github E t))) ''/'' \<and> gh_Token (github E t) = t_Token t \<and>
     (case ie_Create E (github E t) owner repo (''checkpoint: '' @ origin) (fence message) w of
        (Inl _, w1) \<Rightarrow> (\<exists>e. r = Inl e) \<and> w' = w1
      | (Inr number, w1) \<Rightarrow>
          (\<exists>reply. awaitReply E t owner repo number fuel w1 = Some (reply, w') \<and>
             (case reply of Inl _ \<Rightarrow> \<exists>e. r = Inl e
              | Inr m \<Rightarrow> listed_reply E t owner repo number fuel m \<and> r = ie_ReadResponse E m req)))"

lemma RoundTrip_exchanged:
  assumes c: "clock_contract E deadline" "pages_contract E fuel"
    and t: "issueTarget (r_URL req) = Inr (owner, repo)" and q: "issueRequest E req = Inr (message, origin)"
  shows "\<exists>r w'. RoundTrip E t fuel req w = Some (r, w') \<and> exchanged E t fuel req owner repo origin message w r w'"
proof -
  let ?c = "github E t"
  have g: "HasSuffix (url_Path (gh_BaseURL ?c)) ''/''" "gh_Token ?c = t_Token t"
    unfolding github_def github_client.simps by (rule apiRoot_slash, rule refl)
  obtain x w1 where x: "ie_Create E ?c owner repo (''checkpoint: '' @ origin) (fence message) w = (x, w1)" by force
  have ce: "createIssue E t owner repo (''checkpoint: '' @ origin) (fence message) w =
      (rwrap ''creating issue on %s/%s: %w'' [FStr owner, FStr repo] x, w1)"
    unfolding createIssue_def ewrap_def x prod.case ..
  note rt = RoundTrip_def [of E t fuel req w, unfolded t q sum.case prod.case ce]
  show ?thesis
  proof (cases x)
    case (Inl e)
    have "RoundTrip E t fuel req w = Some (Inl (wrap_err ''creating issue on %s/%s: %w'' [FStr owner, FStr repo] e), w1)"
      unfolding rt Inl rwrap_def sum.case ..
    moreover have "exchanged E t fuel req owner repo origin message w (Inl e') w1" for e'
      unfolding exchanged_def x Inl using g by simp
    ultimately show ?thesis by blast
  next
    case (Inr number)
    obtain reply w' where a: "awaitReply E t owner repo number fuel w1 = Some (reply, w')"
      using awaitReply_terminates [OF c] by blast
    let ?r = "case reply of Inl err \<Rightarrow> Inl (wrap_err ''%s://%s/%s#%d: %w''
        [FStr IssueScheme, FStr owner, FStr repo, FInt number] err) | Inr m \<Rightarrow> ie_ReadResponse E m req"
    have "RoundTrip E t fuel req w = Some (?r, w')"
      unfolding rt Inr rwrap_def sum.case a option.case prod.case by (cases reply) simp_all
    moreover have "listed_reply E t owner repo number fuel m" if "reply = Inr m" for m
      using awaitReply_listed [OF a] that by simp
    then have "exchanged E t fuel req owner repo origin message w ?r w'"
      unfolding exchanged_def x Inr prod.case sum.case using g a by (simp split: sum.split)
    ultimately show ?thesis by blast
  qed
qed

text \<open>
  C37: One exchange over an issue. It ends, and a request to a URL that names no owner and repository,
  whose body names no origin, or whose written form has a carriage return of its own, fails and
  reaches nobody. Any other opens one issue, on the repository the URL names, with the client's
  token, titled by the origin of the request and holding, in a fence, the request as it travels:
  for the witness's path alone, with the length of its body. Then it returns an error, or the
  response parsed from the first fence among all the comments listed on that issue.
\<close>

theorem issue_exchange:
  assumes "clock_contract E deadline" "pages_contract E fuel" "r_Body req = Inr body"
  shows "\<exists>r w'. RoundTrip E t fuel req w = Some (r, w') \<and>
    (case (issueTarget (r_URL req), originFromAddCheckpoint body, MarshalMessage (ie_Write E (carried req body))) of
       (Inr (owner, repo), Inr origin, Inr message) \<Rightarrow>
         owner = url_Host (r_URL req) \<and> owner \<noteq> [] \<and> repo \<noteq> [] \<and> CHR ''/'' \<notin> set repo \<and>
         exchanged E t fuel req owner repo origin message w r w'
     | _ \<Rightarrow> (\<exists>e. r = Inl e) \<and> w' = w)"
proof (cases "issueTarget (r_URL req)")
  case (Inl e)
  then show ?thesis by (simp add: RoundTrip_def)
next
  case target: (Inr a)
  obtain owner repo where a: "a = (owner, repo)" by force
  note target = target [unfolded a] and parts = issueTarget_parts [OF target [unfolded a]]
  note q = issueRequest_carried [OF assms(3), of E]
  show ?thesis
  proof (cases "originFromAddCheckpoint body")
    case (Inl e)
    with target q show ?thesis by (simp add: RoundTrip_def)
  next
    case o: (Inr origin)
    show ?thesis
    proof (cases "MarshalMessage (ie_Write E (carried req body))")
      case (Inl e)
      with target o q show ?thesis by (simp add: RoundTrip_def)
    next
      case (Inr message)
      with o q have "issueRequest E req = Inr (message, origin)" by simp
      from RoundTrip_exchanged [OF assms(1,2) target this] parts
      show ?thesis unfolding target o Inr prod.case sum.case by blast
    qed
  qed
qed

definition ex_request :: http_request where
  "ex_request = \<lparr>r_URL = \<lparr>url_Scheme = IssueScheme, url_Host = ''owner'', url_Path = ''/witness/x''\<rparr>, r_Host = [],
     r_Header = [], r_Body = Inr (''old 0'' @ [nl, nl] @ ''log'' @ [nl] @ ''1'' @ [nl]), r_ContentLength = 0\<rparr>"

theorem issue_exchange_witness:
  "\<exists>r w'. RoundTrip ex_limited \<lparr>t_API = None, t_Token = ''token'', t_Poll = 0\<rparr> 1 ex_request 0 = Some (r, w') \<and>
     exchanged ex_limited \<lparr>t_API = None, t_Token = ''token'', t_Poll = 0\<rparr> 1 ex_request ''owner'' ''witness'' ''log'' [] 0 r w'"
proof -
  have o: "originFromAddCheckpoint (''old 0'' @ [nl, nl] @ ''log'' @ [nl] @ ''1'' @ [nl]) = Inr ''log''" by code_simp
  have t: "issueTarget (r_URL ex_request) = Inr (''owner'', ''witness'')" unfolding ex_request_def by code_simp
  have b: "r_Body ex_request = Inr (''old 0'' @ [nl, nl] @ ''log'' @ [nl] @ ''1'' @ [nl])" by (simp add: ex_request_def)
  have m: "MarshalMessage (ie_Write ex_limited (carried ex_request body)) = Inr []" for body
    by (simp add: ex_limited_def MarshalMessage_Inr_iff)
  from issue_exchange [OF ex_limited_contracts(1,2) b, where t = "\<lparr>t_API = None, t_Token = ''token'', t_Poll = 0\<rparr>" and w = 0]
  show ?thesis unfolding t o m prod.case sum.case by blast
qed

subsection \<open>The state file\<close>

text \<open>
  C39: The witness's state. \<^verbatim>\<open>Update\<close> leaves in the state file what it held, or exactly what the
  witness computed from it: an update that fails, at whatever step, leaves the old checkpoint,
  and one that succeeds worked on a checkpoint of the origin asked about.
\<close>

theorem state_update_atomic:
  assumes "fs_contract F files" "\<forall>v w. files (snd (f v w)) path = files w path"
  shows "case Update F path origin f w of
      (Inl _, w') \<Rightarrow> held_in files path w' = held_in files path w
    | (Inr _, w') \<Rightarrow> serves_origin (held_in files path w) origin \<and>
        installed (held_in files path w) (fst (f (held_in files path w) w)) (held_in files path w')"
proof -
  have f: "\<And>v w. held_in files path (snd (f v w)) = held_in files path w"
    using assms(2) held_in_files [of files _ path] by blast
  obtain r w' where u: "Update F path origin f w = (r, w')" by fastforce
  show ?thesis
  proof (cases r)
    case (Inl e)
    with u have "Update F path origin f w = (Inl e, w')" by simp
    from file_state.update_fails [where f = f, OF assms(1) f this] show ?thesis unfolding u Inl by simp
  next
    case (Inr x)
    with u have "Update F path origin f w = (Inr (), w')" by simp
    from file_state.update_ok [where f = f, OF assms(1) f this] show ?thesis unfolding u Inr by simp
  qed
qed

text \<open>A file system that is a map from paths to contents.\<close>

definition ex_fs :: "(string \<rightharpoonup> string) fs" where
  "ex_fs =
     \<lparr>fs_ReadFile = (\<lambda>p w. case w p of None \<Rightarrow> (Inl (NotExist p), w) | Some d \<Rightarrow> (Inr d, w)),
      fs_MkdirAll = (\<lambda>d. eret ()), fs_WriteFile = (\<lambda>p d w. (Inr (), w(p \<mapsto> d))),
      fs_Rename = (\<lambda>a b w. case w a of None \<Rightarrow> (Inl (NotExist a), w) | Some d \<Rightarrow> (Inr (), w(b := w a, a := None))),
      fs_Dir = (\<lambda>p. ''dir'')\<rparr>"

lemma ex_fs_contract: "fs_contract ex_fs (\<lambda>w. w)"
  unfolding fs_contract_def by (auto simp: ex_fs_def eret_def split: option.splits)

definition ex_step :: "string option \<Rightarrow> (string \<rightharpoonup> string, string option) io" where
  "ex_step v = eret (Some (''log'' @ [nl] @ (case v of Some d \<Rightarrow> d | None \<Rightarrow> [])))"

lemma ex_step_result: "fst (ex_step (Some d) w) = Inr (Some (''log'' @ [nl] @ d))"
  by (simp add: ex_step_def eret_def)

definition ex_stored :: "string \<rightharpoonup> string" where
  "ex_stored = Map.empty(''st'' \<mapsto> ''log'' @ [nl] @ ''7'')"

lemma ex_step_pure: "\<forall>v w. (\<lambda>w. w) (snd (ex_step v w)) ''st'' = (\<lambda>w. w) w ''st''"
  by (simp add: ex_step_def eret_def)

lemma ex_held: "held_in (\<lambda>w. w) ''st'' ex_stored = Some (''log'' @ [nl] @ ''7'')"
  by (simp add: held_in_def ex_stored_def)

theorem state_update_atomic_witness:
  "case Update ex_fs ''st'' ''log'' ex_step ex_stored of
     (Inl _, w') \<Rightarrow> held_in (\<lambda>w. w) ''st'' w' = Some (''log'' @ [nl] @ ''7'')
   | (Inr _, w') \<Rightarrow> held_in (\<lambda>w. w) ''st'' w' = Some (''log'' @ [nl] @ ''log'' @ [nl] @ ''7'')"
  using state_update_atomic [where origin = "''log''" and w = ex_stored, OF ex_fs_contract ex_step_pure]
  unfolding ex_held ex_step_result by (auto simp: installed_def split: prod.splits sum.splits)

text \<open>
  The witness's ratchet. For any order on checkpoints that the witness respects in every
  step it takes, the state file moves only upwards in that order, whether updates succeed or
  fail: a witness that never signs a smaller tree never stores one.
\<close>

theorem state_monotone:
  assumes "fs_contract F files" "\<forall>v w. files (snd (f v w)) path = files w path" "\<forall>x. le x x"
    and "\<forall>v w data. fst (f v w) = Inr (Some data) \<longrightarrow> data \<noteq> [] \<and> le v (Some data)"
  shows "le (held_in files path w) (held_in files path (snd (Update F path origin f w)))"
proof -
  have f: "\<And>v w. held_in files path (snd (f v w)) = held_in files path w"
    using assms(2) held_in_files [of files _ path] by blast
  have R: "\<And>x. le x x" and step: "\<And>v w data. fst (f v w) = Inr (Some data) \<Longrightarrow> data \<noteq> [] \<and> le v (Some data)"
    using assms(3,4) by blast+
  obtain r w' where u: "Update F path origin f w = (r, w')" by fastforce
  from file_state.update_monotone [where f = f and R = le, OF assms(1) f R step u] show ?thesis by (simp add: u)
qed

definition ex_shorter :: "string option \<Rightarrow> string option \<Rightarrow> bool" where
  "ex_shorter a b \<longleftrightarrow> length (case a of Some d \<Rightarrow> d | None \<Rightarrow> []) \<le> length (case b of Some d \<Rightarrow> d | None \<Rightarrow> [])"

theorem state_monotone_witness:
  "ex_shorter (Some (''log'' @ [nl] @ ''7'')) (held_in (\<lambda>w. w) ''st'' (snd (Update ex_fs ''st'' ''log'' ex_step ex_stored)))"
proof -
  have "\<forall>x. ex_shorter x x" "\<forall>v w data. fst (ex_step v w) = Inr (Some data) \<longrightarrow> data \<noteq> [] \<and> ex_shorter v (Some data)"
    by (simp_all add: ex_shorter_def ex_step_def eret_def split: option.splits)
  from state_monotone [where le = ex_shorter, OF ex_fs_contract ex_step_pure this, of ex_stored "''log''"]
  show ?thesis unfolding ex_held .
qed

subsection \<open>Trusted origins\<close>

text \<open>The lines of the file that hold keys, and the table they build.\<close>

definition key_lines :: "string list \<Rightarrow> string list" where
  "key_lines ls = filter (\<lambda>l. l \<noteq> [] \<and> \<not> HasPrefix l ''#'') (map (\<lambda>l. TrimSpace (drop_cr l)) ls)"

definition key_entry :: "'w crypto \<Rightarrow> string \<Rightarrow> string \<times> cosignOriginKey" where
  "key_entry C l = (case projr (ParseVKey C l) of
     (name, t, p) \<Rightarrow> (name, \<lparr>ok_vkey = l, ok_pub = p, ok_sigType = t\<rparr>))"

lemma key_lines_simps [simp]:
  "key_lines [] = []"
  "key_lines (l # ls) = (if TrimSpace (drop_cr l) = [] \<or> HasPrefix (TrimSpace (drop_cr l)) ''#'' then key_lines ls
     else TrimSpace (drop_cr l) # key_lines ls)"
  by (simp_all add: key_lines_def)

lemma read_origins_decided:
  "read_origins C acc ls = Inr tr \<longleftrightarrow> (\<forall>l\<in>set ls. length l < max_token) \<and>
     (\<forall>l\<in>set (key_lines ls). \<exists>v. ParseVKey C l = Inr v) \<and>
     tr = fold (\<lambda>l. case_prod AList.update (key_entry C l)) (key_lines ls) acc"
proof (induction C acc ls rule: read_origins.induct)
  case (2 C acc l ls)
  let ?line = "TrimSpace (drop_cr l)"
  consider "max_token \<le> length l" | "length l < max_token" "?line = [] \<or> HasPrefix ?line ''#''"
    | "length l < max_token" "\<not> (?line = [] \<or> HasPrefix ?line ''#'')" by linarith
  then show ?case
  proof cases
    case 2
    with "2.IH"(1) [OF _ refl] show ?thesis by (auto simp: Let_def)
  next
    case 3
    show ?thesis
    proof (cases "ParseVKey C ?line")
      case (Inl e)
      with 3 show ?thesis by (auto simp: Let_def)
    next
      case (Inr v)
      obtain name t p where v: "v = (name, t, p)" by (cases v) 
      with 3 Inr "2.IH"(2) [OF _ refl 3(2) _ refl, of name "(t, p)" t p] show ?thesis
        by (auto simp: Let_def key_entry_def)
    qed
  qed auto
qed (auto)

lemma fold_update_keys:
  "distinct (map fst acc) \<Longrightarrow> distinct (map fst (fold (\<lambda>l. case_prod AList.update (g l)) ls acc))"
  by (induction ls arbitrary: acc) (auto simp: distinct_update split: prod.split)

lemma fold_update_dom:
  "dom (map_of (fold (\<lambda>l. case_prod AList.update (g l)) ls acc)) = dom (map_of acc) \<union> fst ` g ` set ls"
  by (induction ls arbitrary: acc) (auto simp: update_conv' split: prod.split)

lemma fold_update_mem:
  "map_of (fold (\<lambda>l. case_prod AList.update (g l)) ls acc) x = Some k \<Longrightarrow> map_of acc x = Some k \<or> (x, k) \<in> g ` set ls"
proof (induction ls arbitrary: acc)
  case (Cons l ls)
  obtain n v where g: "g l = (n, v)" by force
  from Cons.prems have "map_of (fold (\<lambda>l. case_prod AList.update (g l)) ls (AList.update n v acc)) x = Some k" by (simp add: g)
  from Cons.IH [OF this] g show ?case by (auto simp: update_conv' split: if_splits)
qed simp

text \<open>
  C40: Trusted origins. What is read from the file is a table with one key per origin name; each
  key is a line of the file, without surrounding space, and parses as a verifier key of that very
  name, and every line that is neither blank nor a comment put its name in the table. One line
  that does not parse, or does not fit the scanner's buffer, makes the whole file unusable.
\<close>

theorem trusted_origins_decided:
  "case read_origins C [] ls of
     Inr tr \<Rightarrow> (\<forall>l\<in>set ls. length l < max_token) \<and> distinct (map fst tr) \<and>
       (\<forall>(name, k)\<in>set tr. ok_vkey k \<in> set (key_lines ls) \<and> ParseVKey C (ok_vkey k) = Inr (name, ok_sigType k, ok_pub k)) \<and>
       (\<forall>l\<in>set (key_lines ls). \<exists>name t p. ParseVKey C l = Inr (name, t, p) \<and> name \<in> fst ` set tr)
   | Inl e \<Rightarrow> (\<exists>l\<in>set ls. max_token \<le> length l) \<or> (\<exists>l\<in>set (key_lines ls). \<exists>e. ParseVKey C l = Inl e)"
proof (cases "read_origins C [] ls")
  case (Inl e)
  have "\<not> ((\<forall>l\<in>set ls. length l < max_token) \<and> (\<forall>l\<in>set (key_lines ls). \<exists>v. ParseVKey C l = Inr v))"
  proof
    assume "(\<forall>l\<in>set ls. length l < max_token) \<and> (\<forall>l\<in>set (key_lines ls). \<exists>v. ParseVKey C l = Inr v)"
    then have "\<exists>tr. read_origins C [] ls = Inr tr" unfolding read_origins_decided by blast
    with Inl show False by simp
  qed
  then have "(\<exists>l\<in>set ls. max_token \<le> length l) \<or> (\<exists>l\<in>set (key_lines ls). \<exists>e. ParseVKey C l = Inl e)"
    by (meson not_le_imp_less sum.exhaust)
  then show ?thesis by (simp add: Inl)
next
  case (Inr tr)
  note R = this [unfolded read_origins_decided]
  let ?g = "key_entry C"
  have tr: "tr = fold (\<lambda>l. case_prod AList.update (?g l)) (key_lines ls) []" using R by blast
  have d: "distinct (map fst tr)" unfolding tr by (rule fold_update_keys) simp
  have sound: "ok_vkey k \<in> set (key_lines ls) \<and> ParseVKey C (ok_vkey k) = Inr (name, ok_sigType k, ok_pub k)"
    if "(name, k) \<in> set tr" for name k
  proof -
    from that d have "map_of tr name = Some k" by simp
    then have "(name, k) \<in> ?g ` set (key_lines ls)" using fold_update_mem [of ?g "key_lines ls" "[]"] unfolding tr by force
    then obtain l where l: "l \<in> set (key_lines ls)" "(name, k) = ?g l" by blast
    moreover from R l(1) obtain n t p where "ParseVKey C l = Inr (n, t, p)" by (metis prod_cases3)
    ultimately show ?thesis by (auto simp: key_entry_def)
  qed
  have complete: "\<exists>name t p. ParseVKey C l = Inr (name, t, p) \<and> name \<in> fst ` set tr" if "l \<in> set (key_lines ls)" for l
  proof -
    from R that obtain n t p where p: "ParseVKey C l = Inr (n, t, p)" by (metis prod_cases3)
    have "fst (?g l) \<in> dom (map_of tr)" unfolding tr fold_update_dom using that by blast
    with p show ?thesis by (auto simp: key_entry_def dom_map_of_conv_image_fst)
  qed
  show ?thesis unfolding Inr sum.case using R d sound complete by blast
qed

definition ex_vkey :: string where
  "ex_vkey = ''log+0+AWtra2tra2tra2tra2tra2tra2tra2tra2tra2tra2tr''"

lemma ex_vkey_parses: "ParseVKey (ex_crypto :: unit crypto) ex_vkey = Inr (''log'', Ed25519Origin, EdPub (replicate 32 (CHR ''k'')))"
  unfolding ParseVKey_def ex_vkey_def by code_simp

lemma ex_vkey_trimmed: "TrimSpace (drop_cr ex_vkey) = ex_vkey" "TrimSpace (drop_cr ''# keys'') = ''# keys''"
  "TrimSpace (drop_cr ''log'') = ''log''" "TrimSpace (drop_cr []) = []"
  unfolding ex_vkey_def by code_simp+

theorem trusted_origins_decided_witness:
  "(case read_origins (ex_crypto :: unit crypto) [] [''# keys'', [], ex_vkey] of
      Inr tr \<Rightarrow> ''log'' \<in> fst ` set tr | Inl _ \<Rightarrow> False) \<and>
   (case read_origins (ex_crypto :: unit crypto) [] [''# keys'', ex_vkey, ''log''] of Inr _ \<Rightarrow> False | Inl _ \<Rightarrow> True)"
proof -
  have v: "ex_vkey \<noteq> []" "\<not> prefix ''#'' ex_vkey" "length ex_vkey < max_token"
    by (simp_all add: ex_vkey_def max_token_def)
  then have k: "key_lines [''# keys'', [], ex_vkey] = [ex_vkey]" "key_lines [''# keys'', ex_vkey, ''log''] = [ex_vkey, ''log'']"
    by (simp_all add: ex_vkey_trimmed)
  have "length (SplitN ''log'' (CHR ''+'') 3) \<noteq> 3" by code_simp
  then have "\<exists>e. ParseVKey (ex_crypto :: unit crypto) ''log'' = Inl e" unfolding ParseVKey_def Let_def by simp
  then show ?thesis
    using trusted_origins_decided [of "[''# keys'', [], ex_vkey]" "ex_crypto :: unit crypto"]
      trusted_origins_decided [of "[''# keys'', ex_vkey, ''log'']" "ex_crypto :: unit crypto"] v(3)
    unfolding k by (auto simp: ex_vkey_parses max_token_def split: sum.splits)
qed

end
