(* ===== verification/Cosign_Action.thy ===== *)
theory Cosign_Action
  imports Issue_Transport Cosign_Cmd
begin

section \<open>The witness as a workflow (\<^verbatim>\<open>actions/cosign/action.yml\<close>)\<close>

text \<open>
  The scripts around the \<^verbatim>\<open>cosign\<close> command: the issue is parsed, the origin checked, the
  command run on files of the runner, the state committed and the answer posted as a comment.
  The runner's file system is an \<open>fs\<close>; testing for a file, removing one and pushing the commit
  are fields of \<open>runner\<close>. A step that fails ends the run: the comment posted then holds no
  fence, and the result here is the error. The permissions of the key file are not modelled, and
  the transport of the request between steps, base64 and back, is the identity.
\<close>

record 'w runner =
  ru_Temp :: string
  ru_Key :: string
  ru_Exists :: "string \<Rightarrow> 'w \<Rightarrow> bool"
  ru_Remove :: "string \<Rightarrow> ('w, unit) io"
  ru_Commit :: "string \<Rightarrow> ('w, unit) io"

subsection \<open>Parse issue\<close>

text \<open>JavaScript's \<^verbatim>\<open>split\<close>; its regular expression is the one of \<open>httpFence_FindStringSubmatch\<close>.\<close>

function js_split :: "string \<Rightarrow> string \<Rightarrow> string list" where
  "js_split sep s =
     (case (if sep = [] then None else Index s sep) of
        None \<Rightarrow> [s]
      | Some i \<Rightarrow> take i s # js_split sep (drop (i + length sep) s))"
  by pat_completeness auto
termination
proof (relation "measure (\<lambda>(sep, s). length s)")
  fix sep s :: string and i
  assume "(if sep = [] then None else Index s sep) = Some i"
  then have "sep \<noteq> []" "prefix sep (drop i s)" by (simp_all add: Index_Some_prefix split: if_splits)
  then have "0 < length sep" "length sep \<le> length (drop i s)" using prefix_length_le by blast+
  then have "length s - (i + length sep) < length s" unfolding length_drop by linarith
  then show "((sep, drop (i + length sep) s), sep, s) \<in> measure (\<lambda>(sep, s). length s)" by simp
qed simp

declare js_split.simps [simp del]

definition parse_issue :: "string \<Rightarrow> (string \<times> string) res" where
  "parse_issue body =
     (case httpFence_FindStringSubmatch body of
        None \<Rightarrow> Inl (Errorf ''No http block found in issue body'' [])
      | Some request \<Rightarrow>
          let httpBody = Join (drop 1 (js_split [nl, nl] request)) [nl, nl];
              note = Join (drop 1 (js_split [nl, nl] httpBody)) [nl, nl];
              origin = js_split [nl] note ! 0
          in if origin = [] then Inl (Errorf ''Could not read an origin from the request'' [])
             else Inr (request, origin))"

subsection \<open>Post response to issue\<close>

text \<open>
  Command substitution drops NUL bytes and the newlines at the end; \<^verbatim>\<open>printf\<close> puts one newline
  before the closing fence.
\<close>

definition shell_subst :: "string \<Rightarrow> string" where
  "shell_subst out = TrimRight (filter (\<lambda>c. c \<noteq> CHR 0x00) out) [nl]"

definition post_response :: "string \<Rightarrow> string" where
  "post_response out = fence_open @ shell_subst out @ [nl] @ ticks"

subsection \<open>The run\<close>

definition cosign_command :: "'w runner \<Rightarrow> string \<Rightarrow> string list" where
  "cosign_command R origin =
     [''--request'', ru_Temp R @ ''/request.txt'', ''--origin-vkeys'', ''origins/'' @ origin,
      ''--stored-checkpoint'', ''checkpoints/'' @ origin, ''--key'', ru_Temp R @ ''/witness.vkey'']"

definition action_run ::
    "'w crypto \<Rightarrow> ('w, 'req, 'v) witness_lib \<Rightarrow> 'w fs \<Rightarrow> 'w formats \<Rightarrow> 'w runner \<Rightarrow> string \<Rightarrow> ('w, string) io"
where
  "action_run C TW F FM R body =
     ebind (elift (parse_issue body)) (\<lambda>(request, origin) w.
       if \<not> ru_Exists R (''origins/'' @ origin) w then
         (Inl (Errorf ''Origin %s is not registered'' [FStr origin]), w)
       else
         ebind (fs_WriteFile F (ru_Temp R @ ''/request.txt'') request) (\<lambda>_.
         ebind (fs_WriteFile F (ru_Temp R @ ''/witness.vkey'') (ru_Key R @ [nl])) (\<lambda>_.
         ebind (cosign_args C TW F FM (cosign_command R origin)) (\<lambda>out.
         ebind (fs_WriteFile F (ru_Temp R @ ''/response.txt'') out) (\<lambda>_.
         ebind (ru_Remove R (ru_Temp R @ ''/witness.vkey'')) (\<lambda>_.
         ebind (ru_Commit R (''checkpoints/'' @ origin)) (\<lambda>_.
         ebind (fs_ReadFile F (ru_Temp R @ ''/response.txt'')) (\<lambda>printed.
         eret (post_response printed)))))))) w)"

subsection \<open>What the issue holds\<close>

lemma js_split_Cut: "sep \<noteq> [] \<Longrightarrow> Cut s sep = (a, b, True) \<Longrightarrow> js_split sep s = a # js_split sep b"
  by (subst js_split.simps) (auto simp: Cut_def split: option.splits)

lemma js_split_nonempty: "js_split sep s \<noteq> []"
  by (subst js_split.simps) (simp split: option.split)

lemma js_split_head: "sep \<noteq> [] \<Longrightarrow> js_split sep s ! 0 = fst (Cut s sep)"
  by (subst js_split.simps) (simp add: Cut_def split: option.split)

lemma Join_js_split: "sep \<noteq> [] \<Longrightarrow> Join (js_split sep s) sep = s"
proof (induction sep s rule: js_split.induct)
  case (1 sep s)
  show ?case
  proof (cases "Index s sep")
    case None
    then show ?thesis by (subst js_split.simps) simp
  next
    case (Some i)
    with 1 have IH: "Join (js_split sep (drop (i + length sep) s)) sep = drop (i + length sep) s" by simp
    from Index_Some_prefix [OF Some] have "drop i s = sep @ drop (length sep) (drop i s)"
      by (metis append_eq_conv_conj prefix_def)
    then have "s = take i s @ sep @ drop (i + length sep) s"
      by (metis add.commute append_take_drop_id drop_drop)
    with Some 1(2) IH show ?thesis
      by (subst js_split.simps) (simp add: Join_Cons js_split_nonempty)
  qed
qed

lemma after_first: "Cut s [nl, nl] = (a, b, True) \<Longrightarrow> Join (drop 1 (js_split [nl, nl] s)) [nl, nl] = b"
  using js_split_Cut [of "[nl, nl]" s a b] Join_js_split [of "[nl, nl]" b] by simp

text \<open>A message's body starts after the first empty line.\<close>

lemma Cut_unframed:
  assumes "hdrs \<noteq> []" "\<forall>l\<in>set hdrs. l \<noteq> [] \<and> nl \<notin> set l"
  shows "\<exists>h. Cut (unframed hdrs body) [nl, nl] = (h, body, True)"
proof -
  obtain h where h: "concat (map (\<lambda>l. l @ [nl]) hdrs) = h @ [nl]"
    using assms(1) by (cases hdrs rule: rev_cases) auto
  have "\<not> sublist [nl, nl] (h @ [nl])" using no_empty_line [OF assms(2)] by (simp only: h not_False_eq_True)
  from Index_blank_line [OF this] have "Index (unframed hdrs body) [nl, nl] = Some (length h)"
    by (simp add: unframed_def h)
  moreover have "unframed hdrs body = h @ [nl, nl] @ body" by (simp add: unframed_def h)
  ultimately show ?thesis by (simp add: Cut_def)
qed

text \<open>The origin the workflow reads is the one that the client read, and titled the issue with.\<close>

lemma parse_issue_fence:
  assumes "hdrs \<noteq> []" "\<forall>l\<in>set hdrs. l \<noteq> [] \<and> nl \<notin> set l" "\<not> sublist ticks (unframed hdrs body @ butlast ticks)"
    and "originFromAddCheckpoint body = Inr origin"
  shows "parse_issue (fence (unframed hdrs body)) = Inr (unframed hdrs body, origin)"
proof -
  obtain p cp where b: "Cut body [nl, nl] = (p, cp, True)" and o: "fst (Cut cp [nl]) = origin" "origin \<noteq> []"
    using assms(4) by (auto simp: originFromAddCheckpoint_def split: prod.splits if_splits)
  obtain h where h: "Cut (unframed hdrs body) [nl, nl] = (h, body, True)" using Cut_unframed [OF assms(1,2)] by blast
  have "httpFence_FindStringSubmatch (fence (unframed hdrs body)) = Some (unframed hdrs body)"
    using fence_match [of "[]" "unframed hdrs body" "[]"] assms(3) by (simp add: fence_open_def ticks_def sublist_code)
  moreover have "js_split [nl] cp ! 0 = origin" using o(1) by (simp add: js_split_head)
  ultimately show ?thesis unfolding parse_issue_def
    by (simp only: option.case after_first [OF h] after_first [OF b] Let_def o(2) if_False)
qed

subsection \<open>What the comment holds\<close>

text \<open>An answer read back from the comment: its newlines at the end are replaced by one.\<close>

lemma post_response_fence: "post_response out = fence (shell_subst out @ [nl])"
  by (simp add: post_response_def fence_def)

lemma shell_subst_plain: "CHR 0x00 \<notin> set out \<Longrightarrow> shell_subst out = TrimRight out [nl]"
  unfolding shell_subst_def by (rule arg_cong [of _ _ "\<lambda>s. TrimRight s [nl]"]) (auto simp: filter_id_conv)

lemma TrimRight_snoc [simp]: "TrimRight (s @ [c]) [c] = TrimRight s [c]"
  by (simp add: TrimRight_def)

lemma TrimRight_prefix: "\<exists>n. s = TrimRight s [c] @ replicate n c"
proof (induction s rule: rev_induct)
  case (snoc x s)
  show ?case
  proof (cases "x = c")
    case True
    from snoc obtain n where "s = TrimRight s [c] @ replicate n c" ..
    then have "s @ [x] = TrimRight (s @ [x]) [c] @ replicate (Suc n) c"
      using True by (simp add: replicate_append_same [symmetric])
    then show ?thesis ..
  next
    case False
    then have "TrimRight (s @ [x]) [c] = s @ [x]" by (simp add: TrimRight_last)
    then show ?thesis by (intro exI [of _ 0]) simp
  qed
qed (simp add: TrimRight_def)

subsection \<open>What the run does\<close>

text \<open>Removing a file leaves the others, and committing leaves all.\<close>

definition runner_contract :: "'w runner \<Rightarrow> ('w \<Rightarrow> string \<rightharpoonup> string) \<Rightarrow> bool" where
  "runner_contract R files \<longleftrightarrow>
     (\<forall>p q w. q \<noteq> p \<longrightarrow> files (snd (ru_Remove R p w)) q = files w q) \<and>
     (\<forall>p w. files (snd (ru_Commit R p w)) = files w)"

text \<open>
  The witness answers \<open>request\<close> in the state \<open>w\<close>: with the key of the runner and the origins of
  the file for \<open>origin\<close>, on the state file for \<open>origin\<close>.
\<close>

definition witness_answers ::
    "'w crypto \<Rightarrow> ('w, 'req, 'v) witness_lib \<Rightarrow> 'w fs \<Rightarrow> 'w formats \<Rightarrow> ('w \<Rightarrow> string \<rightharpoonup> string) \<Rightarrow> string
     \<Rightarrow> string \<Rightarrow> string \<Rightarrow> string \<Rightarrow> 'w \<Rightarrow> bool" where
  "witness_answers C TW F FM files key request origin response w \<longleftrightarrow>
     (\<exists>signer keys trusted. ReadKeyData C (key @ [nl]) RoleCosigner = Inr signer \<and>
        files w (''origins/'' @ origin) = Some keys \<and> read_origins C [] (scan_lines keys) = Inr trusted \<and> trusted \<noteq> [] \<and>
        fst (answerAddCheckpoint TW F FM request signer trusted (''checkpoints/'' @ origin) w) = Inr response)"

lemma ReadFile_Inr: "fs_contract F files \<Longrightarrow> fs_ReadFile F p w = (Inr data, w') \<Longrightarrow> w' = w \<and> files w p = Some data"
  using fs_contractD(1) [where F = F and files = files and p = p and w = w] by simp

lemma cosign_command_flags:
  "cosign_args C TW F FM (cosign_command R origin) = cosign_main C TW F FM
     \<lparr>cf_request = ru_Temp R @ ''/request.txt'', cf_origin_vkeys = ''origins/'' @ origin,
      cf_stored_checkpoint = ''checkpoints/'' @ origin, cf_key = ru_Temp R @ ''/witness.vkey''\<rparr>"
proof -
  let ?fs = "[(Spelled 2 False, ''request'', ru_Temp R @ ''/request.txt''), (Spelled 2 False, ''origin-vkeys'', ''origins/'' @ origin),
      (Spelled 2 False, ''stored-checkpoint'', ''checkpoints/'' @ origin), (Spelled 2 False, ''key'', ru_Temp R @ ''/witness.vkey'')]"
  have c: "cosign_command R origin = command_args ?fs @ []"
    by (simp add: cosign_command_def command_args_def spelled_def numeral_2_eq_2)
  have "FlagSet_Parse (fst cosign_FlagSet) (snd cosign_FlagSet) (command_args ?fs @ []) =
      rbind (set_all (fst cosign_FlagSet) ?fs (snd cosign_FlagSet)) (\<lambda>c. Inr (c, []))"
    by (rule Parse_command_args)
      (simp_all add: flags_written_def spelling_ok_def cosign_FlagSet_def flag_set_defs flag_name_ok_def no_flag_def)
  also have "\<dots> = Inr (\<lparr>cf_request = ru_Temp R @ ''/request.txt'', cf_origin_vkeys = ''origins/'' @ origin,
      cf_stored_checkpoint = ''checkpoints/'' @ origin, cf_key = ru_Temp R @ ''/witness.vkey''\<rparr>, [])"
    by (simp add: cosign_FlagSet_def flag_set_defs flag_Set_def rwrap_def rbind_def)
  finally show ?thesis unfolding c cosign_args_def
    by (intro ext) (simp only: split_beta ebind_elift sum.case fst_conv)
qed

lemma cosign_main_Inr:
  assumes fs: "fs_contract F files" and m: "cosign_main C TW F FM c w = (Inr out, w')"
    and req: "files w (cf_request c) = Some request" and key: "files w (cf_key c) = Some k"
  shows "\<exists>signer keys trusted response. ReadKeyData C k RoleCosigner = Inr signer \<and>
     files w (cf_origin_vkeys c) = Some keys \<and> read_origins C [] (scan_lines keys) = Inr trusted \<and> trusted \<noteq> [] \<and>
     answerAddCheckpoint TW F FM request signer trusted (cf_stored_checkpoint c) w = (Inr response, w') \<and>
     out = response @ [nl]"
proof -
  from m have n: "cf_request c \<noteq> []" "cf_origin_vkeys c \<noteq> []" "cf_key c \<noteq> []"
    by (auto simp: cosign_main_def efail_def split: if_splits)
  note m' = m [unfolded cosign_main_def if_not_P [OF n(1)] if_not_P [OF n(2)] if_not_P [OF n(3)] ebind_Inr_iff ewrap_Inr]
  from m' obtain signer w1 where 1: "ReadKeyFile C (fs_ReadFile F) (cf_key c) RoleCosigner w = (Inr signer, w1)"
    and m1: "\<exists>trusted w2. readTrustedOriginsFile C F (cf_origin_vkeys c) w1 = (Inr trusted, w2) \<and>
      (if length trusted = 0 then efail (Errorf ''error: no trusted origins found in vkeys file'' [])
        else ebind (ewrap ''error: reading request file: %v'' [] (fs_ReadFile F (cf_request c))) (\<lambda>body.
          ebind (answerAddCheckpoint TW F FM body signer trusted (cf_stored_checkpoint c))
            (\<lambda>response. eret (response @ [nl])))) w2 = (Inr out, w')" by blast
  from 1 key have a: "w1 = w" "ReadKeyData C k RoleCosigner = Inr signer"
    using ReadFile_Inr [OF fs] by (auto simp: ReadKeyFile_def ebind_Inr_iff elift_def dest!: ReadFile_Inr [OF fs])
  from m1 obtain trusted w2 where 2: "readTrustedOriginsFile C F (cf_origin_vkeys c) w = (Inr trusted, w2)"
    and m2: "(if length trusted = 0 then efail (Errorf ''error: no trusted origins found in vkeys file'' [])
        else ebind (ewrap ''error: reading request file: %v'' [] (fs_ReadFile F (cf_request c))) (\<lambda>body.
          ebind (answerAddCheckpoint TW F FM body signer trusted (cf_stored_checkpoint c))
            (\<lambda>response. eret (response @ [nl])))) w2 = (Inr out, w')" unfolding a(1) by blast
  from 2 obtain keys where b: "w2 = w" "files w (cf_origin_vkeys c) = Some keys"
    "read_origins C [] (scan_lines keys) = Inr trusted"
    by (auto simp: readTrustedOriginsFile_def ebind_Inr_iff elift_def dest!: ReadFile_Inr [OF fs])
  from m2 have ne: "trusted \<noteq> []" by (auto simp: efail_def)
  then have "length trusted \<noteq> 0" by simp
  from m2 [unfolded if_not_P [OF this] b(1) ebind_Inr_iff ewrap_Inr]
  obtain body w3 response where "fs_ReadFile F (cf_request c) w = (Inr body, w3)"
    and 3: "answerAddCheckpoint TW F FM body signer trusted (cf_stored_checkpoint c) w3 = (Inr response, w')"
    and out: "out = response @ [nl]" by (auto simp: eret_def)
  with ReadFile_Inr [OF fs this(1)] req have "w3 = w" "body = request" by auto
  with a b ne 3 out show ?thesis by blast
qed

lemma action_run_Inr:
  assumes fs: "fs_contract F files" and R: "runner_contract R files"
    and run: "action_run C TW F FM R body w = (Inr comment, w')"
  shows "\<exists>request origin response w1. parse_issue body = Inr (request, origin) \<and>
     files w1 = (files w)(ru_Temp R @ ''/request.txt'' \<mapsto> request, ru_Temp R @ ''/witness.vkey'' \<mapsto> ru_Key R @ [nl]) \<and>
     witness_answers C TW F FM files (ru_Key R) request origin response w1 \<and>
     comment = post_response (response @ [nl])"
proof -
  let ?rq = "ru_Temp R @ ''/request.txt''" and ?k = "ru_Temp R @ ''/witness.vkey''" and ?rs = "ru_Temp R @ ''/response.txt''"
  obtain request origin where p: "parse_issue body = Inr (request, origin)"
    using run by (cases "parse_issue body") (auto simp: action_run_def ebind_elift)
  note run' = run [unfolded action_run_def p ebind_elift sum.case prod.case]
  have "ru_Exists R (''origins/'' @ origin) w" using run' by (auto split: if_splits)
  then have "\<not> \<not> ru_Exists R (''origins/'' @ origin) w" by simp
  note run' = run' [unfolded if_not_P [OF this] ebind_Inr_iff]
  from run' obtain w1 w2 w3 w4 w5 w6 out printed
    where 1: "fs_WriteFile F ?rq request w = (Inr (), w1)"
      and 2: "fs_WriteFile F ?k (ru_Key R @ [nl]) w1 = (Inr (), w2)"
      and 3: "cosign_args C TW F FM (cosign_command R origin) w2 = (Inr out, w3)"
      and 4: "fs_WriteFile F ?rs out w3 = (Inr (), w4)"
      and 5: "ru_Remove R ?k w4 = (Inr (), w5)"
      and 6: "ru_Commit R (''checkpoints/'' @ origin) w5 = (Inr (), w6)"
      and 7: "fs_ReadFile F ?rs w6 = (Inr printed, w')" and comment: "comment = post_response printed"
    by (auto simp: eret_def)
  have w: "files v' = (files v)(q \<mapsto> d)" if "fs_WriteFile F q d v = (Inr (), v')" for q d v v'
    using fs_contractD(3,4) [OF fs, where p = q and data = d and w = v] that by (auto simp: fun_eq_iff)
  have files: "files w2 = (files w)(?rq \<mapsto> request, ?k \<mapsto> ru_Key R @ [nl])"
    using w [OF 1] w [OF 2] by simp
  then have rq: "files w2 ?rq = Some request" and k: "files w2 ?k = Some (ru_Key R @ [nl])" by simp_all
  from cosign_main_Inr [OF fs 3 [unfolded cosign_command_flags], unfolded cosign_flags.simps, OF rq k]
  obtain response where a: "witness_answers C TW F FM files (ru_Key R) request origin response w2"
    and out: "out = response @ [nl]" unfolding witness_answers_def by fastforce
  have "?rs \<noteq> ?k" by simp
  then have "files (snd (ru_Remove R ?k w4)) ?rs = files w4 ?rs"
    by (rule R [unfolded runner_contract_def, THEN conjunct1, rule_format])
  moreover have "files (snd (ru_Commit R (''checkpoints/'' @ origin) w5)) = files w5"
    by (rule R [unfolded runner_contract_def, THEN conjunct2, rule_format])
  ultimately have "files w5 ?rs = files w4 ?rs" "files w6 = files w5" by (simp_all only: 5 6 snd_conv)
  with ReadFile_Inr [OF fs 7] w [OF 4] have "printed = out" by simp
  with p files a out comment show ?thesis by blast
qed

end
