(* ===== verification/Exchange_Properties.thy ===== *)
theory Exchange_Properties
  imports Witness_Properties Cosign_Action
begin

section \<open>The client and the witness over an issue\<close>

text \<open>
  The origin's side (\<open>RoundTrip\<close>) composed with the witness's (\<open>action_run\<close> around the
  \<^verbatim>\<open>cosign\<close> command): which request the witness answers, and what the client reads of the
  answer.
\<close>

subsection \<open>The answer as it is read\<close>

lemma sublist_separated: "u \<noteq> [] \<Longrightarrow> c \<notin> set u \<Longrightarrow> sublist u (x @ c # y) \<longleftrightarrow> sublist u x \<or> sublist u y"
proof -
  assume u: "u \<noteq> []" "c \<notin> set u"
  have p: "prefix v (c # y) \<Longrightarrow> c \<notin> set v \<Longrightarrow> v = []" for v by (cases v) auto
  have "sublist u (c # y) \<longleftrightarrow> sublist u y" using u p [of u] by (auto simp: sublist_Cons_right)
  moreover have "sublist u x" if "u = v @ w" "suffix v x" "prefix w (c # y)" for v w
    using p [of w] u(2) that by (auto intro: suffix_imp_sublist)
  then have "sublist u (x @ c # y) \<longleftrightarrow> sublist u x \<or> sublist u (c # y)" unfolding sublist_append by blast
  ultimately show ?thesis by simp
qed

lemma TrimRight_end: "TrimRight s [c] = [] \<or> last (TrimRight s [c]) \<noteq> c"
  using TrimRight_fixed_iff [of "TrimRight s [c]" "[c]"] by (cases s rule: rev_cases) (auto simp: TrimRight_def hd_dropWhile last_rev)

lemma posted_answer:
  assumes "CHR 0x00 \<notin> set r" "\<not> sublist ticks r"
  shows "httpFence_FindStringSubmatch (post_response (r @ [nl])) = Some (TrimRight r [nl] @ [nl])"
proof -
  let ?t = "TrimRight r [nl]"
  have s: "shell_subst (r @ [nl]) = ?t" using assms(1) shell_subst_plain [of "r @ [nl]"] by simp
  obtain n where "r = ?t @ replicate n nl" using TrimRight_prefix by blast
  with assms(2) have "\<not> sublist ticks ?t" by (metis sublist_appendI sublist_order.order_trans append_Nil)
  moreover have "\<not> sublist ticks (butlast ticks)" by (simp add: ticks_def sublist_code)
  ultimately have "\<not> sublist ticks ((?t @ [nl]) @ butlast ticks)"
    using sublist_separated [of ticks nl ?t "butlast ticks"] by (simp add: ticks_def)
  moreover have "\<not> sublist fence_open ([] @ butlast fence_open)" by (simp add: fence_open_def ticks_def sublist_code)
  ultimately show ?thesis using fence_match [of "[]" "?t @ [nl]" "[]"] unfolding post_response_fence s by simp
qed

text \<open>
  C36: The answer through the comment. The workflow posts what \<^verbatim>\<open>cosign\<close> printed through a shell
  variable, which drops the newlines at its end and adds one. A response whose body ends in exactly
  one newline, as cosignatures do, is read back byte for byte; a body without one gains it, past the
  content length; and of a response with no body the empty line that ends its header is lost, so
  that what the client reads is no HTTP message.
\<close>

theorem posted_answer_read:
  assumes "hdrs \<noteq> []" "\<forall>l\<in>set hdrs. l \<noteq> [] \<and> nl \<notin> set l"
    and "CHR 0x00 \<notin> set (unframed hdrs body)" "\<not> sublist ticks (unframed hdrs body)"
    and "\<forall>c\<in>set earlier. httpFence_FindStringSubmatch c = None"
  shows "\<exists>m. first_reply (earlier @ post_response (unframed hdrs body @ [nl]) # later) = Some m \<and>
    (m = unframed hdrs body \<longleftrightarrow> (\<exists>b. body = b @ [nl] \<and> b \<noteq> [] \<and> last b \<noteq> nl)) \<and>
    (body \<noteq> [] \<and> last body \<noteq> nl \<longrightarrow> m = unframed hdrs body @ [nl]) \<and>
    (body = [] \<longrightarrow> m = concat (map (\<lambda>l. l @ [nl]) hdrs) \<and> \<not> sublist [nl, nl] m)"
proof -
  let ?P = "unframed hdrs body" and ?H = "concat (map (\<lambda>l. l @ [nl]) hdrs)"
  let ?m = "TrimRight ?P [nl] @ [nl]"
  have "first_reply (earlier @ c # later) = first_reply (c # later)" for c
    using assms(5) by (induction earlier) simp_all
  then have f: "first_reply (earlier @ post_response (?P @ [nl]) # later) = Some ?m"
    using posted_answer [OF assms(3,4)] by simp
  obtain ls l where l: "hdrs = ls @ [l]" using assms(1) by (cases hdrs rule: rev_cases) auto
  with assms(2) have "l \<noteq> []" "nl \<notin> set l" by auto
  then have "l \<noteq> []" "last l \<noteq> nl" by (metis last_in_set)+
  then obtain h where h: "?H = h @ [nl]" "h \<noteq> []" "last h \<noteq> nl" using l by simp
  have keep: "TrimRight (x @ [nl] @ b) [nl] = x @ [nl] @ b" if "b \<noteq> []" "last b \<noteq> nl" for x b
    using that by (intro TrimRight_last) auto
  have P: "?P = ?H @ [nl] @ body" by (simp add: unframed_def)
  have "?m = ?P \<longleftrightarrow> (\<exists>b. body = b @ [nl] \<and> b \<noteq> [] \<and> last b \<noteq> nl)"
  proof
    assume m: "?m = ?P"
    have e: "TrimRight ?P [nl] = [] \<or> last (TrimRight ?P [nl]) \<noteq> nl" by (rule TrimRight_end)
    show "\<exists>b. body = b @ [nl] \<and> b \<noteq> [] \<and> last b \<noteq> nl"
    proof (cases body rule: rev_cases)
      case Nil
      with m P h have "TrimRight ?P [nl] = h @ [nl]" by simp
      with e show ?thesis by simp
    next
      case (snoc b x)
      with m P have "?m = (?H @ [nl] @ b) @ [x]" by (simp only: append_assoc)
      then have c: "TrimRight ?P [nl] = ?H @ [nl] @ b \<and> nl = x" by (rule append1_eq_conv [THEN iffD1])
      with e snoc show ?thesis by (cases b rule: rev_cases) auto
    qed
  next
    assume "\<exists>b. body = b @ [nl] \<and> b \<noteq> [] \<and> last b \<noteq> nl"
    then obtain b where b: "body = b @ [nl]" "b \<noteq> []" "last b \<noteq> nl" by blast
    then have "TrimRight ?P [nl] = ?H @ [nl] @ b" using keep [of b ?H] TrimRight_snoc [of "?H @ [nl] @ b" nl] P by simp
    with b P show "?m = ?P" by simp
  qed
  moreover have "body \<noteq> [] \<and> last body \<noteq> nl \<longrightarrow> ?m = ?P @ [nl]" using keep [of body ?H] P by simp
  moreover have "?m = ?H" if "body = []"
  proof -
    have "TrimRight ((h @ [nl]) @ [nl]) [nl] = h" unfolding TrimRight_snoc by (rule TrimRight_last) (use h in simp_all)
    moreover have "?P = (h @ [nl]) @ [nl]" using P that h(1) by simp
    ultimately show ?thesis using h(1) by simp
  qed
  moreover have "\<not> sublist [nl, nl] ?H" by (rule no_empty_line [OF assms(2)])
  ultimately show ?thesis using f by auto
qed

theorem posted_answer_read_witness:
  "first_reply [''hello'', post_response (''HTTP/1.1 200 OK'' @ [nl, nl] @ ''sig'' @ [nl, nl])] =
     Some (''HTTP/1.1 200 OK'' @ [nl, nl] @ ''sig'' @ [nl]) \<and>
   first_reply [''hello'', post_response (''HTTP/1.1 403 Forbidden'' @ [nl, nl, nl])] =
     Some (''HTTP/1.1 403 Forbidden'' @ [nl])"
proof -
  have e: "\<forall>c\<in>set [''hello'']. httpFence_FindStringSubmatch c = None"
    by (simp add: httpFence_FindStringSubmatch_def fence_open_def ticks_def)
  have t: "\<not> sublist ticks (unframed [''HTTP/1.1 200 OK''] (''sig'' @ [nl]))"
    "\<not> sublist ticks (unframed [''HTTP/1.1 403 Forbidden''] [])"
    by (simp_all add: sublist_code ticks_def unframed_def)
  have b: "\<exists>b. ''sig'' @ [nl] = b @ [nl] \<and> b \<noteq> [] \<and> last b \<noteq> nl" by (rule exI [of _ "''sig''"]) simp
  from posted_answer_read [of "[''HTTP/1.1 200 OK'']" "''sig'' @ [nl]" "[''hello'']" "[]", OF _ _ _ t(1) e]
    posted_answer_read [of "[''HTTP/1.1 403 Forbidden'']" "[]" "[''hello'']" "[]", OF _ _ _ t(2) e] b
  show ?thesis by (auto simp: unframed_def)
qed

subsection \<open>The exchange\<close>

text \<open>A message as \<^verbatim>\<open>net/http\<close> writes it, that the carrier can hold: no carriage return, no fence.\<close>

definition carriable :: "string list \<Rightarrow> string \<Rightarrow> bool" where
  "carriable hdrs body \<longleftrightarrow> hdrs \<noteq> [] \<and> (\<forall>l\<in>set hdrs. l \<noteq> [] \<and> nl \<notin> set l \<and> cr \<notin> set l) \<and>
     cr \<notin> set body \<and> \<not> sublist ticks (unframed hdrs body @ butlast ticks)"

lemma carriable_marshalled: "carriable hdrs body \<Longrightarrow> MarshalMessage (Inr (framed hdrs body)) = Inr (unframed hdrs body)"
  by (rule MarshalMessage_framed) (simp_all add: carriable_def)

lemma carriable_parsed:
  "carriable hdrs body \<Longrightarrow> originFromAddCheckpoint body = Inr origin \<Longrightarrow>
   parse_issue (fence (unframed hdrs body)) = Inr (unframed hdrs body, origin)"
  by (rule parse_issue_fence) (auto simp: carriable_def)

lemma RoundTrip_answer:
  assumes "issueTarget (r_URL req) = Inr (owner, repo)" "issueRequest E req = Inr (message, origin)"
    and "RoundTrip E t fuel req w = Some (Inr resp, w')"
  shows "\<exists>number w1 m. ie_Create E (github E t) owner repo (''checkpoint: '' @ origin) (fence message) w = (Inr number, w1) \<and>
     awaitReply E t owner repo number fuel w1 = Some (Inr m, w') \<and> ie_ReadResponse E m req = Inr resp"
proof -
  obtain x w1 where x: "ie_Create E (github E t) owner repo (''checkpoint: '' @ origin) (fence message) w = (x, w1)" by force
  have ce: "createIssue E t owner repo (''checkpoint: '' @ origin) (fence message) w =
      (rwrap ''creating issue on %s/%s: %w'' [FStr owner, FStr repo] x, w1)"
    unfolding createIssue_def ewrap_def x prod.case ..
  note rt = assms(3) [unfolded RoundTrip_def assms(1,2) sum.case prod.case ce]
  obtain number where n: "x = Inr number" using rt by (cases x) (simp_all add: rwrap_def)
  note rt = rt [unfolded n rwrap_def sum.case]
  obtain r w2 where r: "awaitReply E t owner repo number fuel w1 = Some (r, w2)"
    using rt by (cases "awaitReply E t owner repo number fuel w1") auto
  obtain m where m: "r = Inr m" using rt unfolding r by (cases r) simp_all
  from rt [unfolded r m option.case prod.case sum.case] x n r m show ?thesis by simp
qed

text \<open>
  C27: The whole exchange. The client opens an issue, the witness's workflow runs on its body and
  posts its answer there, and no other comment on the issue holds a fence (the document's rule that a
  request gets exactly one response, which the code does not enforce on comments). Then a response that the
  client returns was parsed from what this witness answered: to the client's own request, byte for
  byte as it was written, for the origin that the client's checkpoint names, with the keys trusted
  for that origin and on its state file, signing with the key of the runner.
\<close>

theorem witness_answers_client:
  assumes "issueTarget (r_URL req) = Inr (owner, repo)" "r_Body req = Inr body" "originFromAddCheckpoint body = Inr origin"
    and "ie_Write E (carried req body) = Inr (framed hdrs body)" "carriable hdrs body"
    and "fs_contract F files" "runner_contract R files"
    and "action_run C TW F FM R (fence (unframed hdrs body)) v = (Inr comment, v')"
    and "\<forall>number w1. ie_Create E (github E t) owner repo (''checkpoint: '' @ origin) (fence (unframed hdrs body)) w =
      (Inr number, w1) \<longrightarrow> sole_reply E owner repo number comment"
    and "RoundTrip E t fuel req w = Some (Inr resp, w')"
  shows "\<exists>response m v1. files v1 = (files v)(ru_Temp R @ ''/request.txt'' \<mapsto> unframed hdrs body,
        ru_Temp R @ ''/witness.vkey'' \<mapsto> ru_Key R @ [nl]) \<and>
     witness_answers C TW F FM files (ru_Key R) (unframed hdrs body) origin response v1 \<and>
     httpFence_FindStringSubmatch (post_response (response @ [nl])) = Some m \<and> ie_ReadResponse E m req = Inr resp"
proof -
  have q: "issueRequest E req = Inr (unframed hdrs body, origin)"
    unfolding issueRequest_carried [OF assms(2)] assms(3,4) carriable_marshalled [OF assms(5)] by simp
  from RoundTrip_answer [OF assms(1) q assms(10)] obtain number w1 m
    where c: "ie_Create E (github E t) owner repo (''checkpoint: '' @ origin) (fence (unframed hdrs body)) w = (Inr number, w1)"
      and a: "awaitReply E t owner repo number fuel w1 = Some (Inr m, w')" and r: "ie_ReadResponse E m req = Inr resp" by blast
  from assms(9) c have "sole_reply E owner repo number comment" by blast
  from awaitReply_sole [OF this a] have m: "httpFence_FindStringSubmatch comment = Some m" .
  from action_run_Inr [OF assms(6,7,8), unfolded carriable_parsed [OF assms(5,3)]]
  obtain response v1 where "files v1 = (files v)(ru_Temp R @ ''/request.txt'' \<mapsto> unframed hdrs body,
        ru_Temp R @ ''/witness.vkey'' \<mapsto> ru_Key R @ [nl])"
    "witness_answers C TW F FM files (ru_Key R) (unframed hdrs body) origin response v1"
    "comment = post_response (response @ [nl])" by auto
  with m r show ?thesis by blast
qed

subsection \<open>An exchange that succeeds\<close>

text \<open>A client at its first poll, and a witness that answers every request alike.\<close>

definition ex_url :: url where
  "ex_url = \<lparr>url_Scheme = IssueScheme, url_Host = ''owner'', url_Path = ''/witness''\<rparr>"

definition ex_body :: string where
  "ex_body = ''old 0'' @ [nl, nl] @ ''log'' @ [nl] @ ''1'' @ [nl]"

definition ex_post :: http_request where
  "ex_post = \<lparr>r_URL = ex_url, r_Host = [], r_Header = [], r_Body = Inr ex_body, r_ContentLength = 0\<rparr>"

definition ex_answer :: string where
  "ex_answer = unframed [''HTTP/1.1 200 OK''] (''sig'' @ [nl])"

definition ex_issue :: "(unit, string) issue_env" where
  "ex_issue =
     \<lparr>ie_Create = (\<lambda>c ow r t b. eret 1), ie_Get = (\<lambda>c ow r n. eret ''open''),
      ie_ListComments = (\<lambda>c ow r n p. eret ([''queued'', post_response (ex_answer @ [nl])], 0)),
      ie_wait = (\<lambda>d. eret ()), ie_now = (\<lambda>w. 0),
      ie_Write = (\<lambda>r. rbind (r_Body r) (\<lambda>b. Inr (framed [''POST /add-checkpoint HTTP/1.1''] b))),
      ie_ReadResponse = (\<lambda>s r. Inr s), ie_Getenv = (\<lambda>s. []), ie_Parse = (\<lambda>s. Inl (Errorf [] []))\<rparr>"

definition ex_transport :: transport where
  "ex_transport = \<lparr>t_API = None, t_Token = ''token'', t_Poll = 0\<rparr>"

type_synonym runner_files = "string \<rightharpoonup> string"

definition ex_witness_lib :: "(runner_files, string, unit) witness_lib" where
  "ex_witness_lib =
     \<lparr>tw_ReadRequest = Inr, tw_NewVerifier = (\<lambda>v. Inr ()),
      tw_serve = (\<lambda>latest update signers verifier r. eret (Inr (framed [''HTTP/1.1 200 OK''] (''sig'' @ [nl]))))\<rparr>"

definition ex_signing :: "runner_files formats" where
  "ex_signing =
     \<lparr>fnote_NewSigner = (\<lambda>skey. Inr \<lparr>ns_Name = ''wit'', ns_Sign = (\<lambda>m. eret ''sig'')\<rparr>),
      fnote_NewMLDSASignerFromCrypto = (\<lambda>n k. Inl (Errorf ''no ML-DSA'' [])),
      sumdb_Sign = (\<lambda>t s. eret ''sig'')\<rparr>"

definition ex_runner :: "runner_files runner" where
  "ex_runner =
     \<lparr>ru_Temp = ''tmp'', ru_Key = projr (SKey ex_cosigner), ru_Exists = (\<lambda>p w. w p \<noteq> None),
      ru_Remove = (\<lambda>p w. (Inr (), w(p := None))), ru_Commit = (\<lambda>p. eret ())\<rparr>"

definition ex_checkout :: runner_files where
  "ex_checkout = Map.empty(''origins/log'' \<mapsto> ex_vkey)"

lemma ex_runner_contract: "runner_contract ex_runner (\<lambda>w. w)"
  by (simp add: runner_contract_def ex_runner_def eret_def)

lemma ex_carriable: "carriable [''POST /add-checkpoint HTTP/1.1''] ex_body"
  by (simp add: carriable_def unframed_def ex_body_def ticks_def sublist_code)

lemma ex_requested:
  "issueTarget (r_URL ex_post) = Inr (''owner'', ''witness'')" "r_Body ex_post = Inr ex_body"
  "originFromAddCheckpoint ex_body = Inr ''log''"
  "ie_Write ex_issue (carried ex_post ex_body) = Inr (framed [''POST /add-checkpoint HTTP/1.1''] ex_body)"
proof -
  show "issueTarget (r_URL ex_post) = Inr (''owner'', ''witness'')" unfolding ex_post_def ex_url_def by code_simp
  show "originFromAddCheckpoint ex_body = Inr ''log''" unfolding ex_body_def by code_simp
qed (simp_all add: ex_post_def ex_issue_def carried_def)

lemma ex_posted: "httpFence_FindStringSubmatch (post_response (ex_answer @ [nl])) = Some ex_answer"
proof -
  have "CHR 0x00 \<notin> set ex_answer" "\<not> sublist ticks ex_answer" "TrimRight ex_answer [nl] @ [nl] = ex_answer"
    unfolding ex_answer_def unframed_def by (simp_all add: ticks_def sublist_code TrimRight_def)
  with posted_answer [of ex_answer] show ?thesis by simp
qed

lemma ex_sole: "sole_reply ex_issue ''owner'' ''witness'' number (post_response (ex_answer @ [nl]))"
proof -
  have "httpFence_FindStringSubmatch ''queued'' = None"
    by (simp add: httpFence_FindStringSubmatch_def fence_open_def ticks_def)
  then show ?thesis by (simp add: sole_reply_def ex_issue_def eret_def)
qed

lemma ex_returned: "RoundTrip ex_issue ex_transport 1 ex_post () = Some (Inr ex_answer, ())"
proof -
  have q: "issueRequest ex_issue ex_post = Inr (unframed [''POST /add-checkpoint HTTP/1.1''] ex_body, ''log'')"
    unfolding issueRequest_carried [OF ex_requested(2)] ex_requested(3,4) carriable_marshalled [OF ex_carriable] by simp
  have f: "first_reply [''queued'', post_response (ex_answer @ [nl])] = Some ex_answer"
    using ex_posted by (simp add: httpFence_FindStringSubmatch_def fence_open_def ticks_def)
  have "poll_once ex_issue ex_transport ''owner'' ''witness'' 1 1 () = Some (Inl (Inr ex_answer), ())"
    using f by (simp add: poll_once_def readIssue_def) (simp add: ex_issue_def eret_def)
  then have "awaitReply ex_issue ex_transport ''owner'' ''witness'' 1 1 () = Some (Inr ex_answer, ())"
    by (subst awaitReply.simps) simp
  moreover have "createIssue ex_issue ex_transport ''owner'' ''witness'' ti b () = (Inr 1, ())" for ti b
    by (simp add: createIssue_def ewrap_def rwrap_def ex_issue_def eret_def)
  moreover have "ie_ReadResponse ex_issue ex_answer ex_post = Inr ex_answer" by (simp add: ex_issue_def)
  ultimately show ?thesis by (simp add: RoundTrip_def ex_requested(1) q)
qed

lemma ex_runner_key: "ReadKeyData (ex_crypto :: runner_files crypto) (ru_Key ex_runner @ [nl]) RoleCosigner = Inr ex_cosigner"
proof -
  have "s_Name ex_cosigner \<noteq> []" "CHR ''+'' \<notin> set (s_Name ex_cosigner)" "local_signer (ex_crypto :: runner_files crypto) ex_cosigner"
    using ex_signers(5) by (simp_all add: ex_signers local_signer_def newEd25519Signer_def newMLDSA44Signer_def ex_crypto_def)
  from ReadKeyData_SKey [OF ex_crypto_contracts(2,3) this(3,1,2), of "[nl]" RoleCosigner]
  have "rbind (SKey ex_cosigner) (\<lambda>k. ReadKeyData (ex_crypto :: runner_files crypto) (k @ [nl]) RoleCosigner) = Inr ex_cosigner"
    using ex_signers(7,8) by (simp add: role_allowed_def)
  then obtain k where "SKey ex_cosigner = Inr k" "ReadKeyData (ex_crypto :: runner_files crypto) (k @ [nl]) RoleCosigner = Inr ex_cosigner"
    by (auto simp: rbind_Inr_iff)
  then show ?thesis by (simp add: ex_runner_def)
qed

lemma ex_runner_origins: "\<exists>t. read_origins (ex_crypto :: runner_files crypto) [] (scan_lines ex_vkey) = Inr t \<and> t \<noteq> []"
proof -
  have p: "ParseVKey (ex_crypto :: runner_files crypto) ex_vkey = Inr (''log'', Ed25519Origin, EdPub (replicate 32 (CHR ''k'')))"
    unfolding ParseVKey_def ex_vkey_def by code_simp
  have l: "scan_lines ex_vkey = [ex_vkey]" unfolding ex_vkey_def by code_simp
  have v: "ex_vkey \<noteq> []" "\<not> prefix ''#'' ex_vkey" "length ex_vkey < max_token"
    by (simp_all add: ex_vkey_def max_token_def)
  with p show ?thesis by (auto simp: l ex_vkey_trimmed)
qed

lemma ex_answered:
  "answerAddCheckpoint ex_witness_lib ex_fs ex_signing r ex_cosigner tr ''checkpoints/log'' w = (Inr ex_answer, w)"
proof -
  have m: "MarshalMessage (Inr (framed [''HTTP/1.1 200 OK''] (''sig'' @ [nl]))) = Inr ex_answer"
    unfolding ex_answer_def by (rule MarshalMessage_framed) simp_all
  have "\<exists>s. TlogCosigner ex_signing ex_cosigner = Inr s"
    using ex_signers(5,7,8) by (auto simp: TlogCosigner_def checkpointSigner_def SKey_def local_signer_def ex_signing_def SigType_defs)
  then obtain sg where "TlogCosigner ex_signing ex_cosigner = Inr sg" ..
  then show ?thesis
    using m by (simp add: answerAddCheckpoint_def ebind_def elift_def ewrap_def rwrap_def eret_def ex_witness_lib_def)
qed

lemma ex_run: "\<exists>v. action_run ex_crypto ex_witness_lib ex_fs ex_signing ex_runner
    (fence (unframed [''POST /add-checkpoint HTTP/1.1''] ex_body)) ex_checkout = (Inr (post_response (ex_answer @ [nl])), v)"
proof -
  let ?m = "unframed [''POST /add-checkpoint HTTP/1.1''] ex_body"
  let ?w = "ex_checkout(''tmp/request.txt'' \<mapsto> ?m, ''tmp/witness.vkey'' \<mapsto> ru_Key ex_runner @ [nl])"
  have rd: "fs_ReadFile ex_fs p w = (Inr d, w)" if "w p = Some d" for p d w using that by (simp add: ex_fs_def)
  have wr: "fs_WriteFile ex_fs p d w = (Inr (), w(p \<mapsto> d))" for p d w by (simp add: ex_fs_def)
  obtain tr where tr: "read_origins (ex_crypto :: runner_files crypto) [] (scan_lines ex_vkey) = Inr tr" "tr \<noteq> []"
    using ex_runner_origins by blast
  have k: "fs_ReadFile ex_fs ''tmp/witness.vkey'' ?w = (Inr (ru_Key ex_runner @ [nl]), ?w)" by (rule rd) simp
  have o: "fs_ReadFile ex_fs ''origins/log'' ?w = (Inr ex_vkey, ?w)" by (rule rd) (simp add: ex_checkout_def)
  have q: "fs_ReadFile ex_fs ''tmp/request.txt'' ?w = (Inr ?m, ?w)" by (rule rd) simp
  have t: "ru_Temp ex_runner @ x = ''tmp'' @ x" for x by (simp add: ex_runner_def)
  have main: "cosign_main ex_crypto ex_witness_lib ex_fs ex_signing \<lparr>cf_request = ''tmp/request.txt'',
      cf_origin_vkeys = ''origins/log'', cf_stored_checkpoint = ''checkpoints/log'', cf_key = ''tmp/witness.vkey''\<rparr> ?w =
      (Inr (ex_answer @ [nl]), ?w)"
    using tr(2) by (simp add: cosign_main_def ReadKeyFile_def readTrustedOriginsFile_def ebind_def ewrap_def rwrap_def
        elift_def eret_def k o q tr(1) ex_runner_key ex_answered del: fun_upd_apply)
  have e: "ru_Exists ex_runner ''origins/log'' ex_checkout" by (simp add: ex_runner_def ex_checkout_def)
  have c: "cosign_args ex_crypto ex_witness_lib ex_fs ex_signing (cosign_command ex_runner ''log'') ?w = (Inr (ex_answer @ [nl]), ?w)"
    using main by (simp add: cosign_command_flags t)
  let ?v = "(?w(''tmp/response.txt'' \<mapsto> ex_answer @ [nl]))(''tmp/witness.vkey'' := None)"
  have rm: "ru_Remove ex_runner p w = (Inr (), w(p := None))" for p w by (simp add: ex_runner_def)
  have cm: "ru_Commit ex_runner p w = (Inr (), w)" for p w by (simp add: ex_runner_def eret_def)
  have r: "fs_ReadFile ex_fs ''tmp/response.txt'' ?v = (Inr (ex_answer @ [nl]), ?v)" by (rule rd) simp
  show ?thesis
    using c e r by (simp add: action_run_def carriable_parsed [OF ex_carriable ex_requested(3)] ebind_def elift_def eret_def
        wr t rm cm del: fun_upd_apply)
qed

theorem witness_answers_client_witness:
  "\<exists>response m v1. v1 = ex_checkout(''tmp/request.txt'' \<mapsto> unframed [''POST /add-checkpoint HTTP/1.1''] ex_body,
        ''tmp/witness.vkey'' \<mapsto> ru_Key ex_runner @ [nl]) \<and>
     witness_answers ex_crypto ex_witness_lib ex_fs ex_signing (\<lambda>w. w) (ru_Key ex_runner)
       (unframed [''POST /add-checkpoint HTTP/1.1''] ex_body) ''log'' response v1 \<and>
     httpFence_FindStringSubmatch (post_response (response @ [nl])) = Some m \<and> m = ex_answer"
proof -
  obtain v where run: "action_run ex_crypto ex_witness_lib ex_fs ex_signing ex_runner
    (fence (unframed [''POST /add-checkpoint HTTP/1.1''] ex_body)) ex_checkout = (Inr (post_response (ex_answer @ [nl])), v)"
    using ex_run by blast
  have t: "ru_Temp ex_runner @ ''/request.txt'' = ''tmp/request.txt''" "ru_Temp ex_runner @ ''/witness.vkey'' = ''tmp/witness.vkey''"
    by (simp_all add: ex_runner_def)
  have s: "\<forall>number w1. ie_Create ex_issue (github ex_issue ex_transport) ''owner'' ''witness'' (''checkpoint: '' @ ''log'')
      (fence (unframed [''POST /add-checkpoint HTTP/1.1''] ex_body)) () = (Inr number, w1) \<longrightarrow>
      sole_reply ex_issue ''owner'' ''witness'' number (post_response (ex_answer @ [nl]))"
    using ex_sole by blast
  have r: "ie_ReadResponse ex_issue m ex_post = Inr m" for m by (simp add: ex_issue_def)
  from witness_answers_client [OF ex_requested ex_carriable ex_fs_contract ex_runner_contract run s ex_returned]
  show ?thesis unfolding t r sum.inject .
qed

end
