(* ===== verification/Spec2Isabelle.thy ===== *)
theory Spec2Isabelle
  imports Note_Properties Key_Properties Log_Properties Ratchet_Properties Command_Properties
    History_Properties Concurrent_Properties Program_Properties Cosigning_Properties Witness_Properties
    Exchange_Properties
begin

text \<open>
  A verification library for git-ratchet.

  \<^bold>\<open>The program.\<close> git-ratchet keeps an append-only log of where a repository's branches and tags
  pointed. The log lives in the repository itself, as commits under \<^verbatim>\<open>refs/ratchet/log\<close>;
  \<^verbatim>\<open>git-ratchet log\<close> appends records to it, \<^verbatim>\<open>git-ratchet checkpoint\<close> signs the Merkle root of the
  log and has a quorum of witnesses cosign it, and \<^verbatim>\<open>git-ratchet verify\<close> checks that a branch only
  ever moved forward and that a tag never moved, reading no further than a checkpoint the policy
  accepts. A witness is reached over HTTP or over GitHub issues; the \<^verbatim>\<open>cosign\<close> command is the
  witness of the second kind. Everything git does is done by running \<^verbatim>\<open>git\<close>.

  \<^bold>\<open>Conventions.\<close> A Go string or byte slice is a \<open>string\<close>, its characters the bytes; \<^verbatim>\<open>uint64\<close> and
  \<^verbatim>\<open>uint32\<close> are words, sums on them wrap as in Go, and \<^verbatim>\<open>int\<close> is \<open>int\<close> or, for lengths, \<open>nat\<close>. A
  fallible function returns \<open>goerr + 'a\<close>; \<open>goerr\<close> keeps the chain of wrapped errors, so
  \<^verbatim>\<open>errors.Is\<close> and \<^verbatim>\<open>errors.As\<close> are functions on it, and a run-time panic is the error \<open>Panic\<close>, which
  ends the computation as every other error does. Code with effects is a function from a world
  \<open>'w\<close> to a result and a world (\<open>io\<close>, with \<open>ebind\<close> for the sequence of calls and \<open>ewrap\<close> for
  \<^verbatim>\<open>fmt.Errorf\<close> around an error). Loops are recursive functions that carry what the loop updates.

  \<^bold>\<open>Theories and sources.\<close>
  \<^item> \<open>Prelude\<close>, \<open>Go_Strings\<close>, \<open>Go_Encoding\<close>: errors and effects; what the sources use of \<^verbatim>\<open>strings\<close>,
    \<^verbatim>\<open>encoding/binary\<close>, \<^verbatim>\<open>encoding/hex\<close>, \<^verbatim>\<open>encoding/base64\<close>, \<^verbatim>\<open>strconv\<close>, all with definitions.
  \<^item> \<open>Gitutil\<close> (\<^verbatim>\<open>internal/gitutil\<close>): ref kinds, the git command line, object queries; the
    contracts of the git queries the ratchet rests on.
  \<^item> \<open>Log_Entry\<close> (\<^verbatim>\<open>internal/gitlog/entry.go\<close>): the line format of an entry, ref records.
  \<^item> \<open>Tlog\<close>, \<open>Merkle_Spec\<close> (\<^verbatim>\<open>internal/tlog\<close>): root, leaf hashes and consistency proofs over the
    Merkle library; RFC 6962's tree hash, proof and proof verification as the specification.
  \<^item> \<open>Gitlog\<close>, \<open>Git_Store\<close>, \<open>Log_Store\<close> (\<^verbatim>\<open>internal/gitlog/gitlog.go\<close>): the log and its operations;
    git's object store as a state with contracts for the commands \<^verbatim>\<open>Save\<close> and \<^verbatim>\<open>Open\<close> run, and
    both of them against that state.
  \<^item> \<open>Note\<close>, \<open>Kms_Signer\<close>, \<open>Kms_Keys\<close>, \<open>Note_Tlog\<close> (\<^verbatim>\<open>internal/note\<close>): keys, notes, signatures and
    cosignatures, KMS signers, checkpoint signing.
  \<^item> \<open>Policy\<close> (\<^verbatim>\<open>internal/policy\<close>): reading a policy; the policy language is the library's.
  \<^item> \<open>Ratchet\<close> (\<^verbatim>\<open>ratchet.go\<close>): \<^verbatim>\<open>logRefs\<close>, \<^verbatim>\<open>checkpointLog\<close>, \<^verbatim>\<open>checkpointedLog\<close>, \<^verbatim>\<open>verifySingleRef\<close>
    and what they call, the goroutines of \<^verbatim>\<open>collectCosignatures\<close> as steps of an explicit schedule;
    \<open>Ratchet_Rules\<close> (the ratchet's rules as predicates, and that the code decides them),
    \<open>Ratchet_Cosign\<close> (collecting cosignatures under every schedule), \<open>Ratchet_Commands\<close> and
    \<open>Checkpoint_Run\<close> (the commands against git's state and against each other), \<open>Git_Works\<close> and
    \<open>Command_Success\<close> (when they succeed). \<open>Ledger\<close>: the abstract specification of a repository with a
    log. \<open>Repo_History\<close>: a repository over time as a step relation: any number of processes that run
    \<^verbatim>\<open>log\<close> and \<^verbatim>\<open>checkpoint\<close>, with log keys of any kind, taken apart into reading, writing objects and moving the log
    ref, and between them other git activity that only adds objects and leaves \<^verbatim>\<open>refs/ratchet/log\<close> alone; it
    implements the ledger. Entries pushed to that ref, and a reset of it, are not among the steps. \<open>Torn_Reads\<close>: \<^verbatim>\<open>Open\<close> and \<^verbatim>\<open>checkpointedLog\<close> while
    such processes go on between any two runs of git. \<open>Unlisted_Log\<close>: what the commands do when \<^verbatim>\<open>git ls-tree\<close>
    fails.
  \<^item> \<open>Flags\<close>: what the commands use of the \<^verbatim>\<open>flag\<close> package. \<open>Main_Cmd\<close>, \<open>Main_Program\<close> (\<^verbatim>\<open>main.go\<close>), \<open>Tools\<close>
    (\<^verbatim>\<open>tools\<close>), \<open>Cosign_Cmd\<close> (\<^verbatim>\<open>cosign\<close>): the commands, from their arguments to their exit status.
  \<^item> \<open>Witness_Message\<close>, \<open>Issue_Transport\<close> (\<^verbatim>\<open>internal/witness\<close>): messages over GitHub issues.
    \<open>Cosign_Action\<close> (\<^verbatim>\<open>actions/cosign/action.yml\<close>): the workflow that runs \<^verbatim>\<open>cosign\<close> on an issue.
  \<^item> \<open>Example_Libraries\<close>, \<open>Example_Repository\<close>, \<open>Example_Run\<close>, \<open>Example_Works\<close>, \<open>Example_Unlisted\<close>: concrete libraries and
    a concrete git, with proofs that they meet the contracts; they serve the witnesses only.
  \<^item> \<open>Note_Properties\<close>, \<open>Key_Properties\<close>, \<open>Log_Properties\<close>, \<open>Ratchet_Properties\<close>,
    \<open>Command_Properties\<close>, \<open>History_Properties\<close>, \<open>Concurrent_Properties\<close>, \<open>Program_Properties\<close>, \<open>Cosigning_Properties\<close>,
    \<open>Witness_Properties\<close>, \<open>Exchange_Properties\<close>: the properties, each with a witness where it has hypotheses.

  \<^bold>\<open>Interfaces.\<close> \<open>text_codec\<close> (\<open>Go_Encoding\<close>) is what a printed key or hash needs of its encoding,
  interpreted on base64; \<open>tree_head\<close> (\<open>Merkle_Spec\<close>) what proofs need of a tree hash, interpreted on
  RFC 6962's; \<open>ref_log\<close> (\<open>Gitlog\<close>) what an append-only log of ref records promises its clients,
  interpreted on \<open>Append\<close> and \<open>RefRecords\<close>; \<open>witness_store\<close> (\<open>Cosign_Cmd\<close>) what a witness needs of
  its state, interpreted on \<open>Latest\<close> and \<open>Update\<close> over a file; \<open>ledger_implementation\<close> (\<open>Ledger\<close>) what
  a system must do to implement the ledger, interpreted on the steps of a repository, alone and seen
  from a given state on.

  \<^bold>\<open>Parameters and contracts.\<close> Third-party code and services are fields of records: \<open>os\<close> (running
  \<^verbatim>\<open>git\<close>, temporary files), \<open>merkle_lib\<close> (\<^verbatim>\<open>transparency-dev/merkle\<close>), \<open>tessera_lib\<close> (bundle format
  and paths), \<open>log_lib\<close> and \<open>formats\<close> (\<^verbatim>\<open>transparency-dev/formats\<close>), \<open>crypto\<close> (SHA-256, signatures,
  Cloud KMS), \<open>tlog_policy\<close>, \<open>issue_env\<close> (GitHub), \<open>cli\<close> and \<open>program\<close> (HTTP, the witness client, the
  \<^verbatim>\<open>subcommands\<close> library), \<open>witness_lib\<close>, \<open>fs\<close>, \<open>runner\<close>. What the program relies on is
  a named predicate on such a record (\<open>hasher_contract\<close>, \<open>ancestry_contract\<close>, \<open>repo_env\<close>, ...) that
  states documented behaviour. Of git, the contracts say that the queries about the log succeed where the log
  ref is (\<open>log_files_contract\<close>, \<open>log_listing_contract\<close>), since \<^verbatim>\<open>Open\<close> takes their failure for an empty log or
  a missing checkpoint, and that ref and ancestry queries are answered; what a failing listing does is a theorem of its own.
  No contract says that anything which writes, a network or a KMS succeeds, so the theorems also cover these failing at any call;
  only the theorem that \<^verbatim>\<open>log\<close> and \<^verbatim>\<open>checkpoint\<close> succeed assumes a git that works (\<open>git_works\<close>), a log key
  that signs (\<open>signs_checkpoints\<close>, which every local Ed25519 key meets, and an ML-DSA-44 key if the library signs
  with it) and witnesses that reach a quorum for the one note that is put to them (\<open>checkpoint_gets_quorum\<close>).
  A log key may be Ed25519, local or in Cloud KMS, or ML-DSA-44: of \<^verbatim>\<open>note.Sign\<close>, which signs with the latter,
  \<open>note_sign_contract\<close> states the shape of the result that it documents. Where a signature is shown to verify, it
  is the program's own Ed25519 construction. An origin is one that fits in the checkpoint format
  (\<open>checkpoint_format\<close>). Signatures are not assumed unforgeable, and hashes not collision-free: a collision is a
  disjunct of the conclusion.

  \<^bold>\<open>What the lemmas show.\<close> Formats: entries, bundles, notes, keys, checkpoints and messages read
  back as what was written, and of entries exactly one written form is accepted. Trees: the root
  is RFC 6962's, proofs verify, a checkpoint fixes the entries under it. Storage: \<^verbatim>\<open>Save\<close> moves the
  log ref only, from the head that was read, to a commit that reads back as the log saved; a save that
  fails leaves the refs alone. Rules: \<^verbatim>\<open>verifySingleRef\<close> and \<^verbatim>\<open>checkLogChains\<close> decide the ratchet's
  rules over the commit graph, and a broken chain stays broken. Commands: every outcome of \<^verbatim>\<open>log\<close>,
  \<^verbatim>\<open>checkpoint\<close> and \<^verbatim>\<open>verify\<close>, that the first two succeed where git works and a quorum is reached, and
  that what they did the third accepts. History: however
  processes interleave, and whatever git does in between to other refs than the log's, the repository is a ledger to which entries
  are only added, what was verified once is never rewritten if it verifies again, readers see the log of one
  moment, and a writer that read it in pieces is let through only if these fit. Cosigning: no
  schedule changes the verdict, every goroutine sends, a rejection is never skipped. Witness:
  polling ends with its context, the state file changes atomically and only upwards, and what a client is answered
  over an issue answers its own request, from the state of its own log.

  \<^bold>\<open>Bounds and fuel.\<close> Sizes are below \<open>2 ^ 63\<close> (\<open>go_len\<close>: the length of a slice is an \<^verbatim>\<open>int\<close>).
  \<open>list_pages\<close> counts the pages of comments in one poll; \<open>pages_contract\<close> says that the fuel is enough,
  which holds where pages are numbered upwards and are fewer than the fuel (\<open>numbered_pages\<close>). The polling
  loop itself, a \<open>partial_function\<close>, is shown to return, and no later after the deadline than the calls
  under way may be late (\<open>clock_contract\<close>, \<open>prompt_contract\<close>); its durations are \<open>int\<close>, the code's being far
  below \<open>2 ^ 63\<close> nanoseconds. \<open>goroutine_step\<close> is run as often as the schedule says;
  \<open>cosign_run\<close> appends two turns per goroutine, which is what a goroutine takes at most.

  \<^bold>\<open>Not modelled.\<close> \<^verbatim>\<open>Synopsis\<close> and the usage texts, what is printed beyond the outcome,
  \<^verbatim>\<open>time.ParseDuration\<close> (a parameter), the handle of the KMS client, contexts (a timeout is one
  of the failures \<open>d_Update\<close> may return, a deadline one of \<open>ie_wait\<close>'s), and \<^verbatim>\<open>Init\<close>, which
  satisfies an interface of a library. The text of formatted errors is kept as format and arguments.
  The rest of the repository is tests, the other workflows, documents and slides.
\<close>

end
